(* ===== verification/Prelude.thy ===== *)
theory Prelude
  imports Complex_Main "HOL-Library.Word"
begin

text \<open>
  Shared vocabulary of the development: the fixed-width integers of the C++ sources, the ways a
  C++ call can fail to return normally, the in-memory (little-endian) representation of an
  integer, the guard of \<^verbatim>\<open>std::vector\<close> allocations, decimal printing, and the generic list and word
  lemmas that the component theories use.  It also opens the collections of rewrite rules that
  the component proofs extend.
\<close>

unbundle bit_operations_syntax

named_theorems wire_simps
  \<open>rewrite rules for socket scripts, frames and their encodings\<close>
named_theorems store_simps
  \<open>rewrite rules for look-ups in an updated storage\<close>
named_theorems never_waits
  \<open>operations on files and locks, which do not wait for a peer\<close>
named_theorems handler_defs
  \<open>defining equations unfolded when one message handler is run\<close>

section \<open>Machine types and abnormal ends\<close>

type_synonym byte = "8 word"
type_synonym u16 = "16 word"
type_synonym u32 = "32 word"
type_synonym u64 = "64 word"

text \<open>
  The reasons why control does not come back from a call: a C++ exception that nobody on the
  worker thread catches, an integer division by zero, a thread parked in
  \<^verbatim>\<open>lock()\<close>/\<^verbatim>\<open>lock_shared()\<close> of the mutex of a path, or a thread parked in \<^verbatim>\<open>recv()\<close> of a connection whose
  peer is there and says nothing.
\<close>

datatype stop =
    Runtime_error string
  | Filesystem_error
  | Ios_failure
  | Length_error
  | Bad_alloc
  | System_error
  | Division_by_zero
  | Waits_for_lock string
  | Waits_for_peer

type_synonym 'a result = "stop + 'a"

definition bind_result :: "'a result \<Rightarrow> ('a \<Rightarrow> 'b result) \<Rightarrow> 'b result" where
  "bind_result m f = (case m of Inl e \<Rightarrow> Inl e | Inr x \<Rightarrow> f x)"

lemma bind_result_simps [simp]:
  "bind_result (Inl e) f = Inl e"
  "bind_result (Inr x) f = f x"
  by (simp_all add: bind_result_def)

lemma bind_result_Inr_iff:
  "bind_result m f = Inr y \<longleftrightarrow> (\<exists>x. m = Inr x \<and> f x = Inr y)"
  by (cases m) auto

lemma bind_result_Inl_iff:
  "bind_result m f = Inl e \<longleftrightarrow> m = Inl e \<or> (\<exists>x. m = Inr x \<and> f x = Inl e)"
  by (cases m) auto

lemma bind_result_assoc:
  "bind_result (bind_result m f) g = bind_result m (\<lambda>x. bind_result (f x) g)"
  by (cases m) auto

text \<open>
  \<^verbatim>\<open>std::vector<uint8_t>::resize\<close> and \<^verbatim>\<open>reserve\<close> throw \<^verbatim>\<open>std::length_error\<close> above
  \<^verbatim>\<open>max_size()\<close> (which is \<^verbatim>\<open>PTRDIFF_MAX\<close>) and \<^verbatim>\<open>std::bad_alloc\<close> when the allocator does not
  grant the block; \<open>grant\<close> is the largest block it grants.
\<close>

definition vector_max_size :: nat where
  "vector_max_size = 2 ^ 63 - 1"

definition vector_alloc :: "nat \<Rightarrow> nat \<Rightarrow> unit result" where
  "vector_alloc grant n =
     (if vector_max_size < n then Inl Length_error
      else if grant < n then Inl Bad_alloc
      else Inr ())"

lemma vector_alloc_Inr_iff:
  "vector_alloc grant n = Inr u \<longleftrightarrow> n \<le> vector_max_size \<and> n \<le> grant"
  by (auto simp: vector_alloc_def)

section \<open>Decimal printing\<close>

text \<open>\<^verbatim>\<open>std::to_string\<close> on an unsigned integer.\<close>

fun to_string :: "nat \<Rightarrow> string" where
  "to_string n =
     (if n < 10 then [char_of (48 + n)]
      else to_string (n div 10) @ [char_of (48 + n mod 10)])"

declare to_string.simps [simp del]

section \<open>The memory image of an integer\<close>

text \<open>
  \<open>store_le n w\<close> is what \<^verbatim>\<open>memcpy(buf, &w, n)\<close> leaves in the buffer on a little-endian host, and
  \<open>load_le\<close> what \<^verbatim>\<open>memcpy(&w, buf, n)\<close> reads back.
\<close>

definition store_le :: "nat \<Rightarrow> 'a::len word \<Rightarrow> byte list" where
  "store_le n w = map (\<lambda>i. ucast (drop_bit (8 * i) w)) [0..<n]"

fun load_le :: "byte list \<Rightarrow> 'a::len word" where
  "load_le [] = 0"
| "load_le (b # bs) = ucast b OR push_bit 8 (load_le bs)"

lemma length_store_le [simp]: "length (store_le n w) = n"
  by (simp add: store_le_def)

lemma nth_store_le: "i < n \<Longrightarrow> store_le n w ! i = ucast (drop_bit (8 * i) w)"
  by (simp add: store_le_def)

lemma bit_load_le:
  fixes bs :: "byte list"
  shows "bit (load_le bs :: 'a::len word) k \<longleftrightarrow>
    k < LENGTH('a) \<and> k div 8 < length bs \<and> bit (bs ! (k div 8)) (k mod 8)"
proof (induction bs arbitrary: k)
  case Nil
  then show ?case by simp
next
  case (Cons b bs)
  show ?case
  proof (cases "k < 8")
    case True
    then show ?thesis
      by (auto simp: bit_simps)
  next
    case False
    then have "k div 8 = Suc ((k - 8) div 8)" "k mod 8 = (k - 8) mod 8"
      by (simp_all add: div_if mod_if)
    with False Cons.IH [of "k - 8"] show ?thesis
      by (auto simp: bit_simps dest: bit_imp_le_length)
  qed
qed

lemma load_store_le:
  fixes w :: "'a::len word"
  assumes "LENGTH('a) \<le> 8 * n"
  shows "load_le (store_le n w) = w"
proof (rule bit_word_eqI)
  fix k
  assume k: "k < LENGTH('a)"
  then have "k div 8 < n"
    using assms by linarith
  then show "bit (load_le (store_le n w) :: 'a word) k \<longleftrightarrow> bit w k"
    using k by (simp add: bit_load_le nth_store_le bit_simps)
qed

lemma store_load_le:
  fixes bs :: "byte list"
  assumes "length bs = n" and "8 * n \<le> LENGTH('a::len)"
  shows "store_le n (load_le bs :: 'a word) = bs"
proof (rule nth_equalityI)
  show "length (store_le n (load_le bs :: 'a word)) = length bs"
    using assms by simp
next
  fix i
  assume "i < length (store_le n (load_le bs :: 'a word))"
  then have i: "i < n"
    by simp
  show "store_le n (load_le bs :: 'a word) ! i = bs ! i"
  proof (rule bit_word_eqI)
    fix k
    assume "k < LENGTH(8)"
    then have "k < 8" by simp
    then have "(8 * i + k) div 8 = i" "(8 * i + k) mod 8 = k" "8 * i + k < LENGTH('a)"
      using i assms(2) by auto
    then show "bit (store_le n (load_le bs :: 'a word) ! i) k \<longleftrightarrow> bit (bs ! i) k"
      using i assms(1) \<open>k < 8\<close> by (simp add: nth_store_le bit_simps bit_load_le)
  qed
qed

section \<open>Offsets as signed integers\<close>

text \<open>\<^verbatim>\<open>static_cast<std::streamoff>\<close> of a 64-bit offset.\<close>

lemma sint_offset:
  assumes "m < 2 ^ 63"
  shows "sint (word_of_nat m :: u64) = int m" 
proof -
  have "take_bit 64 (int m) = int m" using assms by (intro take_bit_int_eq_self) auto
  moreover have "signed_take_bit 63 (int m) = int m"
    using assms by (intro signed_take_bit_int_eq_self) auto
  ultimately show ?thesis by (simp add: sint_uint unsigned_of_nat take_bit_of_nat)
qed

lemma sint_small: "unat (w :: u64) < 2 ^ 63 \<Longrightarrow> sint w = int (unat w)"
  using sint_offset [of "unat w"] by simp

lemma sint_large:
  assumes "\<not> unat (w :: u64) < 2 ^ 63"
  shows "sint w < 0"
proof -
  have "int (2 ^ 63) \<le> int (unat w)" using assms by (simp only: of_nat_le_iff not_less)
  moreover have "uint w = int (unat w)" by simp
  ultimately have "2 ^ 63 \<le> uint w" by (metis of_nat_numeral of_nat_power)
  moreover have "uint w < 2 ^ 64" using uint_lt2p [of w] by simp
  ultimately have "uint w div 2 ^ 63 = 1" by (intro int_div_pos_eq [where r = "uint w - 2 ^ 63"]) simp_all
  then have "bit (uint w) 63" by (simp add: bit_iff_odd)
  then show ?thesis by (simp add: sint_uint signed_take_bit_negative_iff)
qed

section \<open>Invariants of transition systems\<close>

locale transition_system =
  fixes start :: "'s \<Rightarrow> bool" and step :: "'s \<Rightarrow> 's \<Rightarrow> bool" and invariant :: "'s \<Rightarrow> bool"
  assumes start_invariant: "start s \<Longrightarrow> invariant s"
    and step_invariant: "invariant s \<Longrightarrow> step s t \<Longrightarrow> invariant t"
begin

lemma steps_invariant: "step\<^sup>*\<^sup>* s t \<Longrightarrow> invariant s \<Longrightarrow> invariant t"
  by (induction rule: rtranclp_induct) (auto intro: step_invariant)

lemma reachable_invariant: "start s \<Longrightarrow> step\<^sup>*\<^sup>* s t \<Longrightarrow> invariant t"
  using steps_invariant start_invariant by blast

end

end
