(* ===== verification/Wire_Protocol.thy ===== *)
theory Wire_Protocol
  imports Prelude
begin

text \<open>
  The framing layer, \<^verbatim>\<open>src/server/include/wire_protocol.h\<close>: byte-order helpers, the frame and
  header structures, encoding and decoding, and the blocking socket loops that read and write
  whole frames.  A socket is the script of what the kernel will answer: the chunks (and signals
  and errors) that successive \<^verbatim>\<open>recv\<close> calls see, the amounts that successive \<^verbatim>\<open>send\<close> calls accept,
  and the bytes handed to the peer so far.
\<close>

section \<open>Constants and byte order\<close>

definition RAW_DATA_SENTINEL :: u32 where
  "RAW_DATA_SENTINEL = 0xFFFFFFFF"

definition MSG_RAW_DATA :: byte where
  "MSG_RAW_DATA = 0xFE"

definition FRAME_HEADER_SIZE :: nat where
  "FRAME_HEADER_SIZE = 5"

definition RAW_HEADER_SIZE :: nat where
  "RAW_HEADER_SIZE = 13"

text \<open>
  \<^verbatim>\<open>htobe32\<close>, \<^verbatim>\<open>be32toh\<close>, \<^verbatim>\<open>htobe64\<close> and \<^verbatim>\<open>be64toh\<close> reverse the bytes of the value on a
  little-endian host.
\<close>

definition host_to_net32 :: "u32 \<Rightarrow> u32" where
  "host_to_net32 val = load_le (rev (store_le 4 val))"

definition net_to_host32 :: "u32 \<Rightarrow> u32" where
  "net_to_host32 val = load_le (rev (store_le 4 val))"

definition host_to_net64 :: "u64 \<Rightarrow> u64" where
  "host_to_net64 val = load_le (rev (store_le 8 val))"

definition net_to_host64 :: "u64 \<Rightarrow> u64" where
  "net_to_host64 val = load_le (rev (store_le 8 val))"

text \<open>
  The contract of one big-endian integer field: fixed width, and the reader gets back what the
  writer put.  Everything the frame codec needs of an integer field follows from it.
\<close>

locale wire_field =
  fixes put :: "'a \<Rightarrow> byte list"
    and get :: "byte list \<Rightarrow> 'a"
    and width :: nat
  assumes length_put: "length (put x) = width"
    and get_put: "get (put x) = x"
    and put_get: "length bs = width \<Longrightarrow> put (get bs) = bs"
begin

lemma put_inject: "put x = put y \<longleftrightarrow> x = y"
  using get_put by metis

lemma take_put: "take width (put x @ rest) = put x"
  by (simp add: length_put)

lemma drop_put: "drop width (put x @ rest) = rest"
  by (simp add: length_put)

lemma get_take: "get (take width (put x @ rest)) = x"
  by (metis take_put get_put)

lemma put_eq_iff: "length bs = width \<Longrightarrow> put x = bs \<longleftrightarrow> x = get bs"
  using get_put put_get by metis

end

definition put_be32 :: "u32 \<Rightarrow> byte list" where
  "put_be32 x = store_le 4 (host_to_net32 x)"

definition get_be32 :: "byte list \<Rightarrow> u32" where
  "get_be32 bs = net_to_host32 (load_le bs)"

definition put_be64 :: "u64 \<Rightarrow> byte list" where
  "put_be64 x = store_le 8 (host_to_net64 x)"

definition get_be64 :: "byte list \<Rightarrow> u64" where
  "get_be64 bs = net_to_host64 (load_le bs)"

lemma store_host_to_net32: "store_le 4 (host_to_net32 x) = rev (store_le 4 x)"
  by (simp add: host_to_net32_def store_load_le)

lemma store_host_to_net64: "store_le 8 (host_to_net64 x) = rev (store_le 8 x)"
  by (simp add: host_to_net64_def store_load_le)

interpretation be32: wire_field put_be32 get_be32 4
proof
  show "length (put_be32 x) = 4" for x
    by (simp add: put_be32_def)
  show "get_be32 (put_be32 x) = x" for x
    by (simp add: put_be32_def get_be32_def net_to_host32_def load_store_le
        store_load_le host_to_net32_def)
  show "put_be32 (get_be32 bs) = bs" if "length bs = 4" for bs
    using that by (simp add: put_be32_def get_be32_def net_to_host32_def store_host_to_net32
        store_load_le)
qed

interpretation be64: wire_field put_be64 get_be64 8
proof
  show "length (put_be64 x) = 8" for x
    by (simp add: put_be64_def)
  show "get_be64 (put_be64 x) = x" for x
    by (simp add: put_be64_def get_be64_def net_to_host64_def load_store_le
        store_load_le host_to_net64_def)
  show "put_be64 (get_be64 bs) = bs" if "length bs = 8" for bs
    using that by (simp add: put_be64_def get_be64_def net_to_host64_def store_host_to_net64
        store_load_le)
qed

section \<open>Frames\<close>

record WireFrame =
  message_type :: byte
  payload :: "byte list"

definition encode_frame :: "WireFrame \<Rightarrow> byte list" where
  "encode_frame frame =
     (let net_len = host_to_net32 (word_of_nat (length (payload frame)))
      in store_le 4 net_len @ [message_type frame] @ payload frame)"

definition encode_raw_data_header :: "u64 \<Rightarrow> byte list" where
  "encode_raw_data_header raw_length =
     (let sentinel = host_to_net32 RAW_DATA_SENTINEL;
          net_len = host_to_net64 raw_length
      in store_le 4 sentinel @ [MSG_RAW_DATA] @ store_le 8 net_len)"

record FrameHeader =
  payload_length :: u32
  hdr_message_type :: byte
  is_raw_data :: bool
  raw_data_length :: u64

definition decode_frame_header :: "byte list \<Rightarrow> FrameHeader result" where
  "decode_frame_header data =
     (if length data < FRAME_HEADER_SIZE
      then Inl (Runtime_error (''Frame header too short: '' @ to_string (length data)))
      else let first4 = net_to_host32 (load_le (take 4 data)) in
        if first4 = RAW_DATA_SENTINEL
        then if length data < RAW_HEADER_SIZE
             then Inl (Runtime_error ''Raw-data header too short'')
             else Inr \<lparr>payload_length = 0, hdr_message_type = data ! 4, is_raw_data = True,
                       raw_data_length = net_to_host64 (load_le (take 8 (drop 5 data)))\<rparr>
        else Inr \<lparr>payload_length = first4, hdr_message_type = data ! 4, is_raw_data = False,
                  raw_data_length = 0\<rparr>)"

lemma encode_frame_be:
  "encode_frame f = put_be32 (word_of_nat (length (payload f))) @ message_type f # payload f"
  by (simp add: encode_frame_def put_be32_def)

lemma encode_raw_data_header_be:
  "encode_raw_data_header n = put_be32 RAW_DATA_SENTINEL @ MSG_RAW_DATA # put_be64 n"
  by (simp add: encode_raw_data_header_def put_be32_def put_be64_def)

lemma length_encode_frame [simp]:
  "length (encode_frame f) = FRAME_HEADER_SIZE + length (payload f)"
  by (simp add: encode_frame_def FRAME_HEADER_SIZE_def)

lemma length_encode_raw_data_header [simp]:
  "length (encode_raw_data_header n) = RAW_HEADER_SIZE"
  by (simp add: encode_raw_data_header_def RAW_HEADER_SIZE_def)

text \<open>The sentinel is the length field of exactly those payloads whose size is \<open>2\<^sup>3\<^sup>2 - 1\<close> modulo \<open>2\<^sup>3\<^sup>2\<close>.\<close>

lemma of_nat_eq_sentinel:
  "n < 2 ^ 32 - 1 \<Longrightarrow> (word_of_nat n :: u32) \<noteq> RAW_DATA_SENTINEL"
proof
  assume n: "n < 2 ^ 32 - 1" and "(word_of_nat n :: u32) = RAW_DATA_SENTINEL"
  then have "unat (word_of_nat n :: u32) = unat RAW_DATA_SENTINEL"
    by simp
  then show False
    using n by (simp add: RAW_DATA_SENTINEL_def unat_of_nat)
qed

section \<open>The socket\<close>

datatype errno = EINTR | EAGAIN | EOTHER

text \<open>
  What the kernel has for successive \<^verbatim>\<open>recv\<close> calls: a chunk of received bytes (the empty chunk, like
  the end of the script, is the orderly shutdown of the peer), a failure with its \<^verbatim>\<open>errno\<close>, or nothing
  for ever: the peer stays connected and is silent, and the call does not return.  A \<^verbatim>\<open>send\<close> call accepts at most the scripted number of bytes, or fails; with no further entry it
  accepts everything.  The failures of \<^verbatim>\<open>send\<close> are those that only set \<^verbatim>\<open>errno\<close>; a write to a connection that
  the peer has reset raises \<^verbatim>\<open>SIGPIPE\<close>, which the sources do not ignore, and the process is gone: what was
  sent and stored until then is what the model has at that point.
\<close>

datatype recv_event = Recv_data "byte list" | Recv_fail errno | Recv_silent

datatype send_event = Send_accept nat | Send_fail errno

record socket =
  rx :: "recv_event list"
  tx_plan :: "send_event list"
  tx :: "byte list"

text \<open>Linux transfers at most \<open>0x7ffff000\<close> bytes in one call, whatever the requested length.\<close>

definition MAX_RW_COUNT :: nat where
  "MAX_RW_COUNT = 0x7ffff000"

text \<open>
  The length argument \<^verbatim>\<open>static_cast<int>(count - total)\<close>: truncated to 32 bits, read as signed, and
  converted (sign-extended) to the \<^verbatim>\<open>size_t\<close> parameter of \<^verbatim>\<open>recv\<close> and \<^verbatim>\<open>send\<close>.
\<close>

definition int_arg :: "nat \<Rightarrow> nat" where
  "int_arg n = unat (scast (word_of_nat n :: 32 word) :: 64 word)"

definition sys_recv :: "nat \<Rightarrow> socket \<Rightarrow> (errno + byte list) result \<times> socket" where
  "sys_recv len s =
     (if len = 0 then (Inr (Inr []), s)
      else case rx s of
        [] \<Rightarrow> (Inr (Inr []), s)
      | Recv_silent # es \<Rightarrow> (Inl Waits_for_peer, s)
      | Recv_fail e # es \<Rightarrow> (Inr (Inl e), s\<lparr>rx := es\<rparr>)
      | Recv_data bs # es \<Rightarrow>
          let n = min (min len MAX_RW_COUNT) (length bs)
          in (Inr (Inr (take n bs)),
              s\<lparr>rx := (if n < length bs then Recv_data (drop n bs) # es else es)\<rparr>))"

definition sys_send :: "byte list \<Rightarrow> nat \<Rightarrow> socket \<Rightarrow> (errno + nat) \<times> socket" where
  "sys_send buf len s =
     (let want = min (min len MAX_RW_COUNT) (length buf) in
      case tx_plan s of
        [] \<Rightarrow> (Inr want, s\<lparr>tx := tx s @ take want buf\<rparr>)
      | Send_fail e # ps \<Rightarrow> (Inl e, s\<lparr>tx_plan := ps\<rparr>)
      | Send_accept k # ps \<Rightarrow>
          (Inr (min k want), s\<lparr>tx_plan := ps, tx := tx s @ take (min k want) buf\<rparr>))"

fun rx_size :: "recv_event list \<Rightarrow> nat" where
  "rx_size [] = 0"
| "rx_size (Recv_data bs # es) = Suc (length bs + rx_size es)"
| "rx_size (Recv_fail e # es) = Suc (rx_size es)"
| "rx_size (Recv_silent # es) = 0"

lemma sys_recv_progress:
  assumes "sys_recv len s = (Inr r, s')" and "r \<noteq> Inr []"
  shows "rx_size (rx s') < rx_size (rx s)"
  using assms
  by (auto simp: sys_recv_def Let_def split: list.splits recv_event.splits if_splits)

section \<open>Reading and writing an exact number of bytes\<close>

text \<open>The state of the loop of \<^verbatim>\<open>read_exact\<close> is the filled prefix of the buffer, of length \<^verbatim>\<open>total\<close>.\<close>

function read_exact_loop :: "nat \<Rightarrow> byte list \<Rightarrow> socket \<Rightarrow> int result \<times> byte list \<times> socket" where
  "read_exact_loop count buf s =
     (if length buf < count
      then case sys_recv (int_arg (count - length buf)) s of
             (Inl e, s') \<Rightarrow> (Inl e, buf, s')
           | (Inr (Inr []), s') \<Rightarrow> (Inr (int (length buf)), buf, s')
           | (Inr (Inr bs), s') \<Rightarrow> read_exact_loop count (buf @ bs) s'
           | (Inr (Inl EINTR), s') \<Rightarrow> read_exact_loop count buf s'
           | (Inr (Inl _), s') \<Rightarrow> (Inr (-1), buf, s')
      else (Inr (int (length buf)), buf, s))"
  by pat_completeness auto
termination
  by (relation "measure (\<lambda>(count, buf, s). rx_size (rx s))")
    (auto dest: sys_recv_progress [OF sym])

declare read_exact_loop.simps [simp del]

definition read_exact :: "nat \<Rightarrow> socket \<Rightarrow> int result \<times> byte list \<times> socket" where
  "read_exact count s = read_exact_loop count [] s"

function write_exact_loop :: "byte list \<Rightarrow> nat \<Rightarrow> socket \<Rightarrow> int \<times> socket" where
  "write_exact_loop buf sent s =
     (if sent < length buf
      then case sys_send (drop sent buf) (int_arg (length buf - sent)) s of
             (Inr n, s') \<Rightarrow> if n = 0 then (int sent, s') else write_exact_loop buf (sent + n) s'
           | (Inl EINTR, s') \<Rightarrow> write_exact_loop buf sent s'
           | (Inl _, s') \<Rightarrow> (-1, s')
      else (int sent, s))"
  by pat_completeness auto
termination
  by (relation "measures [\<lambda>(buf, sent, s). length (tx_plan s), \<lambda>(buf, sent, s). length buf - sent]")
    (auto simp: sys_send_def Let_def split: list.splits send_event.splits)

declare write_exact_loop.simps [simp del]

definition write_exact :: "byte list \<Rightarrow> socket \<Rightarrow> int \<times> socket" where
  "write_exact buf s = write_exact_loop buf 0 s"

section \<open>Whole frames\<close>

text \<open>\<open>None\<close> is the return value \<^verbatim>\<open>false\<close>; \<open>grant\<close> bounds what the allocator gives to \<^verbatim>\<open>payload.resize\<close>.\<close>

definition read_payload ::
  "nat \<Rightarrow> byte \<Rightarrow> nat \<Rightarrow> socket \<Rightarrow> WireFrame option result \<times> socket" where
  "read_payload grant ty n s =
     (case vector_alloc grant n of
        Inl e \<Rightarrow> (Inl e, s)
      | Inr _ \<Rightarrow>
          if 0 < n
          then case read_exact n s of
                 (Inl e, bs, s') \<Rightarrow> (Inl e, s')
               | (Inr r, bs, s') \<Rightarrow>
                   if r \<noteq> int n then (Inr None, s')
                   else (Inr (Some \<lparr>message_type = ty, payload = bs\<rparr>), s')
          else (Inr (Some \<lparr>message_type = ty, payload = []\<rparr>), s))"

definition read_frame :: "nat \<Rightarrow> socket \<Rightarrow> WireFrame option result \<times> socket" where
  "read_frame grant s =
     (case read_exact FRAME_HEADER_SIZE s of
        (Inl e, hdr_buf, s1) \<Rightarrow> (Inl e, s1)
      | (Inr r, hdr_buf, s1) \<Rightarrow>
        if r \<noteq> int FRAME_HEADER_SIZE then (Inr None, s1)
        else let first4 = net_to_host32 (load_le (take 4 hdr_buf)) in
          if first4 = RAW_DATA_SENTINEL
          then case read_exact 8 s1 of
                 (Inl e, rest, s2) \<Rightarrow> (Inl e, s2)
               | (Inr r2, rest, s2) \<Rightarrow>
                 if r2 \<noteq> 8 then (Inr None, s2)
                 else case decode_frame_header (hdr_buf @ rest) of
                        Inl e \<Rightarrow> (Inl e, s2)
                      | Inr hdr \<Rightarrow>
                          read_payload grant MSG_RAW_DATA (unat (raw_data_length hdr)) s2
          else read_payload grant (hdr_buf ! 4) (unat first4) s1)"

definition write_frame :: "WireFrame \<Rightarrow> socket \<Rightarrow> bool \<times> socket" where
  "write_frame frame s =
     (let encoded = encode_frame frame in
      case write_exact encoded s of (r, s') \<Rightarrow> (r = int (length encoded), s'))"

section \<open>Facts about the socket loops\<close>

lemma sint_of_nat32: "sint (word_of_nat n :: u32) = (int n + 2 ^ 31) mod 2 ^ 32 - 2 ^ 31"
  by (simp add: signed_of_nat signed_take_bit_eq_take_bit_shift take_bit_eq_mod)
lemma unat_scast64: "unat (scast (x::u32) :: u64) = nat (sint x mod 2 ^ 64)"
proof -
  have "(scast x :: u64) = word_of_int (sint x)" by (simp only: of_int_sint)
  then have "uint (scast x :: u64) = sint x mod 2 ^ 64"
    by (simp only: uint_word_of_int) simp
  then show ?thesis by (metis unat_eq_nat_uint)
qed
lemma int_arg_eq:
  "int_arg n = (if n mod 2 ^ 32 < 2 ^ 31 then n mod 2 ^ 32 else 2 ^ 64 - 2 ^ 32 + n mod 2 ^ 32)"
proof -
  define m where "m = n mod 2 ^ 32"
  have m: "m < 2 ^ 32" by (simp add: m_def)
  have "(int n + 2 ^ 31) mod 2 ^ 32 = (int m + 2 ^ 31) mod 2 ^ 32"
    by (simp add: m_def zmod_int mod_add_left_eq)
  also have "\<dots> = (if m < 2 ^ 31 then int m + 2 ^ 31 else int m - 2 ^ 31)"
  proof (cases "m < 2 ^ 31")
    case True then show ?thesis by simp
  next
    case False
    have "(int m + 2 ^ 31) mod 2 ^ 32 = (int m - 2 ^ 31 + 2 ^ 32) mod 2 ^ 32" by (simp add: algebra_simps)
    also have "\<dots> = int m - 2 ^ 31"
      using False m by (simp only: mod_add_self2) simp
    finally show ?thesis using False by simp
  qed
  finally have "sint (word_of_nat n :: u32) = (if m < 2 ^ 31 then int m else int m - 2 ^ 32)"
    by (simp add: sint_of_nat32)
  then have "int_arg n = nat ((if m < 2 ^ 31 then int m else int m - 2 ^ 32) mod 2 ^ 64)"
    by (simp add: int_arg_def unat_scast64)
  also have "\<dots> = (if m < 2 ^ 31 then m else 2 ^ 64 - 2 ^ 32 + m)"
  proof (cases "m < 2 ^ 31")
    case True then show ?thesis by simp
  next
    case False
    have "(int m - 2 ^ 32) mod 2 ^ 64 = (int m - 2 ^ 32 + 2 ^ 64) mod 2 ^ 64"
      by (simp only: mod_add_self2)
    also have "\<dots> = int m - 2 ^ 32 + 2 ^ 64" using m by (intro mod_pos_pos_trivial) simp_all
    finally show ?thesis using False by simp
  qed
  finally show ?thesis by (simp add: m_def)
qed

text \<open>
  The bytes a reader can still get from the script before the stream ends, breaks or falls silent.
\<close>

fun rx_bytes :: "recv_event list \<Rightarrow> byte list" where
  "rx_bytes [] = []"
| "rx_bytes (Recv_data bs # es) = (if bs = [] then [] else bs @ rx_bytes es)"
| "rx_bytes (Recv_fail e # es) = (if e = EINTR then rx_bytes es else [])"
| "rx_bytes (Recv_silent # es) = []"

text \<open>What one call can transfer never exceeds the low 32 bits of what is missing.\<close>

lemma request_le: "min (int_arg n) MAX_RW_COUNT \<le> n mod 2 ^ 32"
proof (cases "n mod 2 ^ 32 < 2 ^ 31")
  case True then show ?thesis by (simp add: int_arg_eq)
next
  case False
  then show ?thesis by (simp add: MAX_RW_COUNT_def)
qed

lemma request_pos: "0 < int_arg n \<longleftrightarrow> n mod 2 ^ 32 \<noteq> 0"
  by (simp add: int_arg_eq)

lemma sys_recv_Inr:
  assumes "sys_recv (int_arg n) s = (Inr (Inr bs), s')" "bs \<noteq> []"
  shows "length bs \<le> n mod 2 ^ 32" "rx_bytes (rx s) = bs @ rx_bytes (rx s')" "tx s' = tx s" "tx_plan s' = tx_plan s"
proof -
  show "length bs \<le> n mod 2 ^ 32"
    using assms request_le [of n]
    by (auto simp: sys_recv_def Let_def split: list.splits recv_event.splits if_splits)
  show "rx_bytes (rx s) = bs @ rx_bytes (rx s')"
    using assms
    by (auto simp: sys_recv_def Let_def min.absorb2 not_less split: list.splits recv_event.splits if_splits)
  show "tx s' = tx s" "tx_plan s' = tx_plan s"
    using assms
    by (auto simp: sys_recv_def Let_def split: list.splits recv_event.splits if_splits)
qed
lemma sys_recv_Inl:
  assumes "sys_recv k s = (Inr (Inl e), s')"
  shows "rx_bytes (rx s) = (if e = EINTR then rx_bytes (rx s') else [])" "tx s' = tx s" "tx_plan s' = tx_plan s"
    using assms
    by (auto simp: sys_recv_def Let_def split: list.splits recv_event.splits if_splits)
lemma sys_recv_closed:
  assumes "sys_recv (int_arg n) s = (Inr (Inr []), s')" "n mod 2 ^ 32 \<noteq> 0"
  shows "rx_bytes (rx s) = []"
    using assms request_pos [of n]
    by (auto simp: sys_recv_def Let_def MAX_RW_COUNT_def min_def split: list.splits recv_event.splits if_splits)

lemma sys_recv_silent:
  assumes "sys_recv k s = (Inl e, s')"
  shows "e = Waits_for_peer" "s' = s" "rx_bytes (rx s) = []" "Recv_silent \<in> set (rx s)"
  using assms by (auto simp: sys_recv_def Let_def split: list.splits recv_event.splits if_splits)

lemma read_exact_loop_step:
  assumes "length buf < count" and "sys_recv (int_arg (count - length buf)) s = (r, s1)"
  shows "read_exact_loop count buf s =
    (case r of
       Inl e \<Rightarrow> (Inl e, buf, s1)
     | Inr (Inl e) \<Rightarrow> if e = EINTR then read_exact_loop count buf s1 else (Inr (- 1), buf, s1)
     | Inr (Inr bs) \<Rightarrow> if bs = [] then (Inr (int (length buf)), buf, s1)
               else read_exact_loop count (buf @ bs) s1)"
  using assms by (auto simp: read_exact_loop.simps [of count buf s] split: sum.splits errno.splits list.splits)

lemma read_exact_loop_induct [case_names full closed fail silent eintr data]:
  assumes full: "\<And>count buf s. count \<le> length buf \<Longrightarrow> P count buf s (Inr (int (length buf)), buf, s)"
    and closed: "\<And>count buf s s1. \<lbrakk>length buf < count;
      (count - length buf) mod 2 ^ 32 \<noteq> 0 \<longrightarrow> rx_bytes (rx s) = []\<rbrakk>
      \<Longrightarrow> P count buf s (Inr (int (length buf)), buf, s1)"
    and fail: "\<And>count buf s s1. \<lbrakk>length buf < count; rx_bytes (rx s) = []\<rbrakk>
      \<Longrightarrow> P count buf s (Inr (- 1), buf, s1)"
    and silent: "\<And>count buf s. \<lbrakk>length buf < count; rx_bytes (rx s) = []\<rbrakk>
      \<Longrightarrow> P count buf s (Inl Waits_for_peer, buf, s)"
    and eintr: "\<And>count buf s s1 res. \<lbrakk>length buf < count; rx_bytes (rx s) = rx_bytes (rx s1);
      tx s1 = tx s; tx_plan s1 = tx_plan s; P count buf s1 res\<rbrakk> \<Longrightarrow> P count buf s res"
    and data: "\<And>count buf s s1 bs res. \<lbrakk>length buf < count; bs \<noteq> [];
      length bs \<le> (count - length buf) mod 2 ^ 32; rx_bytes (rx s) = bs @ rx_bytes (rx s1);
      tx s1 = tx s; tx_plan s1 = tx_plan s; P count (buf @ bs) s1 res\<rbrakk> \<Longrightarrow> P count buf s res"
  shows "P count buf s (read_exact_loop count buf s)"
proof (induction count buf s rule: read_exact_loop.induct)
  case (1 count buf s)
  show ?case
  proof (cases "length buf < count")
    case False
    then show ?thesis by (simp add: read_exact_loop.simps [of count buf s] full)
  next
    case True
    obtain r s1 where r: "sys_recv (int_arg (count - length buf)) s = (r, s1)" by fastforce
    note step = read_exact_loop_step [OF True r]
    consider (waits) e where "r = Inl e" | (err) e where "r = Inr (Inl e)" | (none) "r = Inr (Inr [])"
      | (got) bs where "r = Inr (Inr bs)" "bs \<noteq> []"
      by (metis old.sum.exhaust)
    then show ?thesis
    proof cases
      case waits
      with r have "sys_recv (int_arg (count - length buf)) s = (Inl e, s1)" by simp
      from sys_recv_silent [OF this] waits step True show ?thesis by (auto intro: silent)
    next
      case err
      with sys_recv_Inl [of _ s e s1] r True step "1.IH"(1) [OF True r [symmetric] err refl] show ?thesis
        by (cases "e = EINTR") (auto intro: eintr fail)
    next
      case none
      with sys_recv_closed [of "count - length buf" s s1] r step True show ?thesis
        by (auto intro!: closed)
    next
      case got
      with "1.IH"(2) [OF True r [symmetric] got(1) refl] have "P count (buf @ bs) s1 (read_exact_loop count (buf @ bs) s1)"
        by (cases bs) auto
      with sys_recv_Inr [of "count - length buf" s bs s1] r got True step show ?thesis
        by (auto intro: data)
    qed
  qed
qed

lemma read_exact_loop_sound:
  assumes "read_exact_loop count buf s = (Inr (int count), buf', s')" and "length buf \<le> count"
  shows "\<exists>bs. buf' = buf @ bs \<and> rx_bytes (rx s) = bs @ rx_bytes (rx s') \<and> length buf' = count
    \<and> tx s' = tx s \<and> tx_plan s' = tx_plan s"
proof -
  have "read_exact_loop count buf s = (Inr (int count), buf', s') \<longrightarrow> length buf \<le> count \<longrightarrow>
    (\<exists>bs. buf' = buf @ bs \<and> rx_bytes (rx s) = bs @ rx_bytes (rx s') \<and> length buf' = count
      \<and> tx s' = tx s \<and> tx_plan s' = tx_plan s)"
  proof (induction count buf s rule: read_exact_loop_induct)
    case (data count buf s s1 bs res)
    then have "length bs \<le> count - length buf"
      using mod_less_eq_dividend order_trans by blast
    with data show ?case by auto
  qed auto
  with assms show ?thesis by blast
qed

lemma read_exact_loop_complete:
  assumes "count < 2 ^ 32" and "length buf \<le> count"
    and "count - length buf \<le> length (rx_bytes (rx s))"
  shows "fst (read_exact_loop count buf s) = Inr (int count)"
  using assms
proof (induction count buf s rule: read_exact_loop_induct)
  case (data count buf s s1 bs res)
  then have "length bs \<le> count - length buf"
    using mod_less_eq_dividend order_trans by blast
  with data show ?case by auto
qed auto

lemma read_exact_loop_huge:
  assumes "length buf + 2 ^ 32 \<le> count"
  shows "fst (read_exact_loop count buf s) \<noteq> Inr (int count)"
  using assms
proof (induction count buf s rule: read_exact_loop_induct)
  case (data count buf s s1 bs res)
  define d where "d = count - length buf"
  have "d mod 2 ^ 32 + 2 ^ 32 \<le> d"
    using data.prems le_mod_geq [of "2 ^ 32" d] mod_less_eq_dividend [of "d - 2 ^ 32" "2 ^ 32"]
    by (simp add: d_def)
  with data show ?case by (simp add: d_def)
qed auto

lemma read_exact_prefix:
  assumes "rx_bytes (rx s) = bs @ rest" and "length bs = n" and "n < 2 ^ 32"
  obtains s' where "read_exact n s = (Inr (int n), bs, s')"
    and "rx_bytes (rx s') = rest" and "tx s' = tx s" and "tx_plan s' = tx_plan s"
proof -
  obtain buf s' where eq: "read_exact_loop n [] s = (Inr (int n), buf, s')"
    using read_exact_loop_complete [of n "[]" s] assms by (metis append_Nil2 diff_zero le_add1 length_append list.size(3) prod.collapse zero_le)
  with read_exact_loop_sound [OF eq] assms that show ?thesis
    by (auto simp: read_exact_def)
qed

lemma read_exact_huge:
  assumes "2 ^ 32 \<le> n" and "read_exact n s = (r, bs, s')"
  shows "r \<noteq> Inr (int n)"
  using read_exact_loop_huge [of "[]" n s] assms by (simp add: read_exact_def)

lemma read_payload_ok:
  assumes "rx_bytes (rx s) = data @ rest" and "length data = n"
    and "n < 2 ^ 32" and "n \<le> grant"
  obtains s' where "read_payload grant ty n s = (Inr (Some \<lparr>message_type = ty, payload = data\<rparr>), s')"
    and "rx_bytes (rx s') = rest" and "tx s' = tx s" and "tx_plan s' = tx_plan s"
proof (cases "n = 0")
  case True
  with assms that [of s] show ?thesis
    by (simp add: read_payload_def vector_alloc_def)
next
  case False
  have "vector_alloc grant n = Inr ()"
    using assms by (simp add: vector_alloc_def vector_max_size_def)
  moreover obtain s' where "read_exact n s = (Inr (int n), data, s')"
    and "rx_bytes (rx s') = rest" and "tx s' = tx s" and "tx_plan s' = tx_plan s"
    using read_exact_prefix [OF assms(1-3)] .
  ultimately show ?thesis
    using False that by (simp add: read_payload_def)
qed

lemma encode_frame_header:
  "take FRAME_HEADER_SIZE (encode_frame f) = put_be32 (word_of_nat (length (payload f))) @ [message_type f]"
  by (simp add: encode_frame_be FRAME_HEADER_SIZE_def be32.length_put)

lemma read_frame_standard:
  assumes stream: "rx_bytes (rx s) = encode_frame f @ rest"
    and len: "length (payload f) < 2 ^ 32 - 1" and mem: "length (payload f) \<le> grant"
  shows "\<exists>s'. read_frame grant s = (Inr (Some f), s') \<and> rx_bytes (rx s') = rest
    \<and> tx s' = tx s \<and> tx_plan s' = tx_plan s"
proof -
  let ?n = "word_of_nat (length (payload f)) :: u32"
  let ?hdr = "put_be32 ?n @ [message_type f]"
  have n: "unat ?n = length (payload f)"
    using len by (simp add: unat_of_nat)
  have "rx_bytes (rx s) = ?hdr @ (payload f @ rest)"
    using stream by (simp add: encode_frame_be)
  moreover have "length ?hdr = FRAME_HEADER_SIZE" and "FRAME_HEADER_SIZE < 2 ^ 32"
    by (simp_all add: FRAME_HEADER_SIZE_def be32.length_put)
  ultimately obtain s1 where hdr: "read_exact FRAME_HEADER_SIZE s = (Inr (int FRAME_HEADER_SIZE), ?hdr, s1)"
    and s1: "rx_bytes (rx s1) = payload f @ rest" "tx s1 = tx s" "tx_plan s1 = tx_plan s"
    by (rule read_exact_prefix)
  obtain s2 where "read_payload grant (message_type f) (unat ?n) s1
      = (Inr (Some \<lparr>message_type = message_type f, payload = payload f\<rparr>), s2)"
    and "rx_bytes (rx s2) = rest" "tx s2 = tx s1" "tx_plan s2 = tx_plan s1"
    using len mem by (rule_tac read_payload_ok [OF s1(1)]) (simp_all add: n)
  moreover have "net_to_host32 (load_le (put_be32 ?n)) = ?n"
    using be32.get_put by (simp add: get_be32_def)
  ultimately show ?thesis
    using hdr s1 of_nat_eq_sentinel [OF len]
    by (simp add: read_frame_def be32.length_put nth_append)
qed


lemma decode_raw_data_header:
  "decode_frame_header (encode_raw_data_header n) =
     Inr \<lparr>payload_length = 0, hdr_message_type = MSG_RAW_DATA, is_raw_data = True, raw_data_length = n\<rparr>"
proof -
  have "net_to_host32 (load_le (put_be32 RAW_DATA_SENTINEL)) = RAW_DATA_SENTINEL"
    and "net_to_host64 (load_le (put_be64 n)) = n"
    using be32.get_put be64.get_put by (simp_all add: get_be32_def get_be64_def)
  then show ?thesis
    by (simp add: decode_frame_header_def encode_raw_data_header_be FRAME_HEADER_SIZE_def
        RAW_HEADER_SIZE_def be32.length_put be64.length_put nth_append)
qed

lemma decode_frame_header_encode_frame:
  assumes "length (payload f) < 2 ^ 32 - 1"
  shows "decode_frame_header (encode_frame f) =
     Inr \<lparr>payload_length = word_of_nat (length (payload f)), hdr_message_type = message_type f,
          is_raw_data = False, raw_data_length = 0\<rparr>"
  using be32.get_put of_nat_eq_sentinel [OF assms]
  by (simp add: decode_frame_header_def encode_frame_be FRAME_HEADER_SIZE_def
        RAW_HEADER_SIZE_def be32.length_put nth_append get_be32_def)

lemma decode_frame_header_fails_iff:
  "isl (decode_frame_header data) \<longleftrightarrow>
     length data < 5 \<or> get_be32 (take 4 data) = RAW_DATA_SENTINEL \<and> length data < 13"
  unfolding decode_frame_header_def get_be32_def FRAME_HEADER_SIZE_def RAW_HEADER_SIZE_def Let_def
  by (simp split: if_split)

text \<open>Once the raw-data header is on the wire, reading the frame is reading its payload.\<close>

lemma read_frame_raw_header:
  assumes stream: "rx_bytes (rx s) = encode_raw_data_header n @ rest"
  obtains s' where "read_frame grant s = read_payload grant MSG_RAW_DATA (unat n) s'"
    and "rx_bytes (rx s') = rest" and "tx s' = tx s" and "tx_plan s' = tx_plan s"
proof -
  let ?hdr = "put_be32 RAW_DATA_SENTINEL @ [MSG_RAW_DATA]"
  have "rx_bytes (rx s) = ?hdr @ (put_be64 n @ rest)"
    using stream by (simp add: encode_raw_data_header_be)
  moreover have "length ?hdr = FRAME_HEADER_SIZE" and "FRAME_HEADER_SIZE < 2 ^ 32"
    by (simp_all add: FRAME_HEADER_SIZE_def be32.length_put)
  ultimately obtain s1 where hdr: "read_exact FRAME_HEADER_SIZE s = (Inr (int FRAME_HEADER_SIZE), ?hdr, s1)"
    and s1: "rx_bytes (rx s1) = put_be64 n @ rest" "tx s1 = tx s" "tx_plan s1 = tx_plan s"
    by (rule read_exact_prefix)
  have "(8 :: nat) < 2 ^ 32" by simp
  with s1(1) be64.length_put obtain s2 where "read_exact 8 s1 = (Inr (int 8), put_be64 n, s2)"
    and "rx_bytes (rx s2) = rest" "tx s2 = tx s1" "tx_plan s2 = tx_plan s1"
    by (rule read_exact_prefix)
  moreover have "net_to_host32 (load_le (put_be32 RAW_DATA_SENTINEL)) = RAW_DATA_SENTINEL"
    using be32.get_put by (simp add: get_be32_def)
  moreover have "decode_frame_header (?hdr @ put_be64 n) = Inr \<lparr>payload_length = 0,
      hdr_message_type = MSG_RAW_DATA, is_raw_data = True, raw_data_length = n\<rparr>"
    using decode_raw_data_header [of n] by (simp add: encode_raw_data_header_be)
  ultimately show ?thesis
    using hdr s1 that [of s2] by (simp add: read_frame_def be32.length_put)
qed

lemma read_frame_raw:
  assumes stream: "rx_bytes (rx s) = encode_raw_data_header n @ data @ rest"
    and len: "length data = unat n" and small: "unat n < 2 ^ 32" and mem: "unat n \<le> grant"
  shows "\<exists>s'. read_frame grant s = (Inr (Some \<lparr>message_type = MSG_RAW_DATA, payload = data\<rparr>), s')
    \<and> rx_bytes (rx s') = rest \<and> tx s' = tx s \<and> tx_plan s' = tx_plan s"
proof -
  obtain s1 where "read_frame grant s = read_payload grant MSG_RAW_DATA (unat n) s1"
    and s1: "rx_bytes (rx s1) = data @ rest" "tx s1 = tx s" "tx_plan s1 = tx_plan s"
    using stream by (rule read_frame_raw_header)
  moreover obtain s2 where "read_payload grant MSG_RAW_DATA (unat n) s1
      = (Inr (Some \<lparr>message_type = MSG_RAW_DATA, payload = data\<rparr>), s2)"
    and "rx_bytes (rx s2) = rest" "tx s2 = tx s1" "tx_plan s2 = tx_plan s1"
    using s1(1) len small mem by (rule read_payload_ok)
  ultimately show ?thesis by auto
qed


text \<open>A transmit script without failures other than interrupted calls.\<close>

fun tx_ok :: "send_event list \<Rightarrow> bool" where
  "tx_ok [] = True"
| "tx_ok (Send_accept k # ps) = (0 < k \<and> tx_ok ps)"
| "tx_ok (Send_fail e # ps) = (e = EINTR \<and> tx_ok ps)"


lemma sys_send_Inr:
  assumes "sys_send b len s = (Inr n, s1)"
  shows "n \<le> length b" and "tx s1 = tx s @ take n b" and "rx s1 = rx s"
    and "tx_ok (tx_plan s) \<Longrightarrow> tx_ok (tx_plan s1) \<and> (0 < len \<and> b \<noteq> [] \<longrightarrow> 0 < n)"
  using assms
  by (auto simp: sys_send_def Let_def MAX_RW_COUNT_def min.coboundedI2 split: list.splits send_event.splits)

lemma sys_send_Inl:
  assumes "sys_send b len s = (Inl e, s1)"
  shows "tx s1 = tx s" and "rx s1 = rx s"
    and "tx_ok (tx_plan s) \<Longrightarrow> tx_ok (tx_plan s1) \<and> e = EINTR"
  using assms by (auto simp: sys_send_def Let_def split: list.splits send_event.splits)

lemma write_exact_loop_induct [case_names full closed fail eintr data]:
  assumes full: "\<And>buf sent s. length buf \<le> sent \<Longrightarrow> P buf sent s (int sent, s)"
    and closed: "\<And>buf sent s s1. \<lbrakk>sent < length buf; tx s1 = tx s; rx s1 = rx s;
      tx_ok (tx_plan s) \<Longrightarrow> (length buf - sent) mod 2 ^ 32 = 0\<rbrakk> \<Longrightarrow> P buf sent s (int sent, s1)"
    and fail: "\<And>buf sent s s1. \<lbrakk>sent < length buf; tx s1 = tx s; rx s1 = rx s;
      \<not> tx_ok (tx_plan s)\<rbrakk> \<Longrightarrow> P buf sent s (- 1, s1)"
    and eintr: "\<And>buf sent s s1 res. \<lbrakk>sent < length buf; tx s1 = tx s; rx s1 = rx s;
      tx_ok (tx_plan s) \<Longrightarrow> tx_ok (tx_plan s1); P buf sent s1 res\<rbrakk> \<Longrightarrow> P buf sent s res"
    and data: "\<And>buf sent s s1 n res. \<lbrakk>sent < length buf; 0 < n; n \<le> length buf - sent;
      tx s1 = tx s @ take n (drop sent buf); rx s1 = rx s;
      tx_ok (tx_plan s) \<Longrightarrow> tx_ok (tx_plan s1); P buf (sent + n) s1 res\<rbrakk> \<Longrightarrow> P buf sent s res"
  shows "P buf sent s (write_exact_loop buf sent s)"
proof (induction buf sent s rule: write_exact_loop.induct)
  case (1 buf sent s)
  note unfold = write_exact_loop.simps [of buf sent s]
  show ?case
  proof (cases "sent < length buf")
    case False
    then show ?thesis by (simp add: unfold full)
  next
    case True
    obtain a s1 where a: "sys_send (drop sent buf) (int_arg (length buf - sent)) s = (a, s1)"
      by fastforce
    show ?thesis
    proof (cases a)
      case (Inl e)
      note send = sys_send_Inl [OF a [unfolded Inl]]
      from "1.IH"(1) [OF True a [symmetric] Inl] send show ?thesis
        by (cases e) (auto simp: unfold True a Inl intro: eintr [OF True] fail [OF True])
    next
      case (Inr n)
      note send = sys_send_Inr [OF a [unfolded Inr]]
      show ?thesis
      proof (cases "n = 0")
        case n: True
        then have "tx_ok (tx_plan s) \<Longrightarrow> (length buf - sent) mod 2 ^ 32 = 0"
          using send(4) True request_pos [of "length buf - sent"] by auto
        with send n show ?thesis
          by (auto simp: unfold True a Inr intro!: closed [OF True])
      next
        case False
        with "1.IH"(2) [OF True a [symmetric] Inr False] send show ?thesis
          by (auto simp: unfold True a Inr intro!: data [OF True _ _ send(2,3)])
      qed
    qed
  qed
qed

lemma write_exact_loop_sent:
  assumes "write_exact_loop buf sent s = (r, s')" and "sent \<le> length buf"
  shows "\<exists>k. tx s' = tx s @ take k (drop sent buf) \<and> rx s' = rx s
    \<and> (r = int (length buf) \<longrightarrow> k = length buf - sent)"
proof -
  have "write_exact_loop buf sent s = (r, s') \<longrightarrow> sent \<le> length buf \<longrightarrow>
    (\<exists>k. tx s' = tx s @ take k (drop sent buf) \<and> rx s' = rx s
      \<and> (r = int (length buf) \<longrightarrow> k = length buf - sent))"
  proof (induction buf sent s rule: write_exact_loop_induct)
    case (data buf sent s s1 n res)
    show ?case
    proof (intro impI)
      assume "res = (r, s')" "sent \<le> length buf"
      with data obtain k where "tx s' = tx s1 @ take k (drop (sent + n) buf)" "rx s' = rx s1"
        "r = int (length buf) \<longrightarrow> k = length buf - (sent + n)"
        by auto
      moreover have "take (n + k) (drop sent buf) = take n (drop sent buf) @ take k (drop (sent + n) buf)"
        by (simp only: take_add drop_drop add.commute [of sent n])
      ultimately show "\<exists>k. tx s' = tx s @ take k (drop sent buf) \<and> rx s' = rx s
          \<and> (r = int (length buf) \<longrightarrow> k = length buf - sent)"
        using data.hyps(1-5) by (intro exI [of _ "n + k"]) simp
    qed
  qed (auto intro: exI [of _ 0])
  with assms show ?thesis by blast
qed

lemma write_exact_loop_complete:
  assumes "tx_ok (tx_plan s)" and "length buf < 2 ^ 32" and "sent \<le> length buf"
  shows "fst (write_exact_loop buf sent s) = int (length buf)
    \<and> tx_ok (tx_plan (snd (write_exact_loop buf sent s)))"
  using assms by (induction buf sent s rule: write_exact_loop_induct) auto

lemma write_exact_ok:
  assumes "tx_ok (tx_plan s)" and "length buf < 2 ^ 32"
  obtains s' where "write_exact buf s = (int (length buf), s')" and "tx s' = tx s @ buf"
    and "rx s' = rx s" and "tx_ok (tx_plan s')"
proof -
  obtain s' where eq: "write_exact_loop buf 0 s = (int (length buf), s')" and "tx_ok (tx_plan s')"
    using write_exact_loop_complete [OF assms, of 0] by (metis fst_conv prod.exhaust snd_conv zero_le)
  with write_exact_loop_sent [OF eq] that show ?thesis
    by (auto simp: write_exact_def)
qed

lemma write_frame_ok:
  assumes "tx_ok (tx_plan s)" and "length (payload f) < 2 ^ 32 - FRAME_HEADER_SIZE"
  shows "\<exists>s'. write_frame f s = (True, s') \<and> tx s' = tx s @ encode_frame f \<and> rx s' = rx s
    \<and> tx_ok (tx_plan s')"
proof -
  have "length (encode_frame f) < 2 ^ 32"
    using assms(2) by simp
  with assms(1) obtain s' where "write_exact (encode_frame f) s = (int (length (encode_frame f)), s')"
    and "tx s' = tx s @ encode_frame f" "rx s' = rx s" "tx_ok (tx_plan s')"
    by (rule write_exact_ok)
  then show ?thesis by (simp add: write_frame_def)
qed

lemma write_frame_prefix:
  assumes "write_frame f s = (ok, s')"
  shows "rx s' = rx s" and "\<exists>k. tx s' = tx s @ take k (encode_frame f)"
    and "ok \<Longrightarrow> tx s' = tx s @ encode_frame f"
proof -
  obtain r where r: "write_exact_loop (encode_frame f) 0 s = (r, s')"
    and ok: "ok \<longleftrightarrow> r = int (length (encode_frame f))"
    using assms by (auto simp: write_frame_def write_exact_def split: prod.splits)
  from write_exact_loop_sent [OF r] ok
  show "rx s' = rx s" "\<exists>k. tx s' = tx s @ take k (encode_frame f)"
    "ok \<Longrightarrow> tx s' = tx s @ encode_frame f"
    by auto
qed

lemma read_exact_loop_within:
  assumes "length buf \<le> count"
  shows "length (fst (snd (read_exact_loop count buf s))) \<le> count"
  using assms
proof (induction count buf s rule: read_exact_loop_induct)
  case (data count buf s s1 bs res)
  then have "length bs \<le> count - length buf"
    using mod_less_eq_dividend order_trans by blast
  with data show ?case by auto
qed auto

lemma rx_write_exact [simp]: "rx (snd (write_exact buf s)) = rx s"
  using write_exact_loop_sent [of buf 0 s "fst (write_exact buf s)" "snd (write_exact buf s)"]
  by (auto simp: write_exact_def)

lemma rx_write_frame [simp]: "rx (snd (write_frame f s)) = rx s"
  by (simp add: write_frame_def Let_def split_beta)

text \<open>A reflexive and transitive relation that every \<^verbatim>\<open>recv\<close> respects relates the two ends of each reader.\<close>

lemma read_exact_loop_relates:
  assumes "read_exact_loop count buf s = (r, buf', s')"
    and refl: "\<And>s. R s s" and trans: "\<And>s t u. R s t \<Longrightarrow> R t u \<Longrightarrow> R s u"
    and recv: "\<And>len s a t. sys_recv len s = (a, t) \<Longrightarrow> R s t"
  shows "R s s'"
  using assms(1)
proof (induction count buf s arbitrary: r buf' s' rule: read_exact_loop.induct)
  case (1 count buf s)
  show ?case
  proof (cases "length buf < count")
    case False
    then show ?thesis using "1.prems" by (auto simp: read_exact_loop.simps [of count buf s] refl)
  next
    case True
    obtain a s1 where a: "sys_recv (int_arg (count - length buf)) s = (a, s1)" by fastforce
    note step = read_exact_loop_step [OF True a] and got = recv [OF a]
    consider (ends) "s' = s1" | (again) "a = Inr (Inl EINTR)" "read_exact_loop count buf s1 = (r, buf', s')"
      | (more) b bs where "a = Inr (Inr (b # bs))" "read_exact_loop count (buf @ b # bs) s1 = (r, buf', s')"
      using "1.prems" step by (auto split: sum.splits if_splits) (metis list.exhaust)
    then show ?thesis
    proof cases
      case again
      from trans [OF got "1.IH"(1) [OF True a [symmetric] again(1) HOL.refl HOL.refl again(2)]] show ?thesis .
    next
      case more
      from trans [OF got "1.IH"(2) [OF True a [symmetric] more(1) HOL.refl HOL.refl more(2)]] show ?thesis .
    qed (use got in simp)
  qed
qed

lemma read_frame_relates:
  assumes "read_frame grant s = (r, s')"
    and refl: "\<And>s. R s s" and trans: "\<And>s t u. R s t \<Longrightarrow> R t u \<Longrightarrow> R s u"
    and recv: "\<And>len s a t. sys_recv len s = (a, t) \<Longrightarrow> R s t"
  shows "R s s'"
proof -
  have exact: "R s t" if "read_exact n s = (a, bs, t)" for n s a bs t
    using that read_exact_loop_relates [of n "[]" s a bs t R, OF _ refl trans recv] by (simp add: read_exact_def)
  have payload: "R s t" if "read_payload g ty n s = (a, t)" for g ty n s a t
    using that exact by (auto simp: read_payload_def refl split: sum.splits if_splits prod.splits)
  obtain r1 hdr s1 where hdr: "read_exact FRAME_HEADER_SIZE s = (r1, hdr, s1)" by (rule prod_cases3)
  obtain r2 rest s2 where rest: "read_exact 8 s1 = (r2, rest, s2)" by (rule prod_cases3)
  have "s' = s1 \<or> s' = s2 \<or> R s1 s' \<or> R s2 s'"
    using assms(1) hdr rest payload by (auto simp: read_frame_def Let_def split: if_splits sum.splits)
  then show ?thesis using exact [OF hdr] trans [OF exact [OF hdr] exact [OF rest]] trans by blast
qed

text \<open>Reading consumes the script, at every call that delivers bytes, and sends nothing.\<close>

lemma sys_recv_le:
  assumes "sys_recv len s = (r, s')"
  shows "rx_size (rx s') \<le> rx_size (rx s)" "tx s' = tx s \<and> tx_plan s' = tx_plan s"
    "Recv_silent \<in> set (rx s') \<Longrightarrow> Recv_silent \<in> set (rx s)"
  using assms
  by (auto simp: sys_recv_def Let_def split: list.splits recv_event.splits if_splits)

lemma read_frame_le:
  assumes "read_frame grant s = (r, s')"
  shows "rx_size (rx s') \<le> rx_size (rx s)"
  by (rule read_frame_relates [OF assms, where R = "\<lambda>s s'. rx_size (rx s') \<le> rx_size (rx s)"]) (auto dest: sys_recv_le)

lemma read_frame_tx:
  assumes "read_frame grant s = (r, s')"
  shows "tx s' = tx s \<and> tx_plan s' = tx_plan s"
  by (rule read_frame_relates [OF assms, where R = "\<lambda>s s'. tx s' = tx s \<and> tx_plan s' = tx_plan s"]) (auto dest: sys_recv_le(2))

lemma read_exact_loop_filled:
  assumes "read_exact_loop count buf s = (r, buf', s')"
  shows "(length buf < length buf' \<longrightarrow> rx_size (rx s') < rx_size (rx s)) \<and> (\<forall>n. r = Inr n \<and> 0 \<le> n \<longrightarrow> n = int (length buf')) \<and>
    (\<forall>e. r = Inl e \<longrightarrow> e = Waits_for_peer \<and> Recv_silent \<in> set (rx s'))"
  using assms
proof (induction count buf s arbitrary: r buf' s' rule: read_exact_loop.induct)
  case (1 count buf s)
  show ?case
  proof (cases "length buf < count")
    case False
    then show ?thesis using "1.prems" by (auto simp: read_exact_loop.simps [of count buf s])
  next
    case True
    obtain a s1 where a: "sys_recv (int_arg (count - length buf)) s = (a, s1)" by fastforce
    note step = read_exact_loop_step [OF True a]
    consider (waits) e where "a = Inl e" | (err) e where "a = Inr (Inl e)" | (got) bs where "a = Inr (Inr bs)"
      by (metis old.sum.exhaust)
    then show ?thesis
    proof cases
      case waits
      then show ?thesis using "1.prems" step sys_recv_silent [OF a [unfolded waits]] by auto
    next
      case err
      then have "rx_size (rx s1) < rx_size (rx s)" using sys_recv_progress [of _ s "Inl e" s1] a by simp
      then show ?thesis
        using "1.IH"(1) [OF True a [symmetric] err refl, of r buf' s'] "1.prems" step err
        by (cases e) auto
    next
      case got
      have le: "rx_size (rx s') \<le> rx_size (rx s1)" if "read_exact_loop count (buf @ bs) s1 = (r, buf', s')"
        by (rule read_exact_loop_relates [OF that, where R = "\<lambda>s s'. rx_size (rx s') \<le> rx_size (rx s)"]) (auto dest: sys_recv_le)
      have lt: "bs \<noteq> [] \<Longrightarrow> rx_size (rx s1) < rx_size (rx s)" using sys_recv_progress [OF a [unfolded got]] by simp
      show ?thesis
      proof (cases bs)
        case (Cons b bs')
        then have "read_exact_loop count (buf @ bs) s1 = (r, buf', s')" using "1.prems" step got by simp
        then show ?thesis
          using "1.IH"(2) [OF True a [symmetric] got refl Cons, of r buf' s'] le lt Cons by simp
      qed (use "1.prems" step got in auto)
    qed
  qed
qed

lemma read_frame_progress:
  assumes "read_frame grant s = (Inr (Some f), s')"
  shows "rx_size (rx s') < rx_size (rx s)"
proof -
  have le: "rx_size (rx t) \<le> rx_size (rx s)" if "read_exact n s = (a, bs, t)" for n s a bs t
    by (rule read_exact_loop_relates [OF that [unfolded read_exact_def], where R = "\<lambda>s s'. rx_size (rx s') \<le> rx_size (rx s)"])
      (auto dest: sys_recv_le)
  have payload: "rx_size (rx s2) \<le> rx_size (rx s1)" if "read_payload grant ty n s1 = (r, s2)" for ty n s1 r s2
    using that le by (auto simp: read_payload_def split: sum.splits if_splits prod.splits)
  obtain r hdr s1 where hdr: "read_exact FRAME_HEADER_SIZE s = (r, hdr, s1)" by (rule prod_cases3)
  then have "r = Inr (int FRAME_HEADER_SIZE)" using assms by (auto simp: read_frame_def split: sum.splits if_splits)
  then have lt: "rx_size (rx s1) < rx_size (rx s)"
    using read_exact_loop_filled [OF hdr [unfolded read_exact_def]] by (auto simp: FRAME_HEADER_SIZE_def)
  obtain r2 rest s2 where rest: "read_exact 8 s1 = (r2, rest, s2)" by (rule prod_cases3)
  have "rx_size (rx s') \<le> rx_size (rx s1)"
    using assms hdr rest le [OF rest] payload
    by (fastforce simp: read_frame_def Let_def split: if_splits sum.splits)
  with lt show ?thesis by simp
qed

text \<open>A call only waits for a peer that falls silent, and it does wait for one that has nothing more to say.\<close>

definition peer_closes :: "socket \<Rightarrow> bool" where
  "peer_closes s \<longleftrightarrow> Recv_silent \<notin> set (rx s)"

lemma read_frame_closes:
  assumes "read_frame grant s = (r, s')" and "peer_closes s"
  shows "peer_closes s'"
  using read_frame_relates [OF assms(1), where R = "\<lambda>s s'. peer_closes s \<longrightarrow> peer_closes s'"] sys_recv_le(3) assms(2)
  by (auto simp: peer_closes_def)

lemma read_frame_waits:
  assumes "read_frame grant s = (Inl Waits_for_peer, s')"
  shows "\<not> peer_closes s"
proof -
  have exact: "Recv_silent \<in> set (rx t)" if "read_exact n s = (Inl e, bs, t)" for n s e bs t
    using read_exact_loop_filled [OF that [unfolded read_exact_def]] by simp
  obtain r1 hdr s1 where hdr: "read_exact FRAME_HEADER_SIZE s = (r1, hdr, s1)" by (rule prod_cases3)
  obtain r2 rest s2 where rest: "read_exact 8 s1 = (r2, rest, s2)" by (rule prod_cases3)
  have "Recv_silent \<in> set (rx s')"
    using assms hdr rest exact
    by (fastforce simp: read_frame_def read_payload_def decode_frame_header_def vector_alloc_def Let_def
        split: if_splits sum.splits prod.splits)
  then show ?thesis using read_frame_closes [OF assms] by (auto simp: peer_closes_def)
qed

lemma read_frame_idle:
  assumes "rx s = Recv_silent # es"
  shows "read_frame grant s = (Inl Waits_for_peer, s)"
proof -
  have "sys_recv (int_arg FRAME_HEADER_SIZE) s = (Inl Waits_for_peer, s)"
    using assms by (simp add: sys_recv_def int_arg_eq FRAME_HEADER_SIZE_def)
  then show ?thesis
    by (simp add: read_frame_def read_exact_def read_exact_loop_step [of "[]"] FRAME_HEADER_SIZE_def)
qed

section \<open>Sequences of frames\<close>

fun write_frames :: "WireFrame list \<Rightarrow> socket \<Rightarrow> socket" where
  "write_frames [] s = s"
| "write_frames (f # fs) s = write_frames fs (snd (write_frame f s))"

fun read_frames :: "nat \<Rightarrow> nat \<Rightarrow> socket \<Rightarrow> WireFrame list option" where
  "read_frames grant 0 s = Some []"
| "read_frames grant (Suc n) s =
     (case read_frame grant s of
        (Inr (Some f), s') \<Rightarrow> map_option (Cons f) (read_frames grant n s')
      | _ \<Rightarrow> None)"

lemma read_frames_encoded:
  assumes "rx_bytes (rx s) = concat (map encode_frame fs) @ rest"
    and "list_all (\<lambda>f. length (payload f) < 2 ^ 32 - 1 \<and> length (payload f) \<le> grant) fs"
  shows "read_frames grant (length fs) s = Some fs"
  using assms
proof (induction fs arbitrary: s)
  case (Cons f fs)
  then have "rx_bytes (rx s) = encode_frame f @ (concat (map encode_frame fs) @ rest)"
    by simp
  from read_frame_standard [OF this, of grant] Cons show ?case
    by auto
qed simp

lemma tx_write_frames:
  assumes "tx_ok (tx_plan s)"
    and "list_all (\<lambda>f. length (payload f) < 2 ^ 32 - FRAME_HEADER_SIZE) fs"
  shows "tx (write_frames fs s) = tx s @ concat (map encode_frame fs)"
  using assms
proof (induction fs arbitrary: s)
  case (Cons f fs)
  with write_frame_ok [of s f] show ?case
    by auto
qed simp

section \<open>Correctness of the framing layer\<close>

definition demo_frame :: WireFrame where
  "demo_frame = \<lparr>message_type = 1, payload = [7, 9]\<rparr>"

definition demo_socket :: socket where
  "demo_socket =
     \<lparr>rx = [Recv_data [0, 0], Recv_fail EINTR, Recv_data [0, 2, 1, 7], Recv_data [9, 42]],
      tx_plan = [Send_accept 3, Send_fail EINTR], tx = []\<rparr>"

text \<open>
  C17. Framing is transparent.  Whatever way the kernel splits the writes of the sender (short
  writes and interrupted calls) and the reads of the receiver, a sequence of frames written by
  \<^verbatim>\<open>write_frame\<close> is read back frame by frame, unchanged and in order, by \<^verbatim>\<open>read_frame\<close>, as long as each
  payload is shorter than \<open>2\<^sup>3\<^sup>2 - 5\<close> bytes and the receiver can allocate it.
\<close>

theorem frames_transparent:
  assumes "tx_ok (tx_plan a)" and "tx a = []"
    and "list_all (\<lambda>f. length (payload f) < 2 ^ 32 - 5 \<and> length (payload f) \<le> grant) fs"
    and "rx_bytes (rx b) = tx (write_frames fs a)"
  shows "read_frames grant (length fs) b = Some fs"
proof -
  have "list_all (\<lambda>f. length (payload f) < 2 ^ 32 - FRAME_HEADER_SIZE) fs"
    using assms(3) by (auto simp: list_all_iff FRAME_HEADER_SIZE_def)
  with assms(1,2,4) have "rx_bytes (rx b) = concat (map encode_frame fs) @ []"
    by (simp add: tx_write_frames)
  moreover have "list_all (\<lambda>f. length (payload f) < 2 ^ 32 - 1 \<and> length (payload f) \<le> grant) fs"
    using assms(3) by (rule list.pred_mono_strong) simp
  ultimately show ?thesis
    by (rule read_frames_encoded)
qed

theorem frames_transparent_witness:
  "read_frames 10 2
     \<lparr>rx = [Recv_data [0, 0, 0], Recv_fail EINTR, Recv_data [2, 1, 7, 9, 0, 0], Recv_data [0, 2, 1, 7, 9]],
      tx_plan = [], tx = []\<rparr> = Some [demo_frame, demo_frame]"
proof -
  let ?b = "\<lparr>rx = [Recv_data [0, 0, 0], Recv_fail EINTR, Recv_data [2, 1, 7, 9, 0, 0],
    Recv_data [0, 2, 1, 7, 9]], tx_plan = [], tx = []\<rparr> :: socket"
  have "tx_ok (tx_plan demo_socket)" "tx demo_socket = []"
    by (simp_all add: demo_socket_def)
  moreover have "list_all (\<lambda>f. length (payload f) < 2 ^ 32 - 5 \<and> length (payload f) \<le> 10)
      [demo_frame, demo_frame]"
    by (simp add: demo_frame_def)
  moreover have "encode_frame demo_frame = [0, 0, 0, 2, 1, 7, 9]"
    by code_simp
  then have "rx_bytes (rx ?b) = tx (write_frames [demo_frame, demo_frame] demo_socket)"
    by (subst tx_write_frames) (simp_all add: demo_socket_def demo_frame_def FRAME_HEADER_SIZE_def)
  ultimately have "read_frames 10 (length [demo_frame, demo_frame]) ?b = Some [demo_frame, demo_frame]"
    by (rule frames_transparent)
  then show ?thesis by (simp add: numeral_2_eq_2)
qed

text \<open>
  C30. A raw-data frame that announces \<open>2\<^sup>3\<^sup>2\<close> bytes or more is never read successfully, however the
  bytes arrive: the length argument of \<^verbatim>\<open>recv\<close> is truncated to 32 bits, so the loop of \<^verbatim>\<open>read_exact\<close>
  always reaches a request of zero bytes, whose result it takes for the end of the stream.
\<close>

theorem raw_data_frame_4GiB_never_read:
  assumes stream: "rx_bytes (rx s) = encode_raw_data_header n @ rest" and big: "2 ^ 32 \<le> unat n"
  shows "\<nexists>f. fst (read_frame grant s) = Inr (Some f)"
proof -
  obtain s1 where "read_frame grant s = read_payload grant MSG_RAW_DATA (unat n) s1"
    using stream by (rule read_frame_raw_header)
  then show ?thesis
    using read_exact_huge [OF big] big
    by (auto simp: read_payload_def split: sum.splits prod.splits)
qed

theorem raw_data_frame_4GiB_never_read_witness:
  "\<nexists>f. fst (read_frame (2 ^ 40)
     \<lparr>rx = [Recv_data [255, 255, 255, 255, 254, 0, 0, 0, 1, 0, 0, 0, 0]], tx_plan = [], tx = []\<rparr>)
     = Inr (Some f)"
proof (rule raw_data_frame_4GiB_never_read [where n = "2 ^ 32"])
  show "rx_bytes (rx \<lparr>rx = [Recv_data [255, 255, 255, 255, 254, 0, 0, 0, 1, 0, 0, 0, 0]],
      tx_plan = [], tx = []\<rparr>) = encode_raw_data_header (2 ^ 32) @ []"
    by code_simp
  show "2 ^ 32 \<le> unat (2 ^ 32 :: u64)"
    by simp
qed

text \<open>
  \<^verbatim>\<open>read_exact\<close> stays inside the caller's buffer for every requested count and every behaviour of
  the peer, although the count is passed to \<^verbatim>\<open>recv\<close> through a narrowing and sign-extending cast.
\<close>

lemma read_exact_within_buffer:
  "length (fst (snd (read_exact count s))) \<le> count"
  using read_exact_loop_within [of "[]" count s] by (simp add: read_exact_def)

end
