(* ===== verification/Paths.thy ===== *)
theory Paths
  imports Prelude "HOL-Library.Sublist"
begin

text \<open>
  The part of \<^verbatim>\<open>std::filesystem::path\<close> (POSIX format) that the file manager uses, on strings:
  normalisation, concatenation, parent and extension; and how the operating system reads such a
  string, as a list of directory entry names from the root (there are no symbolic links in the
  storage).
\<close>

section \<open>Decomposition\<close>

abbreviation slash :: char where
  "slash \<equiv> CHR ''/''"

fun split_slash :: "string \<Rightarrow> string list" where
  "split_slash [] = [[]]"
| "split_slash (c # cs) =
     (if c = slash then [] # split_slash cs
      else case split_slash cs of [] \<Rightarrow> [[c]] | w # ws \<Rightarrow> (c # w) # ws)"

fun join_slash :: "string list \<Rightarrow> string" where
  "join_slash [] = []"
| "join_slash [w] = w"
| "join_slash (w # v # ws) = w @ slash # join_slash (v # ws)"

definition is_absolute :: "string \<Rightarrow> bool" where
  "is_absolute p \<longleftrightarrow> take 1 p = [slash]"

section \<open>lexically_normal, operator/, parent_path and extension\<close>

text \<open>One name, pushed on the stack of the names kept so far (innermost first).\<close>

definition norm_step :: "bool \<Rightarrow> string \<Rightarrow> string list \<Rightarrow> string list" where
  "norm_step absolute name st =
     (if name = [] \<or> name = ''.'' then st
      else if name = ''..'' then
        (case st of
           [] \<Rightarrow> if absolute then [] else [''..'']
         | t # ts \<Rightarrow> if t = ''..'' then ''..'' # st else ts)
      else name # st)"

definition norm_stack :: "string \<Rightarrow> string list" where
  "norm_stack p = fold (norm_step (is_absolute p)) (split_slash p) []"

text \<open>
  The result keeps a trailing separator when the last name was dropped (it was empty, \<open>.\<close>, or a
  \<open>..\<close> that removed its predecessor), unless the path then ends in \<open>..\<close>.
\<close>

definition lexically_normal :: "string \<Rightarrow> string" where
  "lexically_normal p =
     (let st = norm_stack p;
          trailing = last (split_slash p) \<in> {[], ''.'', ''..''} \<and> st \<noteq> [] \<and> hd st \<noteq> ''..'';
          body = join_slash (rev st) @ (if trailing then [slash] else [])
      in if p = [] then []
         else if is_absolute p then slash # body
         else if st = [] then ''.'' else body)"

definition path_append :: "string \<Rightarrow> string \<Rightarrow> string" where
  "path_append base p =
     (if is_absolute p then p
      else if base \<noteq> [] \<and> last base \<noteq> slash then base @ slash # p
      else base @ p)"

definition parent_path :: "string \<Rightarrow> string" where
  "parent_path p =
     (let r = dropWhile (\<lambda>c. c \<noteq> slash) (rev p); r' = dropWhile (\<lambda>c. c = slash) r
      in if r = [] then [] else if r' = [] then [slash] else rev r')"

definition path_extension :: "string \<Rightarrow> string" where
  "path_extension filename =
     (let r = rev filename; ext = takeWhile (\<lambda>c. c \<noteq> CHR ''.'') r;
          stem = drop (Suc (length ext)) r
      in if filename = ''.'' \<or> filename = ''..'' \<or> length ext = length r \<or> stem = [] then []
         else CHR ''.'' # rev ext)"

section \<open>How the kernel reads a path\<close>

definition c_str :: "string \<Rightarrow> string" where
  "c_str s = takeWhile (\<lambda>c. c \<noteq> CHR 0x00) s"

definition key_step :: "string list \<Rightarrow> string \<Rightarrow> string list" where
  "key_step k name =
     (if name = [] \<or> name = ''.'' then k else if name = ''..'' then butlast k else k @ [name])"

definition os_key :: "string list \<Rightarrow> string \<Rightarrow> string list" where
  "os_key cwd s =
     foldl key_step (if is_absolute (c_str s) then [] else cwd) (split_slash (c_str s))"

text \<open>A path that ends in a separator or in \<open>.\<close> names a directory or nothing.\<close>

definition dir_only :: "string \<Rightarrow> bool" where
  "dir_only s \<longleftrightarrow> last (split_slash (c_str s)) \<in> {[], ''.''}"

section \<open>Laws of splitting and joining\<close>

lemma split_slash_nonempty [simp]: "split_slash s \<noteq> []"
  by (cases s) (auto split: list.splits)

lemma split_slash_append: "split_slash (s @ slash # t) = split_slash s @ split_slash t"
  by (induction s) (auto split: list.splits)

lemma split_slash_no_slash: "w \<in> set (split_slash s) \<Longrightarrow> slash \<notin> set w"
  by (induction s arbitrary: w) (auto split: list.splits if_splits)

lemma split_slash_word: "slash \<notin> set w \<Longrightarrow> split_slash w = [w]"
  by (induction w) auto

lemma split_join:
  "ws \<noteq> [] \<Longrightarrow> (\<And>w. w \<in> set ws \<Longrightarrow> slash \<notin> set w) \<Longrightarrow> split_slash (join_slash ws) = ws"
proof (induction ws rule: join_slash.induct)
  case (3 w v ws)
  then show ?case by (simp add: split_slash_append split_slash_word)
qed (simp_all add: split_slash_word)

lemma split_slash_extend:
  assumes "slash \<notin> set t"
  shows "split_slash (s @ t) = butlast (split_slash s) @ [last (split_slash s) @ t]"
  using assms
proof (induction s)
  case Nil
  then show ?case by (simp add: split_slash_word)
next
  case (Cons c s)
  then show ?case by (auto split: list.splits)
qed

lemma join_slash_snoc: "ws \<noteq> [] \<Longrightarrow> join_slash (ws @ [w]) = join_slash ws @ slash # w"
  by (induction ws rule: join_slash.induct) simp_all

text \<open>The names of a prefix of a string: the first names, and a prefix of the next one.\<close>

lemma split_slash_take:
  "\<exists>k j. k < length (split_slash s) \<and>
     split_slash (take n s) = take k (split_slash s) @ [take j (split_slash s ! k)]"
proof (induction s arbitrary: n)
  case Nil
  then show ?case by (intro exI [of _ 0]) simp
next
  case (Cons c s)
  show ?case
  proof (cases n)
    case 0
    then show ?thesis by (intro exI [of _ 0]) (auto split: list.splits)
  next
    case (Suc m)
    obtain k j where kj: "k < length (split_slash s)"
      "split_slash (take m s) = take k (split_slash s) @ [take j (split_slash s ! k)]"
      using Cons.IH by blast
    obtain w ws where w: "split_slash s = w # ws"
      by (cases "split_slash s") auto
    consider "c = slash" | k' where "c \<noteq> slash" "k = Suc k'" | "c \<noteq> slash" "k = 0"
      by (cases k) auto
    then show ?thesis
    proof cases
      case 1
      then show ?thesis using kj Suc by (intro exI [of _ "Suc k"] exI [of _ j]) simp
    next
      case 2
      then show ?thesis using kj w Suc by (intro exI [of _ k] exI [of _ j]) simp
    next
      case 3
      then show ?thesis using kj w Suc by (intro exI [of _ 0] exI [of _ "Suc j"]) simp
    qed
  qed
qed

lemma prefix_hd_split: "prefix (hd (split_slash s)) s"
proof (induction s)
  case (Cons c s)
  then show ?case by (cases "split_slash s") auto
qed simp

section \<open>The shape of a normalised path\<close>

definition plain_name :: "string \<Rightarrow> bool" where
  "plain_name w \<longleftrightarrow> w \<noteq> [] \<and> w \<noteq> ''.'' \<and> w \<noteq> ''..'' \<and> slash \<notin> set w"

lemma norm_step_shape:
  assumes "slash \<notin> set w" and "st = ns @ replicate m ''..''" and "list_all plain_name ns"
  shows "\<exists>ns' m'. norm_step b w st = ns' @ replicate m' ''..'' \<and> list_all plain_name ns'"
proof (cases "w = ''..''")
  case True
  show ?thesis
  proof (cases ns)
    case Nil
    have "norm_step b w st = [] @ replicate (if m = 0 \<and> b then 0 else Suc m) ''..''"
      using True assms(2) Nil by (cases m) (simp_all add: norm_step_def)
    then show ?thesis by (metis list.pred_inject(1))
  next
    case (Cons n ns')
    then have "norm_step b w st = ns' @ replicate m ''..'' \<and> list_all plain_name ns'"
      using True assms by (simp add: norm_step_def plain_name_def)
    then show ?thesis by blast
  qed
next
  case False
  show ?thesis
  proof (cases "w = [] \<or> w = ''.''")
    case True
    with assms show ?thesis by (auto simp: norm_step_def)
  next
    case keep: False
    with False assms have "norm_step b w st = (w # ns) @ replicate m ''..''"
      and "list_all plain_name (w # ns)"
      by (simp_all add: norm_step_def plain_name_def)
    then show ?thesis by blast
  qed
qed

lemma norm_stack_shape:
  "\<exists>ns m. norm_stack p = ns @ replicate m ''..'' \<and> list_all plain_name ns"
proof -
  have "\<exists>ns' m'. fold (norm_step b) ws (ns @ replicate m ''..'') = ns' @ replicate m' ''..''
      \<and> list_all plain_name ns'"
    if "list_all plain_name ns" and "\<forall>w \<in> set ws. slash \<notin> set w" for b ws ns m
    using that
  proof (induction ws arbitrary: ns m)
    case (Cons w ws)
    from Cons.prems norm_step_shape [of w "ns @ replicate m ''..''" ns m b]
    obtain ns1 m1 where "norm_step b w (ns @ replicate m ''..'') = ns1 @ replicate m1 ''..''"
      and "list_all plain_name ns1" by auto
    with Cons show ?case by simp
  qed auto
  from this [of "[]" "split_slash p" "is_absolute p" 0] show ?thesis
    using split_slash_no_slash by (auto simp: norm_stack_def)
qed

lemma join_slash_Cons: "\<exists>t. join_slash (w # ws) = w @ t"
  by (cases ws) auto

text \<open>
  A relative path whose normal form does not start with two dots is a sequence of plain names,
  followed by nothing, by a separator, or (if there is no name) by a dot.
\<close>

lemma lexically_normal_names:
  assumes "\<not> is_absolute p" and "take 2 (lexically_normal p) \<noteq> ''..''"
  obtains ns end_part where "list_all plain_name ns" and "end_part \<in> {[], [[]], [''.'']}"
    and "split_slash (lexically_normal p) = ns @ end_part"
proof -
  obtain ns m where st: "norm_stack p = ns @ replicate m ''..''" and ns: "list_all plain_name ns"
    using norm_stack_shape by blast
  consider "p = []" | "p \<noteq> []" "norm_stack p = []" | "p \<noteq> []" "norm_stack p \<noteq> []" by blast
  then show ?thesis
  proof cases
    case 1
    then have "split_slash (lexically_normal p) = [] @ [[]]"
      by (simp add: lexically_normal_def Let_def)
    then show ?thesis using that [of "[]"] by simp
  next
    case 2
    then have "split_slash (lexically_normal p) = [] @ [''.'']"
      using assms(1) by (simp add: lexically_normal_def Let_def)
    then show ?thesis using that [of "[]"] by simp
  next
    case 3
    define tr where "tr \<longleftrightarrow> last (split_slash p) \<in> {[], ''.'', ''..''} \<and> hd (norm_stack p) \<noteq> ''..''"
    have eq: "lexically_normal p = join_slash (rev (norm_stack p)) @ (if tr then [slash] else [])"
      using 3 assms(1) by (simp add: lexically_normal_def Let_def tr_def)
    have "m = 0"
    proof (rule ccontr)
      assume "m \<noteq> 0"
      then have "rev (norm_stack p) = ''..'' # replicate (m - 1) ''..'' @ rev ns"
        by (cases m) (simp_all add: st replicate_append_same)
      moreover obtain t where "join_slash (''..'' # replicate (m - 1) ''..'' @ rev ns) = ''..'' @ t"
        using join_slash_Cons by blast
      ultimately show False using eq assms(2) by simp
    qed
    then have "split_slash (join_slash (rev ns)) = rev ns"
      using 3(2) ns st by (intro split_join) (auto simp: list_all_iff plain_name_def)
    then have "split_slash (lexically_normal p) = rev ns @ (if tr then [[]] else [])"
      using eq st \<open>m = 0\<close> split_slash_append [of "join_slash (rev ns)" "[]"] by simp
    then show ?thesis using that [of "rev ns"] ns by (cases tr) simp_all
  qed
qed

lemma set_split_slash: "w \<in> set (split_slash s) \<Longrightarrow> set w \<subseteq> set s"
  by (induction s arbitrary: w) (fastforce split: list.splits if_splits)+

lemma set_join_slash: "set (join_slash ws) \<subseteq> \<Union> (set ` set ws) \<union> {slash}"
  by (induction ws rule: join_slash.induct) auto

lemma norm_stack_names:
  assumes "w \<in> set (norm_stack p)"
  shows "w \<in> set (split_slash p) \<or> w = ''..''"
proof -
  have "set (fold (norm_step b) ws st) \<subseteq> set ws \<union> set st \<union> {''..''}" for b ws st
  proof (induction ws arbitrary: st)
    case (Cons w ws)
    have "set (norm_step b w st) \<subseteq> {w, ''..''} \<union> set st"
      by (auto simp: norm_step_def split: list.splits if_splits)
    with Cons [of "norm_step b w st"] show ?case by (simp only: fold_Cons o_apply list.set) blast
  qed auto
  with assms show ?thesis unfolding norm_stack_def by fastforce
qed

lemma set_lexically_normal: "set (lexically_normal p) \<subseteq> set p \<union> {slash, CHR ''.''}"
proof -
  have "set w \<subseteq> set p \<union> {CHR ''.''}" if "w \<in> set (norm_stack p)" for w
    using norm_stack_names [OF that] set_split_slash [of w p] by auto
  then have "set (join_slash (rev (norm_stack p))) \<subseteq> set p \<union> {slash, CHR ''.''}"
    using set_join_slash [of "rev (norm_stack p)"] by fastforce
  then show ?thesis
    by (auto simp: lexically_normal_def Let_def split: if_splits)
qed

lemma lexically_normal_relative:
  assumes "\<not> is_absolute p" and "take 2 (lexically_normal p) \<noteq> ''..''"
  shows "\<not> is_absolute (lexically_normal p)"
proof
  let ?q = "lexically_normal p"
  obtain ns end_part where ns: "list_all plain_name ns" "end_part \<in> {[], [[]], [''.'']}"
    "split_slash ?q = ns @ end_part"
    using lexically_normal_names [OF assms] .
  assume "is_absolute ?q"
  then obtain t where "?q = slash # t"
    by (cases ?q) (auto simp: is_absolute_def)
  moreover obtain a l where "split_slash t = a # l"
    by (cases "split_slash t") auto
  ultimately have "ns @ end_part = [] # a # l"
    using ns(3) by simp
  with ns(1,2) show False
    by (cases ns) (auto simp: plain_name_def)
qed

lemma lexically_normal_absolute:
  "is_absolute p \<Longrightarrow> is_absolute (lexically_normal p)"
  by (cases p) (auto simp: lexically_normal_def Let_def is_absolute_def)

section \<open>Keys\<close>

lemma foldl_key_step_plain: "list_all plain_name ns \<Longrightarrow> foldl key_step k ns = k @ ns"
  by (induction ns arbitrary: k) (simp_all add: key_step_def plain_name_def)

lemma c_str_take: "c_str s = take (length (c_str s)) s"
  unfolding c_str_def by (metis takeWhile_eq_take)

lemma c_str_append: "CHR 0x00 \<notin> set s \<Longrightarrow> c_str (s @ t) = s @ c_str t"
  unfolding c_str_def by (rule takeWhile_append2) auto

lemma c_str_id: "CHR 0x00 \<notin> set s \<Longrightarrow> c_str s = s"
  using c_str_append [of s "[]"] by (simp add: c_str_def)

text \<open>Names that cannot climb: every prefix of such a path stays below the directory it starts from.\<close>

lemma prefix_key_names:
  assumes names: "split_slash s = ns @ end_part" "list_all plain_name ns" "end_part \<in> {[], [[]], [''.'']}"
    and start: "take 2 s \<noteq> ''..''"
  shows "prefix k (foldl key_step k (split_slash (take n s)))"
proof -
  obtain i j where i: "i < length (split_slash s)"
    and eq: "split_slash (take n s) = take i (split_slash s) @ [take j (split_slash s ! i)]"
    using split_slash_take by blast
  have "take i (split_slash s) = take i ns"
    using i names(1,3) by auto
  moreover have "foldl key_step k (take i ns) = k @ take i ns"
    using names(2) by (intro foldl_key_step_plain) (auto simp: list_all_iff dest: in_set_takeD)
  ultimately have fold_eq: "foldl key_step k (split_slash (take n s))
      = key_step (k @ take i ns) (take j (split_slash s ! i))"
    using eq by simp
  show ?thesis
  proof (cases "take i ns = []")
    case True
    then have "i = 0" using i names by (auto split: if_splits)
    have "take j (split_slash s ! i) \<noteq> ''..''"
    proof
      assume dots: "take j (split_slash s ! i) = ''..''"
      have "prefix (take j (hd (split_slash s))) s"
        using prefix_hd_split take_is_prefix prefix_order.trans by blast
      with dots \<open>i = 0\<close> have "prefix ''..'' s" by (simp add: hd_conv_nth)
      with start show False by (auto simp: prefix_def)
    qed
    with True fold_eq show ?thesis by (simp add: key_step_def)
  next
    case False
    with fold_eq show ?thesis by (simp add: key_step_def butlast_append)
  qed
qed


lemma is_absolute_c_str: "is_absolute (c_str s) \<longleftrightarrow> is_absolute s"
  by (cases s) (simp_all add: is_absolute_def c_str_def)

lemma is_absolute_append: "s \<noteq> [] \<Longrightarrow> is_absolute (s @ t) \<longleftrightarrow> is_absolute s"
  by (cases s) (simp_all add: is_absolute_def)

lemma os_key_append:
  assumes "CHR 0x00 \<notin> set base" and "\<not> is_absolute p"
  shows "os_key cwd (path_append base p) = foldl key_step (os_key cwd base) (split_slash (c_str p))"
proof (cases "base = []")
  case True
  moreover have "os_key cwd [] = cwd"
    by (simp add: os_key_def c_str_def key_step_def is_absolute_def)
  moreover have "os_key cwd p = foldl key_step cwd (split_slash (c_str p))"
    using assms by (simp add: os_key_def is_absolute_c_str)
  ultimately show ?thesis
    using assms by (simp add: path_append_def)
next
  case False
  note abs = is_absolute_append [OF False]
  show ?thesis
  proof (cases "last base = slash")
    case True
    then obtain b where b: "base = b @ [slash]"
      using False by (metis append_butlast_last_id)
    have "c_str (path_append base p) = b @ slash # c_str p"
      using assms True c_str_append [OF assms(1)] by (simp add: path_append_def b)
    then show ?thesis
      using assms False abs [of p] abs [of "c_str p"] c_str_id [OF assms(1)]
      by (simp add: os_key_def is_absolute_c_str path_append_def b split_slash_append key_step_def)
  next
    case no_sep: False
    have "c_str (path_append base p) = base @ c_str (slash # p)"
      using assms False no_sep c_str_append [OF assms(1)] by (simp add: path_append_def)
    moreover have "c_str (slash # p) = slash # c_str p"
      by (simp add: c_str_def)
    ultimately show ?thesis
      using assms False no_sep abs [of "slash # p"] abs [of "slash # c_str p"] c_str_id [OF assms(1)]
      by (simp add: os_key_def is_absolute_c_str split_slash_append)
  qed
qed

lemma key_contained:
  assumes "CHR 0x00 \<notin> set base" and "\<not> is_absolute p" and "take 2 (lexically_normal p) \<noteq> ''..''"
  shows "prefix (os_key cwd base) (os_key cwd (path_append base (lexically_normal p)))"
proof -
  let ?q = "lexically_normal p"
  obtain ns end_part where "list_all plain_name ns" "end_part \<in> {[], [[]], [''.'']}"
    "split_slash ?q = ns @ end_part"
    using lexically_normal_names [OF assms(2,3)] .
  then have "prefix (os_key cwd base) (foldl key_step (os_key cwd base) (split_slash (c_str ?q)))"
    using prefix_key_names assms(3) c_str_take by metis
  moreover have "\<not> is_absolute ?q"
    using lexically_normal_relative [OF assms(2,3)] .
  ultimately show ?thesis
    using assms(1) by (simp add: os_key_append)
qed

text \<open>Appending an extension to a path string changes its last name, and with it the key.\<close>

definition key_dir :: "string list \<Rightarrow> string \<Rightarrow> string list" where
  "key_dir cwd s = foldl key_step (if is_absolute s then [] else cwd) (butlast (split_slash s))"

lemma os_key_butlast:
  assumes "CHR 0x00 \<notin> set s"
  shows "os_key cwd s = key_step (key_dir cwd s) (last (split_slash s))"
proof -
  have "split_slash s = butlast (split_slash s) @ [last (split_slash s)]"
    by simp
  then show ?thesis
    unfolding os_key_def key_dir_def c_str_id [OF assms] by (metis foldl_Cons foldl_Nil foldl_append)
qed

lemma os_key_tmp:
  assumes "CHR 0x00 \<notin> set s"
  shows "os_key cwd (s @ ''.tmp'') = key_dir cwd s @ [last (split_slash s) @ ''.tmp'']"
proof -
  have "split_slash (s @ ''.tmp'') = butlast (split_slash s) @ [last (split_slash s) @ ''.tmp'']"
    by (rule split_slash_extend) simp
  moreover have "is_absolute (s @ ''.tmp'') = is_absolute s"
    by (cases s) (simp_all add: is_absolute_def)
  ultimately show ?thesis
    using os_key_butlast [of "s @ ''.tmp''" cwd] assms
    by (simp add: key_dir_def key_step_def)
qed

lemma os_key_tmp_differs:
  assumes "CHR 0x00 \<notin> set s"
  shows "os_key cwd (s @ ''.tmp'') \<noteq> os_key cwd s"
proof -
  have "length (butlast (key_dir cwd s)) < Suc (length (key_dir cwd s))" by simp
  then show ?thesis
    unfolding os_key_tmp [OF assms] os_key_butlast [OF assms]
    by (auto simp: key_step_def dest: arg_cong [of _ _ length])
qed

text \<open>The key of the parent directory string is the directory part of the key.\<close>

lemma split_slash_replicate: "split_slash (replicate n slash @ s) = replicate n [] @ split_slash s"
  by (induction n) simp_all

lemma foldl_key_step_blank: "foldl key_step k (replicate n []) = k"
  by (induction n) (simp_all add: key_step_def)

lemma parent_path_cases:
  "r = dropWhile (\<lambda>c. c \<noteq> slash) (rev s) \<Longrightarrow> d = rev (dropWhile (\<lambda>c. c = slash) r) \<Longrightarrow>
    parent_path s = (if r = [] then [] else if d = [] then [slash] else d)"
  unfolding parent_path_def Let_def by (simp only: rev_is_Nil_conv)
lemma parent_path_no_slash:
  assumes "parent_path s = []"
  shows "slash \<notin> set s"
proof -
  define r where "r = dropWhile (\<lambda>c. c \<noteq> slash) (rev s)"
  define d where "d = rev (dropWhile (\<lambda>c. c = slash) r)"
  have "r = []"
    using parent_path_cases [OF r_def d_def] assms by (cases "r = []"; cases "d = []") simp_all
  then show ?thesis
    unfolding r_def dropWhile_eq_Nil_conv by (simp only: set_rev) blast
qed

lemma slash_decomp:
  assumes "slash \<in> set s"
  obtains d n f where "s = d @ replicate (Suc n) slash @ f" and "slash \<notin> set f"
    and "parent_path s = (if d = [] then [slash] else d)"
proof -
  define r where "r = dropWhile (\<lambda>c. c \<noteq> slash) (rev s)"
  define d where "d = rev (dropWhile (\<lambda>c. c = slash) r)"
  obtain b f where s: "s = b @ slash # f" and f: "slash \<notin> set f"
    using split_list_last [OF assms] by blast
  have "dropWhile (\<lambda>c. c \<noteq> slash) (rev f @ slash # rev b) = dropWhile (\<lambda>c. c \<noteq> slash) (slash # rev b)"
    by (rule dropWhile_append2) (use f in auto)
  then have r: "r = slash # rev b"
    by (simp add: r_def s)
  define n where "n = length (takeWhile (\<lambda>c. c = slash) (rev b))"
  have "takeWhile (\<lambda>c. c = slash) (rev b) = replicate n slash"
    unfolding n_def by (rule replicate_eqI) (auto dest: set_takeWhileD)
  then have "rev b = replicate n slash @ rev d"
    using takeWhile_dropWhile_id [of "\<lambda>c. c = slash" "rev b"] by (simp add: d_def r)
  then have "b = d @ replicate n slash"
    by (metis rev_append rev_replicate rev_rev_ident)
  then have "s = d @ replicate (Suc n) slash @ f"
    by (simp add: s replicate_append_same [symmetric])
  moreover have "parent_path s = (if d = [] then [slash] else d)"
    using parent_path_cases [OF r_def d_def] r by simp
  ultimately show ?thesis using that f by blast
qed

lemma parent_path_empty:
  assumes "parent_path s = []"
  shows "key_dir here s = here"
proof -
  have no: "slash \<notin> set s" using parent_path_no_slash [OF assms] .
  moreover have "\<not> is_absolute s"
    using no by (cases s) (auto simp: is_absolute_def)
  ultimately show ?thesis
    by (simp add: key_dir_def split_slash_word)
qed

lemma os_key_parent_path:
  assumes "CHR 0x00 \<notin> set s" and "parent_path s \<noteq> []"
  shows "os_key here (parent_path s) = key_dir here s"
proof -
  have "slash \<in> set s"
  proof (rule ccontr)
    assume "slash \<notin> set s"
    then have "\<forall>x \<in> set (rev s). x \<noteq> slash" by auto
    then have "dropWhile (\<lambda>c. c \<noteq> slash) (rev s) = []" by (simp only: dropWhile_eq_Nil_conv)
    with parent_path_cases [OF refl refl, of s] assms(2) show False by simp
  qed
  then obtain d n f where s: "s = d @ replicate (Suc n) slash @ f" and f: "slash \<notin> set f"
    and parent: "parent_path s = (if d = [] then [slash] else d)"
    by (rule slash_decomp)
  have nul: "CHR 0x00 \<notin> set d" using assms(1) s by auto
  have split: "split_slash s = split_slash d @ replicate n [] @ [f]"
    using s split_slash_append [of d "replicate n slash @ f"] split_slash_replicate [of n f]
      split_slash_word [OF f] by simp
  show ?thesis
  proof (cases "d = []")
    case True
    then show ?thesis
      using parent split s
      by (simp add: os_key_def key_dir_def c_str_def is_absolute_def key_step_def foldl_key_step_blank
          butlast_append)
  next
    case False
    moreover have "is_absolute s = is_absolute d"
      using is_absolute_append [OF False] s by simp
    ultimately show ?thesis
      using parent split
      by (simp add: os_key_def key_dir_def c_str_id [OF nul] butlast_append foldl_key_step_blank)
  qed
qed

text \<open>A relative name without NUL: its directory, hence also its staging file, lies below the base.\<close>

lemma key_dir_contained:
  assumes nul: "CHR 0x00 \<notin> set base" "CHR 0x00 \<notin> set (lexically_normal p)"
    and rel: "\<not> is_absolute p" "take 2 (lexically_normal p) \<noteq> ''..''"
  shows "prefix (os_key here base) (key_dir here (path_append base (lexically_normal p)))"
proof -
  let ?q = "lexically_normal p" and ?s = "path_append base (lexically_normal p)"
  obtain ns end_part where ns: "list_all plain_name ns" "end_part \<in> {[], [[]], [''.'']}"
    "split_slash ?q = ns @ end_part"
    using lexically_normal_names [OF rel] .
  let ?dirs = "butlast (split_slash ?q)" and ?name = "last (split_slash ?q) @ ''.tmp''"
  note nul_q = nul(2)
  have q: "\<not> is_absolute ?q" using lexically_normal_relative [OF rel] .
  have tmp: "?s @ ''.tmp'' = path_append base (?q @ ''.tmp'')" "\<not> is_absolute (?q @ ''.tmp'')"
    using q by (cases ?q; simp add: path_append_def is_absolute_def)+
  have "list_all plain_name (?dirs @ [?name])"
  proof -
    have "slash \<notin> set (last (split_slash ?q))"
      by (rule split_slash_no_slash) (rule last_in_set, simp)
    moreover have "w \<in> set ns" if "w \<in> set ?dirs" for w
      using that ns by (auto simp: butlast_append dest: in_set_butlastD split: if_splits)
    ultimately show ?thesis
      using ns(1) by (auto simp: list_all_iff plain_name_def append_eq_Cons_conv)
  qed
  then have "foldl key_step (os_key here base) (split_slash (?q @ ''.tmp'')) = os_key here base @ ?dirs @ [?name]"
    using split_slash_extend [of "''.tmp''" ?q] foldl_key_step_plain [of "?dirs @ [?name]" "os_key here base"]
    by (simp del: foldl_append)
  moreover have "c_str (?q @ ''.tmp'') = ?q @ ''.tmp''"
    using nul_q by (intro c_str_id) simp
  ultimately have "os_key here (?s @ ''.tmp'') = os_key here base @ ?dirs @ [?name]"
    unfolding tmp(1) os_key_append [OF nul(1) tmp(2)] by simp
  moreover have "CHR 0x00 \<notin> set ?s"
    using nul_q nul(1) by (auto simp: path_append_def)
  ultimately have "key_dir here ?s = os_key here base @ ?dirs"
    using os_key_tmp [of ?s here] by simp
  then show ?thesis by simp
qed

text \<open>The staging name is inside as well; a NUL character cuts the extension off.\<close>

lemma tmp_contained:
  assumes nul: "CHR 0x00 \<notin> set base" and rel: "\<not> is_absolute p" "take 2 (lexically_normal p) \<noteq> ''..''"
  shows "prefix (os_key here base) (os_key here (path_append base (lexically_normal p) @ ''.tmp''))"
proof (cases "CHR 0x00 \<in> set (lexically_normal p)")
  case True
  then have "CHR 0x00 \<in> set (path_append base (lexically_normal p))" by (auto simp: path_append_def)
  then have "c_str (path_append base (lexically_normal p) @ ''.tmp'') = c_str (path_append base (lexically_normal p))"
    by (auto simp: c_str_def)
  then have "os_key here (path_append base (lexically_normal p) @ ''.tmp'') = os_key here (path_append base (lexically_normal p))"
    by (simp add: os_key_def)
  then show ?thesis using key_contained [OF nul rel] by simp
next
  case False
  then have "CHR 0x00 \<notin> set (path_append base (lexically_normal p))" using nul by (auto simp: path_append_def)
  then show ?thesis using key_dir_contained [OF nul False rel] by (simp add: os_key_tmp)
qed

section \<open>Plain paths\<close>

lemma join_split: "join_slash (split_slash s) = s"
proof (induction s)
  case (Cons c s)
  then show ?case by (cases "split_slash s" rule: join_slash.cases) auto
qed simp

definition plain_path :: "string \<Rightarrow> bool" where
  "plain_path p \<longleftrightarrow> list_all plain_name (split_slash p) \<and> CHR 0x00 \<notin> set p \<and> take 2 p \<noteq> ''..''"

lemma plain_path_relative: "plain_path p \<Longrightarrow> \<not> is_absolute p"
  by (cases p) (auto simp: plain_path_def plain_name_def is_absolute_def)

lemma lexically_normal_plain:
  assumes "plain_path p"
  shows "lexically_normal p = p"
proof -
  have plain: "list_all plain_name (split_slash p)" using assms by (simp add: plain_path_def)
  have "fold (norm_step b) ns st = rev ns @ st" if "list_all plain_name ns" for b ns st
    using that by (induction ns arbitrary: st) (simp_all add: norm_step_def plain_name_def)
  from this [OF plain] have st: "norm_stack p = rev (split_slash p)"
    by (simp add: norm_stack_def)
  have "plain_name (last (split_slash p))"
    using plain by (simp add: list_all_iff)
  moreover have "p \<noteq> []"
    using plain by (auto simp: plain_name_def)
  ultimately show ?thesis
    using plain_path_relative [OF assms] st
    by (simp add: lexically_normal_def Let_def plain_name_def join_split)
qed

text \<open>Where a plain path and its staging file lie.\<close>

lemma plain_path_keys:
  assumes "plain_path p" and "CHR 0x00 \<notin> set base"
  defines "s \<equiv> path_append base p"
  shows "os_key here s = os_key here base @ split_slash p"
    and "key_dir here s = os_key here base @ butlast (split_slash p)"
    and "os_key here (s @ ''.tmp'') =
      os_key here base @ butlast (split_slash p) @ [last (split_slash p) @ ''.tmp'']"
    and "\<not> dir_only s" and "c_str s \<noteq> []" and "CHR 0x00 \<notin> set s"
proof -
  have plain: "list_all plain_name (split_slash p)" and nul: "CHR 0x00 \<notin> set p"
    using assms by (simp_all add: plain_path_def)
  note rel = plain_path_relative [OF assms(1)]
  have p_ne: "p \<noteq> []" using plain by (auto simp: plain_name_def)
  show nul_s: "CHR 0x00 \<notin> set s"
    using nul assms(2) by (auto simp: s_def path_append_def)
  have last_s: "last (split_slash s) = last (split_slash p)"
  proof (cases "base \<noteq> [] \<and> last base = slash")
    case True
    then obtain b where "base = b @ [slash]" by (metis append_butlast_last_id)
    then show ?thesis using rel by (simp add: s_def path_append_def split_slash_append)
  next
    case False
    then show ?thesis using rel by (auto simp: s_def path_append_def split_slash_append)
  qed
  show key: "os_key here s = os_key here base @ split_slash p"
    unfolding s_def os_key_append [OF assms(2) rel] c_str_id [OF nul]
    by (rule foldl_key_step_plain [OF plain])
  have last_p: "plain_name (last (split_slash p))" using plain by (simp add: list_all_iff)
  show dir: "key_dir here s = os_key here base @ butlast (split_slash p)"
  proof -
    have "key_dir here s @ [last (split_slash p)] = os_key here base @ split_slash p"
      using os_key_butlast [OF nul_s, of here] key last_s last_p by (simp add: key_step_def plain_name_def)
    then show ?thesis
      by (metis append_assoc append_butlast_last_id butlast_snoc split_slash_nonempty)
  qed
  show "os_key here (s @ ''.tmp'') =
      os_key here base @ butlast (split_slash p) @ [last (split_slash p) @ ''.tmp'']"
    using os_key_tmp [OF nul_s, of here] dir last_s by simp
  show "\<not> dir_only s"
    using last_s last_p by (simp add: dir_only_def c_str_id [OF nul_s] plain_name_def)
  show "c_str s \<noteq> []"
    using p_ne c_str_id [OF nul_s] by (auto simp: s_def path_append_def)
qed

lemma os_key_empty [simp]: "os_key here [] = here"
  by (simp add: os_key_def c_str_def key_step_def is_absolute_def)

lemma set_parent_path: "set (parent_path s) \<subseteq> insert slash (set s)"
proof -
  have "set (rev (dropWhile P (dropWhile Q (rev s)))) \<subseteq> set s" for P Q
    by (auto dest!: set_dropWhileD)
  then show ?thesis unfolding parent_path_def Let_def by auto
qed

section \<open>Where a path leads\<close>

text \<open>
  A walk over the names of a path that starts in an empty list of directories: \<open>None\<close> when it leaves the
  directory it started in.
\<close>

fun walk :: "string list \<Rightarrow> string list \<Rightarrow> string list option" where
  "walk k [] = Some k"
| "walk k (w # ws) =
     (if w = [] \<or> w = ''.'' then walk k ws
      else if w = ''..'' then (if k = [] then None else walk (butlast k) ws)
      else walk (k @ [w]) ws)"

lemma norm_step_walk:
  "w = [] \<or> w = ''.'' \<Longrightarrow> norm_step b w st = st"
  "norm_step False ''..'' [] = [''..'']"
  "list_all plain_name k \<Longrightarrow> k \<noteq> [] \<Longrightarrow> norm_step b ''..'' (rev k) = rev (butlast k)"
  "plain_name w \<Longrightarrow> norm_step b w st = w # st"
  by (auto simp: norm_step_def) (cases k rule: rev_cases; auto simp: plain_name_def)+

lemma plain_butlast: "list_all plain_name k \<Longrightarrow> list_all plain_name (butlast k)"
  by (auto simp: list_all_iff dest: in_set_butlastD)

lemma name_cases:
  assumes "slash \<notin> set w"
  obtains "w = [] \<or> w = ''.''" | "w = ''..''" | "plain_name w" "w \<noteq> []" "w \<noteq> ''.''" "w \<noteq> ''..''"
  using assms by (auto simp: plain_name_def)

lemma walk_Some:
  assumes "walk k ws = Some ns" and "list_all plain_name k" and "\<forall>w \<in> set ws. slash \<notin> set w"
  shows "fold (norm_step False) ws (rev k) = rev ns \<and> list_all plain_name ns"
  using assms
proof (induction ws arbitrary: k)
  case (Cons w ws)
  then have "slash \<notin> set w" by simp
  then show ?case
  proof (cases rule: name_cases)
    case 2
    then have "k \<noteq> []" "walk (butlast k) ws = Some ns" using Cons.prems(1) by (auto split: if_splits)
    then show ?thesis
      using Cons.IH [of "butlast k"] Cons.prems 2 by (simp add: norm_step_walk plain_butlast)
  next
    case 3
    then show ?thesis using Cons.IH [of "k @ [w]"] Cons.prems by (simp add: norm_step_walk(4))
  qed (use Cons in \<open>auto simp: norm_step_walk(1)\<close>)
qed simp

text \<open>Once the path has climbed, its normal form begins with two dots.\<close>

lemma norm_step_climbed:
  assumes "st \<noteq> []" and "last st = ''..''"
  shows "norm_step False w st \<noteq> [] \<and> last (norm_step False w st) = ''..''"
  using assms by (cases st) (auto simp: norm_step_def)

lemma norm_climbed:
  "st \<noteq> [] \<Longrightarrow> last st = ''..'' \<Longrightarrow> fold (norm_step False) ws st \<noteq> [] \<and> last (fold (norm_step False) ws st) = ''..''"
  by (induction ws arbitrary: st) (simp_all add: norm_step_climbed)

lemma walk_None:
  assumes "walk k ws = None" and "list_all plain_name k" and "\<forall>w \<in> set ws. slash \<notin> set w"
  shows "fold (norm_step False) ws (rev k) \<noteq> [] \<and> last (fold (norm_step False) ws (rev k)) = ''..''"
  using assms
proof (induction ws arbitrary: k)
  case (Cons w ws)
  then have "slash \<notin> set w" by simp
  then show ?case
  proof (cases rule: name_cases)
    case 2
    show ?thesis
    proof (cases "k = []")
      case True
      then show ?thesis using 2 norm_climbed [of "[''..'']" ws] by (simp add: norm_step_walk)
    next
      case False
      then show ?thesis using Cons.IH [of "butlast k"] Cons.prems 2 by (simp add: norm_step_walk plain_butlast)
    qed
  next
    case 3
    then show ?thesis using Cons.IH [of "k @ [w]"] Cons.prems by (simp add: norm_step_walk(4))
  qed (use Cons in \<open>auto simp: norm_step_walk(1)\<close>)
qed simp

lemma walk_absolute:
  assumes "list_all plain_name k" and "\<forall>w \<in> set ws. slash \<notin> set w"
  shows "fold (norm_step True) ws (rev k) = rev (foldl key_step k ws) \<and> list_all plain_name (foldl key_step k ws)"
  using assms
proof (induction ws arbitrary: k)
  case (Cons w ws)
  then have "slash \<notin> set w" by simp
  then show ?case
  proof (cases rule: name_cases)
    case 2
    then have "norm_step True w (rev k) = rev (butlast k)" "key_step k w = butlast k"
      using Cons.prems(1) norm_step_walk(3) [of k True] by (cases "k = []"; simp add: norm_step_def key_step_def)+
    then show ?thesis using Cons.IH [of "butlast k"] Cons.prems by (simp add: plain_butlast)
  next
    case 3
    then show ?thesis using Cons.IH [of "k @ [w]"] Cons.prems by (simp add: norm_step_walk(4) key_step_def)
  qed (use Cons in \<open>auto simp: norm_step_walk(1) key_step_def\<close>)
qed simp

lemma split_join_plain:
  "list_all plain_name ns \<Longrightarrow> ns \<noteq> [] \<Longrightarrow> split_slash (join_slash ns) = ns"
  by (intro split_join) (auto simp: list_all_iff plain_name_def)

text \<open>The normal form of a path whose walk stays inside.\<close>

lemma lexically_normal_walk:
  assumes rel: "\<not> is_absolute p" and w: "walk [] (split_slash p) = Some ns"
  obtains end_part where "split_slash (lexically_normal p) = ns @ end_part" "end_part \<in> {[], [[]], [''.'']}"
    "list_all plain_name ns" "take 2 (lexically_normal p) = ''..'' \<longleftrightarrow> ns \<noteq> [] \<and> take 2 (hd ns) = ''..''"
proof -
  have names: "\<forall>w \<in> set (split_slash p). slash \<notin> set w" using split_slash_no_slash by blast
  from walk_Some [OF w _ names] have st: "norm_stack p = rev ns" and plain: "list_all plain_name ns"
    using rel by (simp_all add: norm_stack_def)
  show ?thesis
  proof (cases ns)
    case Nil
    then have "lexically_normal p = [] \<or> lexically_normal p = ''.''" using rel st by (auto simp: lexically_normal_def)
    then show ?thesis using that [of "[[]]"] that [of "[''.'']"] Nil by fastforce
  next
    case (Cons n ns')
    then have "p \<noteq> []" using w by (auto simp: key_step_def)
    then obtain tr where eq: "lexically_normal p = join_slash ns @ (if tr then [slash] else [])"
      using rel st Cons by (auto simp: lexically_normal_def Let_def)
    have split: "split_slash (lexically_normal p) = ns @ (if tr then [[]] else [])"
      using eq split_join_plain [OF plain] Cons split_slash_append [of "join_slash ns" "[]"] by auto
    obtain t where t: "lexically_normal p = n @ t" using eq Cons join_slash_Cons [of n ns'] by auto
    have n: "n \<noteq> []" "n \<noteq> ''.''" using plain Cons by (simp_all add: plain_name_def)
    have "take 2 (n @ t) = ''..'' \<longleftrightarrow> take 2 n = ''..''"
    proof (cases n)
      case (Cons a n')
      then show ?thesis using n(2) by (cases n') (auto simp: numeral_2_eq_2)
    qed (use n in simp)
    then show ?thesis using that [OF split _ plain] t Cons by (cases tr) simp_all
  qed
qed

lemma lexically_normal_climbs:
  assumes rel: "\<not> is_absolute p" and w: "walk [] (split_slash p) = None"
  shows "take 2 (lexically_normal p) = ''..''"
proof -
  have names: "\<forall>w \<in> set (split_slash p). slash \<notin> set w" using split_slash_no_slash by blast
  from walk_None [OF w _ names] have st: "norm_stack p \<noteq> []" "last (norm_stack p) = ''..''"
    using rel by (simp_all add: norm_stack_def)
  then obtain ns where ns: "rev (norm_stack p) = ''..'' # ns" by (cases "norm_stack p" rule: rev_cases) auto
  obtain t where "join_slash (''..'' # ns) = ''..'' @ t" using join_slash_Cons by blast
  moreover have "p \<noteq> []" using w by auto
  ultimately show ?thesis using rel st(1) ns by (simp add: lexically_normal_def Let_def)
qed

text \<open>Keys: a path that stays inside leads to its names below the base, an absolute one to where it says.\<close>

lemma os_key_walk:
  assumes nul: "CHR 0x00 \<notin> set base" "CHR 0x00 \<notin> set p" and rel: "\<not> is_absolute p"
    and w: "walk [] (split_slash p) = Some ns" and ok: "take 2 (lexically_normal p) \<noteq> ''..''"
  shows "os_key here (path_append base (lexically_normal p)) = os_key here base @ ns"
proof -
  have "CHR 0x00 \<notin> set (lexically_normal p)" using nul(2) set_lexically_normal [of p] by auto
  then have "os_key here (path_append base (lexically_normal p)) =
      foldl key_step (os_key here base) (split_slash (lexically_normal p))"
    using os_key_append [OF nul(1) lexically_normal_relative [OF rel ok]] by (simp add: c_str_id)
  with rel w show ?thesis
    by (rule_tac lexically_normal_walk [of p ns]) (auto simp: foldl_key_step_plain key_step_def)
qed

lemma os_key_normal_absolute:
  assumes abs: "is_absolute p" and nul: "CHR 0x00 \<notin> set p"
  shows "os_key here (lexically_normal p) = os_key here p"
proof -
  let ?k = "foldl key_step [] (split_slash p)"
  have names: "\<forall>w \<in> set (split_slash p). slash \<notin> set w" using split_slash_no_slash by blast
  from walk_absolute [OF _ names, of "[]"] have st: "norm_stack p = rev ?k" and plain: "list_all plain_name ?k"
    using abs by (simp_all add: norm_stack_def)
  have "p \<noteq> []" using abs by (auto simp: is_absolute_def)
  then obtain tr where eq: "lexically_normal p = slash # join_slash ?k @ (if tr then [slash] else [])" "?k = [] \<longrightarrow> \<not> tr"
    using abs st by (auto simp: lexically_normal_def Let_def)
  have "split_slash (slash # t) = [] # split_slash t" for t using split_slash_append [of "[]" t] by simp
  then have split: "split_slash (lexically_normal p) = [] # (if ?k = [] then [[]] else ?k) @ (if tr then [[]] else [])"
    using eq split_join_plain [OF plain] split_slash_append [of "join_slash ?k" "[]"] by auto
  have "CHR 0x00 \<notin> set (lexically_normal p)" using nul set_lexically_normal [of p] by auto
  then show ?thesis
    using abs lexically_normal_absolute [OF abs] split foldl_key_step_plain [OF plain, of "[]"] nul
    by (auto simp: os_key_def c_str_id key_step_def)
qed

end
