(* ===== verification/Storage.thy ===== *)
theory Storage
  imports Paths "HOL-Library.AList"
begin

text \<open>
  The operating system's file tree and the calls of the C++ standard library on it that the
  server makes: \<^verbatim>\<open>std::filesystem\<close> queries, directory creation and rename, and the file streams
  (open, seek, read, write).  Nodes are addressed by the list of names from the root directory;
  the association list keeps the order in which a directory iterator delivers the entries.
  Failures are part of the state: which nodes may not be read or written, and the size at which
  the file system stops accepting data.
\<close>

section \<open>State\<close>

type_synonym key = "string list"

datatype node = Dir | File "byte list" int

record storage =
  nodes :: "(key \<times> node) list"
  cwd :: key
  no_read :: "key list"
  no_write :: "key list"
  max_file :: nat
  file_now :: int
  sys_now :: int

definition node_at :: "storage \<Rightarrow> key \<Rightarrow> node option" where
  "node_at fs k = (if k = [] then Some Dir else map_of (nodes fs) k)"

definition put_node :: "key \<Rightarrow> node \<Rightarrow> storage \<Rightarrow> storage" where
  "put_node k n fs = fs\<lparr>nodes := AList.update k n (nodes fs)\<rparr>"

text \<open>Every entry lies in a directory that is there, no name is listed twice, the root has no entry.\<close>

definition storage_wf :: "storage \<Rightarrow> bool" where
  "storage_wf fs \<longleftrightarrow>
     distinct (map fst (nodes fs)) \<and>
     list_all (\<lambda>(k, n). k \<noteq> [] \<and> node_at fs (butlast k) = Some Dir) (nodes fs)"

section \<open>Queries\<close>

definition os_node :: "storage \<Rightarrow> string \<Rightarrow> node option" where
  "os_node fs p =
     (if c_str p = [] then None
      else case node_at fs (os_key (cwd fs) p) of
        Some (File c t) \<Rightarrow> if dir_only p then None else Some (File c t)
      | r \<Rightarrow> r)"

definition fs_exists :: "storage \<Rightarrow> string \<Rightarrow> bool" where
  "fs_exists fs p \<longleftrightarrow> os_node fs p \<noteq> None"

definition fs_file_size :: "storage \<Rightarrow> string \<Rightarrow> u64 result" where
  "fs_file_size fs p =
     (case os_node fs p of
        Some (File c _) \<Rightarrow> Inr (word_of_nat (length c))
      | _ \<Rightarrow> Inl Filesystem_error)"

text \<open>Only times of files are recorded; a directory's time is left to the file clock's reading.\<close>

definition fs_last_write_time :: "storage \<Rightarrow> string \<Rightarrow> int result" where
  "fs_last_write_time fs p =
     (case os_node fs p of
        Some (File _ t) \<Rightarrow> Inr t
      | Some Dir \<Rightarrow> Inr (file_now fs)
      | None \<Rightarrow> Inl Filesystem_error)"

section \<open>Input streams\<close>

text \<open>
  \<^verbatim>\<open>std::ifstream\<close>: the node behind an opened stream, or nothing if it does not open.  A directory
  opens but cannot be read.
\<close>

definition open_in :: "storage \<Rightarrow> string \<Rightarrow> node option" where
  "open_in fs p =
     (case os_node fs p of
        Some n \<Rightarrow> if os_key (cwd fs) p \<in> set (no_read fs) then None else Some n
      | None \<Rightarrow> None)"

text \<open>Draining a stream through \<^verbatim>\<open>istreambuf_iterator\<close>.\<close>

fun drain_stream :: "node \<Rightarrow> byte list result" where
  "drain_stream (File c _) = Inr c"
| "drain_stream Dir = Inl Ios_failure"

text \<open>\<^verbatim>\<open>seekg\<close> to a signed offset (it fails below zero) followed by \<^verbatim>\<open>read\<close> of at most \<open>n\<close> bytes.\<close>

fun seek_read :: "node \<Rightarrow> int \<Rightarrow> nat \<Rightarrow> byte list" where
  "seek_read (File c _) off n = (if off < 0 then [] else take n (drop (nat off) c))"
| "seek_read Dir off n = []"

section \<open>Output streams\<close>

definition creatable :: "storage \<Rightarrow> key \<Rightarrow> bool" where
  "creatable fs k \<longleftrightarrow>
     k \<noteq> [] \<and> node_at fs (butlast k) = Some Dir \<and> butlast k \<notin> set (no_write fs)"

text \<open>Opening with \<^verbatim>\<open>out\<close> creates or truncates; opening with \<^verbatim>\<open>in | out\<close> needs an existing file.\<close>

definition open_trunc :: "storage \<Rightarrow> string \<Rightarrow> storage option" where
  "open_trunc fs p =
     (let k = os_key (cwd fs) p in
      if c_str p = [] \<or> dir_only p then None
      else case node_at fs k of
        Some Dir \<Rightarrow> None
      | Some (File _ _) \<Rightarrow>
          if k \<in> set (no_write fs) then None else Some (put_node k (File [] (file_now fs)) fs)
      | None \<Rightarrow> if creatable fs k then Some (put_node k (File [] (file_now fs)) fs) else None)"

definition open_inout :: "storage \<Rightarrow> string \<Rightarrow> bool" where
  "open_inout fs p \<longleftrightarrow>
     (let k = os_key (cwd fs) p in
      (case os_node fs p of Some (File _ _) \<Rightarrow> True | _ \<Rightarrow> False) \<and>
      k \<notin> set (no_read fs) \<and> k \<notin> set (no_write fs))"

text \<open>Contents after writing \<open>d\<close> at offset \<open>off\<close>: a gap is filled with zero bytes.\<close>

definition overwrite :: "byte list \<Rightarrow> nat \<Rightarrow> byte list \<Rightarrow> byte list" where
  "overwrite c off d =
     (if d = [] then c
      else take off (c @ replicate (off - length c) 0) @ d @ drop (off + length d) c)"

text \<open>
  \<^verbatim>\<open>seekp\<close>, \<^verbatim>\<open>write\<close> and \<^verbatim>\<open>flush\<close> on an open output stream; the result is \<^verbatim>\<open>good()\<close>.  A failed seek
  makes the write do nothing; beyond the size limit the data is cut off and the stream goes bad.
\<close>

definition seek_write :: "storage \<Rightarrow> key \<Rightarrow> int \<Rightarrow> byte list \<Rightarrow> bool \<times> storage" where
  "seek_write fs k off data =
     (case node_at fs k of
        Some (File c t) \<Rightarrow>
          if off < 0 then (False, fs)
          else let d = take (max_file fs - nat off) data
               in (length d = length data,
                   put_node k (File (overwrite c (nat off) d) (if d = [] then t else file_now fs)) fs)
      | _ \<Rightarrow> (False, fs))"

section \<open>Directories and rename\<close>

fun make_dirs :: "key \<Rightarrow> key \<Rightarrow> storage \<Rightarrow> bool \<times> storage" where
  "make_dirs done_part [] fs = (True, fs)"
| "make_dirs done_part (name # rest) fs =
     (let k = done_part @ [name] in
      case node_at fs k of
        Some Dir \<Rightarrow> make_dirs k rest fs
      | Some (File _ _) \<Rightarrow> (False, fs)
      | None \<Rightarrow>
          if done_part \<in> set (no_write fs) then (False, fs)
          else make_dirs k rest (put_node k Dir fs))"

definition create_directories :: "storage \<Rightarrow> string \<Rightarrow> bool \<times> storage" where
  "create_directories fs p =
     (if c_str p = [] then (False, fs) else make_dirs [] (os_key (cwd fs) p) fs)"

text \<open>
  \<^verbatim>\<open>rename(2)\<close>: a file replaces a file; a directory moves with everything below it to a name that is
  free or an empty directory outside itself.
\<close>

definition move_key :: "key \<Rightarrow> key \<Rightarrow> key \<Rightarrow> key" where
  "move_key src dst k = (if prefix src k then dst @ drop (length src) k else k)"

definition rename_allowed :: "storage \<Rightarrow> key \<Rightarrow> key \<Rightarrow> bool" where
  "rename_allowed fs src dst \<longleftrightarrow>
     src \<noteq> [] \<and> creatable fs dst \<and> butlast src \<notin> set (no_write fs) \<and>
     (case (node_at fs src, node_at fs dst) of
        (Some (File _ _), Some Dir) \<Rightarrow> False
      | (Some (File _ _), _) \<Rightarrow> True
      | (Some Dir, Some (File _ _)) \<Rightarrow> False
      | (Some Dir, _) \<Rightarrow> \<not> prefix src dst \<and> \<not> list_ex (\<lambda>(k, n). strict_prefix dst k) (nodes fs)
      | (None, _) \<Rightarrow> False)"

definition rename_key :: "key \<Rightarrow> key \<Rightarrow> storage \<Rightarrow> bool \<times> storage" where
  "rename_key src dst fs =
     (if src = dst then (node_at fs src \<noteq> None, fs)
      else if rename_allowed fs src dst
      then (True, fs\<lparr>nodes := map (\<lambda>(k, n). (move_key src dst k, n)) (AList.delete dst (nodes fs))\<rparr>)
      else (False, fs))"

definition fs_rename :: "storage \<Rightarrow> string \<Rightarrow> string \<Rightarrow> bool \<times> storage" where
  "fs_rename fs p q =
     (if os_node fs p = None \<or> c_str q = [] \<or>
         (dir_only q \<and> os_node fs p \<noteq> Some Dir)
      then (False, fs)
      else rename_key (os_key (cwd fs) p) (os_key (cwd fs) q) fs)"

section \<open>Look-up laws\<close>

lemma node_at_put [store_simps]:
  "node_at (put_node k n fs) k' = (if k' = k \<and> k \<noteq> [] then Some n else node_at fs k')"
  by (simp add: node_at_def put_node_def update_conv')

lemma put_node_fields [simp]:
  "cwd (put_node k n fs) = cwd fs" "no_read (put_node k n fs) = no_read fs"
  "no_write (put_node k n fs) = no_write fs" "max_file (put_node k n fs) = max_file fs"
  "file_now (put_node k n fs) = file_now fs" "sys_now (put_node k n fs) = sys_now fs"
  by (simp_all add: put_node_def)

lemma storage_wf_map_of:
  "storage_wf fs \<longleftrightarrow>
     distinct (map fst (nodes fs)) \<and> map_of (nodes fs) [] = None \<and>
     (\<forall>k. map_of (nodes fs) k \<noteq> None \<longrightarrow> node_at fs (butlast k) = Some Dir)"
proof -
  have "(\<forall>k. map_of (nodes fs) k \<noteq> None \<longrightarrow> P k) \<longleftrightarrow> (\<forall>x \<in> set (nodes fs). P (fst x))" for P
    by (auto simp: map_of_eq_None_iff)
  moreover have "map_of (nodes fs) [] = None \<longleftrightarrow> (\<forall>x \<in> set (nodes fs). fst x \<noteq> [])"
    by (force simp: map_of_eq_None_iff)
  ultimately show ?thesis
    by (auto simp: storage_wf_def list_all_iff split_beta)
qed

lemma node_at_iff:
  assumes "storage_wf fs"
  shows "node_at fs k = Some n \<longleftrightarrow> (k = [] \<and> n = Dir) \<or> (k, n) \<in> set (nodes fs)"
  using assms by (auto simp: storage_wf_def node_at_def list_all_iff)

lemma parent_dir:
  assumes "storage_wf fs" and "node_at fs k = Some n"
  shows "node_at fs (butlast k) = Some Dir"
  using assms by (cases "k = []") (auto simp: storage_wf_map_of node_at_def)

lemma ancestor_dir:
  assumes "storage_wf fs" and "node_at fs k' \<noteq> None" and "strict_prefix k k'"
  shows "node_at fs k = Some Dir"
  using assms(2,3)
proof (induction k' rule: rev_induct)
  case (snoc x xs)
  then have "node_at fs xs = Some Dir"
    using parent_dir [OF assms(1)] by (metis butlast_snoc option.exhaust)
  moreover have "k = xs \<or> strict_prefix k xs"
    using snoc.prems(2) by (auto simp: strict_prefix_def)
  ultimately show ?case using snoc.IH by auto
qed (simp add: strict_prefix_def)

lemma storage_wf_put:
  assumes wf: "storage_wf fs" and k: "k \<noteq> []" "node_at fs (butlast k) = Some Dir"
    and keep: "node_at fs k = Some Dir \<Longrightarrow> n = Dir"
  shows "storage_wf (put_node k n fs)"
proof -
  have "distinct (map fst (nodes (put_node k n fs)))"
    using wf by (simp add: storage_wf_def put_node_def distinct_update)
  moreover have "node_at (put_node k n fs) (butlast k') = Some Dir"
    if "map_of (nodes (put_node k n fs)) k' \<noteq> None" for k'
  proof (cases "k' = k")
    case True
    have "butlast k \<noteq> k" using k(1) by (metis append_butlast_last_id append_self_conv not_Cons_self2)
    with True k show ?thesis by (simp add: node_at_put)
  next
    case False
    with that have "node_at fs (butlast k') = Some Dir"
      using wf by (auto simp: storage_wf_map_of put_node_def update_conv')
    with keep show ?thesis by (auto simp: node_at_put)
  qed
  ultimately show ?thesis
    using wf k(1) by (simp add: storage_wf_map_of put_node_def update_conv')
qed

section \<open>Every call keeps the tree well formed\<close>

lemma open_trunc_wf:
  assumes "storage_wf fs" and "open_trunc fs p = Some fs'"
  shows "storage_wf fs'"
proof -
  let ?k = "os_key (cwd fs) p"
  from assms(2) have fs': "fs' = put_node ?k (File [] (file_now fs)) fs"
    and dir: "node_at fs ?k \<noteq> Some Dir" and or: "creatable fs ?k \<or> node_at fs ?k \<noteq> None"
    by (auto simp: open_trunc_def Let_def split: if_splits option.splits node.splits)
  then have "?k \<noteq> []" by (auto simp: node_at_def)
  moreover have "node_at fs (butlast ?k) = Some Dir"
    using or parent_dir [OF assms(1)] by (auto simp: creatable_def)
  ultimately show ?thesis
    using assms(1) dir unfolding fs' by (intro storage_wf_put) auto
qed

lemma open_trunc_node:
  assumes "open_trunc fs p = Some fs'"
  shows "fs' = put_node (os_key (cwd fs) p) (File [] (file_now fs)) fs" and "os_key (cwd fs) p \<noteq> []"
    and "\<not> dir_only p" and "c_str p \<noteq> []"
  using assms by (auto simp: open_trunc_def Let_def creatable_def node_at_def split: if_splits option.splits node.splits)

lemma seek_write_wf:
  assumes "storage_wf fs"
  shows "storage_wf (snd (seek_write fs k off data))"
proof (cases "node_at fs k")
  case (Some n)
  then have "node_at fs (butlast k) = Some Dir" using parent_dir [OF assms] by blast
  with Some assms show ?thesis
    by (cases n) (auto simp: seek_write_def Let_def node_at_def split: if_splits intro!: storage_wf_put)
qed (use assms in \<open>simp add: seek_write_def\<close>)

lemma make_dirs_wf:
  assumes "storage_wf fs" and "node_at fs base = Some Dir"
  shows "storage_wf (snd (make_dirs base rest fs))"
  using assms
proof (induction base rest fs rule: make_dirs.induct)
  case (2 base name rest fs)
  show ?case
  proof (cases "node_at fs (base @ [name])")
    case None
    with 2 have "storage_wf (put_node (base @ [name]) Dir fs)"
      by (intro storage_wf_put) auto
    with None 2 show ?thesis by (auto simp: Let_def node_at_put)
  next
    case (Some n)
    with 2 show ?thesis by (cases n) (auto simp: Let_def)
  qed
qed simp

lemma create_directories_wf: "storage_wf fs \<Longrightarrow> storage_wf (snd (create_directories fs p))"
  by (auto simp: create_directories_def node_at_def intro: make_dirs_wf)

text \<open>Creating directories never changes a node that is there.\<close>

lemma make_dirs_effect:
  "node_at (snd (make_dirs base rest fs)) k = node_at fs k \<or>
   node_at fs k = None \<and> node_at (snd (make_dirs base rest fs)) k = Some Dir"
proof (induction base rest fs rule: make_dirs.induct)
  case (2 base name rest fs)
  then show ?case
    by (cases "k = base @ [name]")
      (auto simp: Let_def node_at_put split: option.splits node.splits)
qed simp

lemma create_directories_effect:
  "node_at (snd (create_directories fs p)) k = node_at fs k \<or>
   node_at fs k = None \<and> node_at (snd (create_directories fs p)) k = Some Dir"
  using make_dirs_effect by (auto simp: create_directories_def)

lemma make_dirs_fields [simp]:
  "cwd (snd (make_dirs base rest fs)) = cwd fs" "no_read (snd (make_dirs base rest fs)) = no_read fs"
  "no_write (snd (make_dirs base rest fs)) = no_write fs" "max_file (snd (make_dirs base rest fs)) = max_file fs"
  "file_now (snd (make_dirs base rest fs)) = file_now fs" "sys_now (snd (make_dirs base rest fs)) = sys_now fs"
  by (induction base rest fs rule: make_dirs.induct) (auto simp: Let_def split: option.splits node.splits)


lemma create_directories_fields [simp]:
  "cwd (snd (create_directories fs p)) = cwd fs" "no_read (snd (create_directories fs p)) = no_read fs"
  "no_write (snd (create_directories fs p)) = no_write fs"
  "max_file (snd (create_directories fs p)) = max_file fs"
  "file_now (snd (create_directories fs p)) = file_now fs" "sys_now (snd (create_directories fs p)) = sys_now fs"
  by (simp_all add: create_directories_def)

text \<open>When all missing directories could be made, the path names a directory.\<close>

lemma make_dirs_result:
  "node_at fs base = Some Dir \<Longrightarrow> fst (make_dirs base rest fs) \<Longrightarrow>
     node_at (snd (make_dirs base rest fs)) (base @ rest) = Some Dir"
proof (induction base rest fs rule: make_dirs.induct)
  case (2 base name rest fs)
  then show ?case
    by (auto simp: Let_def node_at_put split: option.splits node.splits if_splits)
qed simp

section \<open>Rename\<close>

lemma file_leaf:
  assumes "storage_wf fs" and "node_at fs k = Some (File c t)" and "node_at fs k' \<noteq> None" and "prefix k k'"
  shows "k' = k"
  using ancestor_dir [OF assms(1,3)] assms(2,4) by (metis node.distinct(1) option.inject strict_prefixI)

lemma rename_no_below:
  assumes wf: "storage_wf fs" and ok: "rename_allowed fs src dst" and k: "node_at fs k \<noteq> None"
  shows "\<not> strict_prefix dst k"
proof
  assume below: "strict_prefix dst k"
  then have "node_at fs dst = Some Dir" "k \<noteq> []"
    using ancestor_dir [OF wf k] by auto
  moreover have "\<exists>n. (k, n) \<in> set (nodes fs)"
    using k \<open>k \<noteq> []\<close> node_at_iff [OF wf] by (metis not_None_eq)
  ultimately show False
    using ok below by (auto simp: rename_allowed_def list_ex_iff split: option.splits node.splits)
qed

lemma rename_dst_outside:
  assumes wf: "storage_wf fs" and ok: "rename_allowed fs src dst"
  shows "\<not> prefix src (butlast dst)"
proof
  assume pre: "prefix src (butlast dst)"
  have dir: "node_at fs (butlast dst) = Some Dir"
    using ok by (simp add: rename_allowed_def creatable_def)
  show False
  proof (cases "node_at fs src")
    case (Some n)
    show False
    proof (cases n)
      case Dir
      with Some ok have "\<not> prefix src dst"
        by (auto simp: rename_allowed_def split: option.splits node.splits)
      with pre show False by (metis prefix_order.trans prefixeq_butlast)
    next
      case (File c t)
      with Some dir file_leaf [OF wf _ _ pre] show False by force
    qed
  qed (use ok in \<open>auto simp: rename_allowed_def\<close>)
qed

lemma move_key_inj:
  assumes wf: "storage_wf fs" and ok: "rename_allowed fs src dst"
  shows "inj_on (move_key src dst) {k. node_at fs k \<noteq> None \<and> k \<noteq> dst}"
proof (rule inj_onI)
  fix k k'
  assume k: "k \<in> {k. node_at fs k \<noteq> None \<and> k \<noteq> dst}" and k': "k' \<in> {k. node_at fs k \<noteq> None \<and> k \<noteq> dst}"
    and eq: "move_key src dst k = move_key src dst k'"
  have *: False if "prefix src a" "\<not> prefix src b" "dst @ drop (length src) a = b" "node_at fs b \<noteq> None" "b \<noteq> dst" for a b
  proof -
    have "strict_prefix dst b" using that(3,5) by (metis prefixI strict_prefixI)
    with rename_no_below [OF wf ok that(4)] show False by blast
  qed
  show "k = k'"
  proof (cases "prefix src k"; cases "prefix src k'")
    assume "prefix src k" "prefix src k'"
    moreover from this have "drop (length src) k = drop (length src) k'"
      using eq by (simp add: move_key_def)
    ultimately show ?thesis by (metis append_eq_conv_conj prefix_def)
  next
    assume "prefix src k" "\<not> prefix src k'"
    then have "dst @ drop (length src) k = k'" using eq by (simp add: move_key_def)
    with \<open>prefix src k\<close> \<open>\<not> prefix src k'\<close> * [of k k'] k' show ?thesis by blast
  next
    assume "\<not> prefix src k" "prefix src k'"
    then have "dst @ drop (length src) k' = k" using eq by (simp add: move_key_def)
    with \<open>prefix src k'\<close> \<open>\<not> prefix src k\<close> * [of k' k] k show ?thesis by blast
  next
    assume "\<not> prefix src k" "\<not> prefix src k'"
    with eq show ?thesis by (simp add: move_key_def)
  qed
qed

lemma rename_nodes:
  assumes wf: "storage_wf fs" and ok: "rename_allowed fs src dst" and ne: "src \<noteq> dst"
    and fs': "rename_key src dst fs = (True, fs')"
  shows "distinct (map fst (nodes fs'))"
    and "(k', n) \<in> set (nodes fs') \<longleftrightarrow> (\<exists>k. k' = move_key src dst k \<and> k \<noteq> dst \<and> (k, n) \<in> set (nodes fs))"
proof -
  let ?D = "AList.delete dst (nodes fs)"
  have nodes': "nodes fs' = map (\<lambda>(k, n). (move_key src dst k, n)) ?D"
    using fs' ok ne by (auto simp: rename_key_def)
  have set_D: "set ?D = {(k, n). (k, n) \<in> set (nodes fs) \<and> k \<noteq> dst}"
    by (auto simp: AList.delete_eq)
  have "fst ` set ?D \<subseteq> {k. node_at fs k \<noteq> None \<and> k \<noteq> dst}"
    using node_at_iff [OF wf] unfolding set_D by force
  then have "inj_on (move_key src dst) (set (map fst ?D))"
    using move_key_inj [OF wf ok] by (simp add: inj_on_subset)
  moreover have "distinct (map fst ?D)"
    using wf by (simp add: storage_wf_def distinct_delete)
  moreover have "map fst (nodes fs') = map (move_key src dst) (map fst ?D)"
    by (simp add: nodes' split_beta comp_def)
  ultimately show "distinct (map fst (nodes fs'))"
    by (simp only: distinct_map)
  show "(k', n) \<in> set (nodes fs') \<longleftrightarrow> (\<exists>k. k' = move_key src dst k \<and> k \<noteq> dst \<and> (k, n) \<in> set (nodes fs))"
    unfolding nodes' by (auto simp: set_D)
qed

lemma rename_parent_kept:
  assumes wf: "storage_wf fs" and ok: "rename_allowed fs src dst" and ne: "src \<noteq> dst"
    and fs': "rename_key src dst fs = (True, fs')"
    and k: "k \<noteq> dst" "(k, n) \<in> set (nodes fs)"
  shows "move_key src dst k \<noteq> [] \<and>
    (butlast (move_key src dst k) = [] \<or> (butlast (move_key src dst k), Dir) \<in> set (nodes fs'))"
proof -
  have dst: "dst \<noteq> []" and dst_dir: "node_at fs (butlast dst) = Some Dir"
    using ok by (auto simp: rename_allowed_def creatable_def)
  have entry: "(move_key src dst k, Dir) \<in> set (nodes fs') \<or> move_key src dst k = []"
    if "node_at fs k = Some Dir" "k \<noteq> dst" for k
    using that rename_nodes(2) [OF wf ok ne fs'] node_at_iff [OF wf, of k Dir] ok
    by (auto simp: move_key_def rename_allowed_def)
  have k_ne: "k \<noteq> []" and k_node: "node_at fs k = Some n" and k_dir: "node_at fs (butlast k) = Some Dir"
    using k(2) wf node_at_iff [OF wf] by (auto simp: storage_wf_def list_all_iff)
  consider (outside) "\<not> prefix src k" | (itself) "k = src" | (below) "strict_prefix src k"
    by (auto simp: strict_prefix_def)
  then show ?thesis
  proof cases
    case outside
    then have "\<not> prefix src (butlast k)" by (auto dest: prefix_order.trans [OF _ prefixeq_butlast])
    moreover have "butlast k \<noteq> dst"
      using rename_no_below [OF wf ok, of k] k_node k_ne
      by (metis append_butlast_last_id append_self_conv not_Cons_self2 option.distinct(1) prefixI strict_prefixI)
    ultimately show ?thesis using entry [OF k_dir] outside k_ne by (auto simp: move_key_def)
  next
    case itself
    have "butlast dst \<noteq> dst" using dst by (metis append_butlast_last_id append_self_conv not_Cons_self2)
    with entry [OF dst_dir] rename_dst_outside [OF wf ok] itself dst show ?thesis by (auto simp: move_key_def)
  next
    case below
    have "node_at fs src = Some Dir" using ancestor_dir [OF wf, of k src] k_node below by auto
    then have "\<not> prefix src dst"
      using ok by (auto simp: rename_allowed_def split: option.splits node.splits)
    moreover have "prefix src (butlast k)"
      using below k_ne by (metis append_butlast_last_id prefix_snoc strict_prefix_def)
    ultimately have "butlast k \<noteq> dst" and "move_key src dst (butlast k) = butlast (move_key src dst k)"
      using below k_ne by (auto simp: move_key_def strict_prefix_def prefix_def butlast_append)
    with entry [OF k_dir] below dst show ?thesis by (auto simp: move_key_def)
  qed
qed

lemma rename_key_wf:
  assumes wf: "storage_wf fs" and fs': "rename_key src dst fs = (ok, fs')"
  shows "storage_wf fs'"
proof (cases "src \<noteq> dst \<and> rename_allowed fs src dst")
  case False
  then show ?thesis using assms by (auto simp: rename_key_def split: if_splits)
next
  case True
  then have allowed: "rename_allowed fs src dst" and ne: "src \<noteq> dst" by auto
  then have "rename_key src dst fs = (True, fs')"
    using fs' by (auto simp: rename_key_def)
  note nodes' = rename_nodes [OF wf allowed ne this] and parents = rename_parent_kept [OF wf allowed ne this]
  have "k' \<noteq> [] \<and> (butlast k' = [] \<or> (butlast k', Dir) \<in> set (nodes fs'))" if k': "(k', n) \<in> set (nodes fs')" for k' n
  proof -
    obtain k where "k' = move_key src dst k" "k \<noteq> dst" "(k, n) \<in> set (nodes fs)"
      using k' nodes'(2) by blast
    with parents show ?thesis by simp
  qed
  then show ?thesis
    using nodes'(1) by (fastforce simp: storage_wf_def list_all_iff node_at_def)
qed

text \<open>Renaming a file: its contents appear under the new name, the old name is gone, nothing else moves.\<close>

lemma rename_file:
  assumes wf: "storage_wf fs" and leaf: "node_at fs src = Some (File c t)"
    and ok: "rename_allowed fs src dst" and ne: "src \<noteq> dst"
    and fs': "rename_key src dst fs = (True, fs')"
  shows "node_at fs' k = (if k = dst then Some (File c t) else if k = src then None else node_at fs k)"
proof -
  have wf': "storage_wf fs'" using rename_key_wf [OF wf fs'] .
  have only: "prefix src k' \<longleftrightarrow> k' = src" if "(k', n) \<in> set (nodes fs)" for k' n
    using file_leaf [OF wf leaf, of k'] that node_at_iff [OF wf] by (metis option.distinct(1) prefix_order.refl)
  have src: "src \<noteq> []" "dst \<noteq> []" using ok by (auto simp: rename_allowed_def creatable_def)
  have in_src: "(src, n) \<in> set (nodes fs) \<longleftrightarrow> n = File c t" for n
    using node_at_iff [OF wf, of src n] leaf src by auto
  have iff: "(k', n) \<in> set (nodes fs') \<longleftrightarrow>
      k' = dst \<and> n = File c t \<or> k' \<noteq> src \<and> k' \<noteq> dst \<and> (k', n) \<in> set (nodes fs)" for k' n
    unfolding rename_nodes(2) [OF wf ok ne fs']
    using only in_src ne by (auto simp: move_key_def)
  have "node_at fs' k = Some n \<longleftrightarrow>
      (if k = dst then Some (File c t) else if k = src then None else node_at fs k) = Some n" for n
    unfolding node_at_iff [OF wf'] iff using node_at_iff [OF wf, of k n] src by auto
  then show ?thesis by (metis option.exhaust)
qed

section \<open>Contents of files\<close>

text \<open>The contents of a regular file.\<close>

definition file_at :: "storage \<Rightarrow> key \<Rightarrow> byte list option" where
  "file_at fs k = (case node_at fs k of Some (File c _) \<Rightarrow> Some c | _ \<Rightarrow> None)"

lemma file_at_put [store_simps]:
  "file_at (put_node k n fs) k' =
     (if k' = k \<and> k \<noteq> [] then (case n of File c _ \<Rightarrow> Some c | Dir \<Rightarrow> None) else file_at fs k')"
  by (simp add: file_at_def node_at_put split: node.splits)

lemma file_at_create_directories [simp]:
  "file_at (snd (create_directories fs p)) k = file_at fs k"
  using create_directories_effect [of fs p k] by (auto simp: file_at_def)

lemma make_dirs_ok:
  assumes "no_write fs = []" and "\<And>i. case node_at fs (base @ take (Suc i) rest) of Some (File _ _) \<Rightarrow> False | _ \<Rightarrow> True"
  shows "fst (make_dirs base rest fs)"
  using assms
proof (induction base rest fs rule: make_dirs.induct)
  case (2 base name rest fs)
  have later: "case node_at fs ((base @ [name]) @ take (Suc i) rest) of Some (File _ _) \<Rightarrow> False | _ \<Rightarrow> True" for i
    using 2(4) [of "Suc i"] by simp
  show ?case
  proof (cases "node_at fs (base @ [name])")
    case None
    have "case node_at (put_node (base @ [name]) Dir fs) ((base @ [name]) @ take (Suc i) rest) of
        Some (File _ _) \<Rightarrow> False | _ \<Rightarrow> True" for i
      using later [of i] by (simp add: node_at_put)
    with None 2 show ?thesis by (simp add: Let_def)
  next
    case (Some n)
    with 2(4) [of 0] have "n = Dir" by (cases n) simp_all
    with Some 2 later show ?thesis by (simp add: Let_def)
  qed
qed simp

text \<open>Writing at an offset, byte by byte.\<close>

lemma length_overwrite: "length (overwrite c off d) = (if d = [] then length c else max (length c) (off + length d))"
  by (auto simp: overwrite_def)

lemma nth_overwrite:
  assumes "j < length (overwrite c off d)"
  shows "overwrite c off d ! j =
    (if off \<le> j \<and> j < off + length d then d ! (j - off) else if j < length c then c ! j else 0)"
  using assms by (auto simp: overwrite_def nth_append min_def split: if_splits)

lemma overwrite_start [simp]: "overwrite [] 0 d = d"
  by (simp add: overwrite_def)

section \<open>File sizes\<close>

text \<open>No file is longer than the file system allows.\<close>

definition files_bounded :: "storage \<Rightarrow> bool" where
  "files_bounded fs \<longleftrightarrow>
     list_all (\<lambda>(k, n). case n of File c _ \<Rightarrow> length c \<le> max_file fs | Dir \<Rightarrow> True) (nodes fs)"

lemma files_bounded_at:
  assumes "files_bounded fs" and "file_at fs k = Some c"
  shows "length c \<le> max_file fs"
proof -
  obtain t where "(k, File c t) \<in> set (nodes fs)"
    using assms(2) by (auto simp: file_at_def node_at_def split: option.splits node.splits if_splits dest: map_of_SomeD)
  then show ?thesis using assms(1) by (fastforce simp: files_bounded_def list_all_iff)
qed

lemma set_alist_update: "set (AList.update k v xs) \<subseteq> insert (k, v) (set xs)"
  by (induction xs) auto

lemma files_bounded_put:
  assumes "files_bounded fs" and "case n of File c _ \<Rightarrow> length c \<le> max_file fs | Dir \<Rightarrow> True"
  shows "files_bounded (put_node k n fs)"
  using assms set_alist_update [of k n "nodes fs"] by (fastforce simp: files_bounded_def put_node_def list_all_iff)

lemma open_trunc_bounded:
  assumes "files_bounded fs" and "open_trunc fs p = Some fs'"
  shows "files_bounded fs'" and "max_file fs' = max_file fs"
  using assms by (auto simp: open_trunc_def Let_def intro!: files_bounded_put split: option.splits node.splits if_splits)

lemma seek_write_bounded:
  assumes "files_bounded fs"
  shows "files_bounded (snd (seek_write fs k off data))" and "max_file (snd (seek_write fs k off data)) = max_file fs"
proof -
  have "length c \<le> max_file fs" if "node_at fs k = Some (File c t)" for c t
    using files_bounded_at [OF assms, of k c] that by (simp add: file_at_def)
  then show "files_bounded (snd (seek_write fs k off data))"
    using assms
    by (auto simp: seek_write_def Let_def length_overwrite intro!: files_bounded_put split: option.split node.split)
  show "max_file (snd (seek_write fs k off data)) = max_file fs"
    by (auto simp: seek_write_def Let_def split: option.split node.split)
qed

lemma make_dirs_bounded: "files_bounded fs \<Longrightarrow> files_bounded (snd (make_dirs base rest fs))"
  by (induction base rest fs rule: make_dirs.induct)
    (auto simp: Let_def files_bounded_put split: option.split node.split)

lemma create_directories_bounded: "files_bounded fs \<Longrightarrow> files_bounded (snd (create_directories fs p))"
  by (simp add: create_directories_def make_dirs_bounded)

lemma rename_bounded:
  assumes "files_bounded fs"
  shows "files_bounded (snd (fs_rename fs p q))" and "max_file (snd (fs_rename fs p q)) = max_file fs"
  using assms by (auto simp: fs_rename_def rename_key_def files_bounded_def list_all_iff AList.delete_eq)

end
