(* ===== verification/Checksums.thy ===== *)
theory Checksums
  imports Prelude
begin

text \<open>
  The three checksum routines of the server: the embedded SHA-256 of
  \<^verbatim>\<open>src/server/src/file_manager.cpp\<close> with its hexadecimal printer, the second, inlined SHA-256 of
  \<^verbatim>\<open>src/server/src/delta_sync_handler.cpp\<close>, and the Adler-32 checksum there.  The reference
  definitions \<open>fips_sha256\<close> (after FIPS 180-4) and \<open>adler_ref\<close> say what they have to compute.
\<close>

section \<open>SHA-256 of the file manager\<close>

definition SHA256_K :: "u32 list" where
  "SHA256_K = concat [
     [0x428a2f98, 0x71374491, 0xb5c0fbcf, 0xe9b5dba5],
     [0x3956c25b, 0x59f111f1, 0x923f82a4, 0xab1c5ed5],
     [0xd807aa98, 0x12835b01, 0x243185be, 0x550c7dc3],
     [0x72be5d74, 0x80deb1fe, 0x9bdc06a7, 0xc19bf174],
     [0xe49b69c1, 0xefbe4786, 0x0fc19dc6, 0x240ca1cc],
     [0x2de92c6f, 0x4a7484aa, 0x5cb0a9dc, 0x76f988da],
     [0x983e5152, 0xa831c66d, 0xb00327c8, 0xbf597fc7],
     [0xc6e00bf3, 0xd5a79147, 0x06ca6351, 0x14292967],
     [0x27b70a85, 0x2e1b2138, 0x4d2c6dfc, 0x53380d13],
     [0x650a7354, 0x766a0abb, 0x81c2c92e, 0x92722c85],
     [0xa2bfe8a1, 0xa81a664b, 0xc24b8b70, 0xc76c51a3],
     [0xd192e819, 0xd6990624, 0xf40e3585, 0x106aa070],
     [0x19a4c116, 0x1e376c08, 0x2748774c, 0x34b0bcb5],
     [0x391c0cb3, 0x4ed8aa4a, 0x5b9cca4f, 0x682e6ff3],
     [0x748f82ee, 0x78a5636f, 0x84c87814, 0x8cc70208],
     [0x90befffa, 0xa4506ceb, 0xbef9a3f7, 0xc67178f2]]"

type_synonym hash8 = "u32 \<times> u32 \<times> u32 \<times> u32 \<times> u32 \<times> u32 \<times> u32 \<times> u32"

definition rotr :: "u32 \<Rightarrow> nat \<Rightarrow> u32" where
  "rotr x n = drop_bit n x OR push_bit (32 - n) x"

definition sha256_init :: hash8 where
  "sha256_init = (0x6a09e667, 0xbb67ae85, 0x3c6ef372, 0xa54ff53a,
                  0x510e527f, 0x9b05688c, 0x1f83d9ab, 0x5be0cd19)"

text \<open>
  Padding: a zeroed buffer of \<^verbatim>\<open>padded_len\<close> bytes, the message copied to its front, the marker byte,
  and the eight stores of the bit length from the end.
\<close>

definition sha256_padded_len :: "nat \<Rightarrow> nat" where
  "sha256_padded_len len = ((len + 8) div 64 + 1) * 64"

definition sha256_pad :: "byte list \<Rightarrow> byte list" where
  "sha256_pad data =
     (let len = length data;
          bit_len = word_of_nat len * 8 :: u64;
          padded_len = sha256_padded_len len;
          padded = (data @ replicate (padded_len - len) 0)[len := 0x80]
      in fold (\<lambda>i p. p[padded_len - 1 - i := ucast (drop_bit (i * 8) bit_len)]) [0..<8] padded)"

definition sha256_load :: "byte list \<Rightarrow> nat \<Rightarrow> u32 list" where
  "sha256_load padded offset =
     map (\<lambda>i. push_bit 24 (ucast (padded ! (offset + i * 4)))
            OR push_bit 16 (ucast (padded ! (offset + i * 4 + 1)))
            OR push_bit 8 (ucast (padded ! (offset + i * 4 + 2)))
            OR ucast (padded ! (offset + i * 4 + 3))) [0..<16]"

definition sha256_extend :: "u32 list \<Rightarrow> u32 list" where
  "sha256_extend w16 =
     fold (\<lambda>i w.
         let s0 = rotr (w ! (i - 15)) 7 XOR rotr (w ! (i - 15)) 18 XOR drop_bit 3 (w ! (i - 15));
             s1 = rotr (w ! (i - 2)) 17 XOR rotr (w ! (i - 2)) 19 XOR drop_bit 10 (w ! (i - 2))
         in w @ [w ! (i - 16) + s0 + w ! (i - 7) + s1]) [16..<64] w16"

definition sha256_round :: "u32 list \<Rightarrow> nat \<Rightarrow> hash8 \<Rightarrow> hash8" where
  "sha256_round w i = (\<lambda>(a, b, c, d, e, f, g, hh).
     let S1 = rotr e 6 XOR rotr e 11 XOR rotr e 25;
         ch = (e AND f) XOR (NOT e AND g);
         temp1 = hh + S1 + ch + SHA256_K ! i + w ! i;
         S0 = rotr a 2 XOR rotr a 13 XOR rotr a 22;
         maj = (a AND b) XOR (a AND c) XOR (b AND c);
         temp2 = S0 + maj
     in (temp1 + temp2, a, b, c, d + temp1, e, f, g))"

definition hash8_add :: "hash8 \<Rightarrow> hash8 \<Rightarrow> hash8" where
  "hash8_add = (\<lambda>(h0, h1, h2, h3, h4, h5, h6, h7) (a, b, c, d, e, f, g, hh).
     (h0 + a, h1 + b, h2 + c, h3 + d, h4 + e, h5 + f, h6 + g, h7 + hh))"

definition sha256_block :: "byte list \<Rightarrow> nat \<Rightarrow> hash8 \<Rightarrow> hash8" where
  "sha256_block padded offset h =
     (let w = sha256_extend (sha256_load padded offset)
      in hash8_add h (fold (sha256_round w) [0..<64] h))"

definition sha256_words :: "byte list \<Rightarrow> hash8" where
  "sha256_words data =
     fold (\<lambda>j. sha256_block (sha256_pad data) (j * 64))
       [0..<sha256_padded_len (length data) div 64] sha256_init"

definition put_digest32 :: "u32 \<Rightarrow> byte list" where
  "put_digest32 val =
     [ucast (drop_bit 24 val), ucast (drop_bit 16 val), ucast (drop_bit 8 val), ucast val]"

definition sha256_raw :: "byte list \<Rightarrow> byte list" where
  "sha256_raw data = (case sha256_words data of (h0, h1, h2, h3, h4, h5, h6, h7) \<Rightarrow>
     put_digest32 h0 @ put_digest32 h1 @ put_digest32 h2 @ put_digest32 h3 @
     put_digest32 h4 @ put_digest32 h5 @ put_digest32 h6 @ put_digest32 h7)"

definition hex_chars :: string where
  "hex_chars = ''0123456789abcdef''"

definition to_hex :: "byte list \<Rightarrow> string" where
  "to_hex data =
     concat (map (\<lambda>b. [hex_chars ! unat (drop_bit 4 b), hex_chars ! unat (b AND 0x0F)]) data)"

section \<open>SHA-256 and Adler-32 of the delta-sync handler\<close>

text \<open>
  \<^verbatim>\<open>DeltaSyncHandler::sha256_hex\<close> is a second copy of the algorithm, with its own constant table, that
  prints the digest nibble by nibble.
\<close>

definition delta_SHA256_K :: "u32 list" where
  "delta_SHA256_K = concat [
     [0x428a2f98, 0x71374491, 0xb5c0fbcf, 0xe9b5dba5],
     [0x3956c25b, 0x59f111f1, 0x923f82a4, 0xab1c5ed5],
     [0xd807aa98, 0x12835b01, 0x243185be, 0x550c7dc3],
     [0x72be5d74, 0x80deb1fe, 0x9bdc06a7, 0xc19bf174],
     [0xe49b69c1, 0xefbe4786, 0x0fc19dc6, 0x240ca1cc],
     [0x2de92c6f, 0x4a7484aa, 0x5cb0a9dc, 0x76f988da],
     [0x983e5152, 0xa831c66d, 0xb00327c8, 0xbf597fc7],
     [0xc6e00bf3, 0xd5a79147, 0x06ca6351, 0x14292967],
     [0x27b70a85, 0x2e1b2138, 0x4d2c6dfc, 0x53380d13],
     [0x650a7354, 0x766a0abb, 0x81c2c92e, 0x92722c85],
     [0xa2bfe8a1, 0xa81a664b, 0xc24b8b70, 0xc76c51a3],
     [0xd192e819, 0xd6990624, 0xf40e3585, 0x106aa070],
     [0x19a4c116, 0x1e376c08, 0x2748774c, 0x34b0bcb5],
     [0x391c0cb3, 0x4ed8aa4a, 0x5b9cca4f, 0x682e6ff3],
     [0x748f82ee, 0x78a5636f, 0x84c87814, 0x8cc70208],
     [0x90befffa, 0xa4506ceb, 0xbef9a3f7, 0xc67178f2]]"

definition delta_pad :: "byte list \<Rightarrow> byte list" where
  "delta_pad data =
     (let len = length data;
          bit_len = word_of_nat len * 8 :: u64;
          padded_len = ((len + 8) div 64 + 1) * 64;
          padded = (data @ replicate (padded_len - len) 0)[len := 0x80]
      in fold (\<lambda>i p. p[padded_len - 1 - i := ucast (drop_bit (i * 8) bit_len)]) [0..<8] padded)"

definition delta_schedule :: "byte list \<Rightarrow> nat \<Rightarrow> u32 list" where
  "delta_schedule padded off =
     (let w16 = map (\<lambda>i. push_bit 24 (ucast (padded ! (off + i * 4)))
            OR push_bit 16 (ucast (padded ! (off + i * 4 + 1)))
            OR push_bit 8 (ucast (padded ! (off + i * 4 + 2)))
            OR ucast (padded ! (off + i * 4 + 3))) [0..<16]
      in fold (\<lambda>i w.
         let s0 = rotr (w ! (i - 15)) 7 XOR rotr (w ! (i - 15)) 18 XOR drop_bit 3 (w ! (i - 15));
             s1 = rotr (w ! (i - 2)) 17 XOR rotr (w ! (i - 2)) 19 XOR drop_bit 10 (w ! (i - 2))
         in w @ [w ! (i - 16) + s0 + w ! (i - 7) + s1]) [16..<64] w16)"

definition delta_block :: "byte list \<Rightarrow> nat \<Rightarrow> hash8 \<Rightarrow> hash8" where
  "delta_block padded off h =
     (let w = delta_schedule padded off;
          (h0, h1, h2, h3, h4, h5, h6, h7) = h;
          (a, b, c, d, e, f, g, hh) =
            fold (\<lambda>i (a, b, c, d, e, f, g, hh).
               let S1 = rotr e 6 XOR rotr e 11 XOR rotr e 25;
                   ch = (e AND f) XOR (NOT e AND g);
                   t1 = hh + S1 + ch + delta_SHA256_K ! i + w ! i;
                   S0 = rotr a 2 XOR rotr a 13 XOR rotr a 22;
                   maj = (a AND b) XOR (a AND c) XOR (b AND c);
                   t2 = S0 + maj
               in (t1 + t2, a, b, c, d + t1, e, f, g)) [0..<64] h
      in (h0 + a, h1 + b, h2 + c, h3 + d, h4 + e, h5 + f, h6 + g, h7 + hh))"

definition delta_hex_word :: "u32 \<Rightarrow> string" where
  "delta_hex_word h =
     map (\<lambda>k. hex_chars ! unat (drop_bit k h AND 0xF)) [28, 24, 20, 16, 12, 8, 4, 0]"

definition sha256_hex :: "byte list \<Rightarrow> string" where
  "sha256_hex data =
     (let padded = delta_pad data;
          (h0, h1, h2, h3, h4, h5, h6, h7) =
            fold (\<lambda>j. delta_block padded (j * 64)) [0..<length padded div 64] sha256_init
      in concat (map delta_hex_word [h0, h1, h2, h3, h4, h5, h6, h7]))"

definition adler_step :: "byte \<Rightarrow> u32 \<times> u32 \<Rightarrow> u32 \<times> u32" where
  "adler_step d = (\<lambda>(a, b). let a' = (a + ucast d) mod 65521; b' = (b + a') mod 65521 in (a', b'))"

definition adler32 :: "byte list \<Rightarrow> u32" where
  "adler32 data = (case fold adler_step data (1, 0) of (a, b) \<Rightarrow> push_bit 16 b OR a)"

text \<open>
  Reference for Adler-32: the two running sums as closed expressions over the natural numbers,
  reduced once.
\<close>

fun adler_weighted :: "byte list \<Rightarrow> nat" where
  "adler_weighted [] = 0"
| "adler_weighted (d # ds) = Suc (length ds) * unat d + adler_weighted ds"

definition adler_ref :: "byte list \<Rightarrow> nat" where
  "adler_ref data =
     (let A = (1 + (\<Sum>d\<leftarrow>data. unat d)) mod 65521;
          B = (length data + adler_weighted data) mod 65521
      in B * 65536 + A)"

section \<open>Reference: FIPS 180-4\<close>

definition fips_sigma0 :: "u32 \<Rightarrow> u32" where
  "fips_sigma0 x = word_rotr 7 x XOR word_rotr 18 x XOR drop_bit 3 x"

definition fips_sigma1 :: "u32 \<Rightarrow> u32" where
  "fips_sigma1 x = word_rotr 17 x XOR word_rotr 19 x XOR drop_bit 10 x"

definition fips_Sigma0 :: "u32 \<Rightarrow> u32" where
  "fips_Sigma0 x = word_rotr 2 x XOR word_rotr 13 x XOR word_rotr 22 x"

definition fips_Sigma1 :: "u32 \<Rightarrow> u32" where
  "fips_Sigma1 x = word_rotr 6 x XOR word_rotr 11 x XOR word_rotr 25 x"

definition fips_Ch :: "u32 \<Rightarrow> u32 \<Rightarrow> u32 \<Rightarrow> u32" where
  "fips_Ch x y z = (x AND y) XOR (NOT x AND z)"

definition fips_Maj :: "u32 \<Rightarrow> u32 \<Rightarrow> u32 \<Rightarrow> u32" where
  "fips_Maj x y z = (x AND y) XOR (x AND z) XOR (y AND z)"

text \<open>The number of zero bytes: the least one that leaves eight bytes in the last block.\<close>

definition fips_zeros :: "nat \<Rightarrow> nat" where
  "fips_zeros len = (LEAST k. (len + 1 + k) mod 64 = 56)"

definition fips_pad :: "byte list \<Rightarrow> byte list" where
  "fips_pad M = M @ [0x80] @ replicate (fips_zeros (length M)) 0
     @ rev (store_le 8 (word_of_nat (8 * length M) :: u64))"

definition fips_blocks :: "byte list \<Rightarrow> byte list list" where
  "fips_blocks P = map (\<lambda>j. take 64 (drop (64 * j) P)) [0..<length P div 64]"

definition fips_word :: "byte list \<Rightarrow> nat \<Rightarrow> u32" where
  "fips_word blk t = load_le (rev (take 4 (drop (4 * t) blk)))"

fun fips_W :: "byte list \<Rightarrow> nat \<Rightarrow> u32" where
  "fips_W blk t =
     (if t < 16 then fips_word blk t
      else fips_sigma1 (fips_W blk (t - 2)) + fips_W blk (t - 7)
         + fips_sigma0 (fips_W blk (t - 15)) + fips_W blk (t - 16))"

declare fips_W.simps [simp del]

text \<open>
  The constants of the standard: the first 32 bits of the fractional parts of the cube roots of the
  first 64 primes, and of the square roots of the first eight.
\<close>

definition fips_primes :: "nat list" where
  "fips_primes =
     [2, 3, 5, 7, 11, 13, 17, 19, 23, 29, 31, 37, 41, 43, 47, 53, 59, 61, 67, 71, 73, 79,
      83, 89, 97, 101, 103, 107, 109, 113, 127, 131, 137, 139, 149, 151, 157, 163, 167, 173, 179, 181,
      191, 193, 197, 199, 211, 223, 227, 229, 233, 239, 241, 251, 257, 263, 269, 271, 277, 281, 283,
      293, 307, 311]"

definition fips_root_bits :: "nat \<Rightarrow> nat \<Rightarrow> u32" where
  "fips_root_bits k p = word_of_int \<lfloor>root k (real p) * 2 ^ 32\<rfloor>"

definition fips_K :: "nat \<Rightarrow> u32" where
  "fips_K t = fips_root_bits 3 (fips_primes ! t)"

definition fips_H0 :: "nat \<Rightarrow> u32" where
  "fips_H0 i = fips_root_bits 2 (fips_primes ! i)"

definition fips_step :: "byte list \<Rightarrow> nat \<Rightarrow> hash8 \<Rightarrow> hash8" where
  "fips_step blk t = (\<lambda>(a, b, c, d, e, f, g, h).
     let T1 = h + fips_Sigma1 e + fips_Ch e f g + fips_K t + fips_W blk t;
         T2 = fips_Sigma0 a + fips_Maj a b c
     in (T1 + T2, a, b, c, d + T1, e, f, g))"

definition fips_compress :: "byte list \<Rightarrow> hash8 \<Rightarrow> hash8" where
  "fips_compress blk H = hash8_add H (fold (fips_step blk) [0..<64] H)"

definition fips_init :: hash8 where
  "fips_init = (fips_H0 0, fips_H0 1, fips_H0 2, fips_H0 3, fips_H0 4, fips_H0 5, fips_H0 6, fips_H0 7)"

definition fips_sha256 :: "byte list \<Rightarrow> byte list" where
  "fips_sha256 M = (case fold fips_compress (fips_blocks (fips_pad M)) fips_init of
     (h0, h1, h2, h3, h4, h5, h6, h7) \<Rightarrow>
       concat (map (\<lambda>h. rev (store_le 4 h)) [h0, h1, h2, h3, h4, h5, h6, h7]))"

section \<open>The constants\<close>

lemma floor_root:
  assumes "0 < k" and "n ^ k \<le> p * 2 ^ (32 * k)" and "p * 2 ^ (32 * k) < (n + 1) ^ k"
  shows "\<lfloor>root k (real p) * 2 ^ 32\<rfloor> = int n"
proof -
  have eq: "root k (real p) * 2 ^ 32 = root k (real (p * 2 ^ (32 * k)))"
    using assms(1) by (simp add: real_root_mult power_mult real_root_power_cancel)
  have "real n = root k (real (n ^ k))" and "real (n + 1) = root k (real ((n + 1) ^ k))"
    using assms(1) by (simp_all only: of_nat_power real_root_power_cancel of_nat_0_le_iff)
  then have "real n \<le> root k (real (p * 2 ^ (32 * k)))" and "root k (real (p * 2 ^ (32 * k))) < real (n + 1)"
    using assms by (simp_all only: real_root_le_iff real_root_less_iff of_nat_le_iff of_nat_less_iff)
  then show ?thesis unfolding eq by (simp add: floor_eq_iff)
qed

text \<open>A word is the root's fraction when the integer part in front of it makes it the integer root.\<close>

lemma fips_root_bits_eq:
  assumes "0 < k" and "(i * 2 ^ 32 + unat w) ^ k \<le> p * 2 ^ (32 * k)"
    and "p * 2 ^ (32 * k) < (i * 2 ^ 32 + unat w + 1) ^ k"
  shows "fips_root_bits k p = w"
proof -
  have "word_of_int (int (i * 2 ^ 32 + unat w)) = (word_of_nat (i * 2 ^ 32) :: u32) + w" by simp
  also have "word_of_nat (i * 2 ^ 32) = (0 :: u32)"
    by (simp only: word_of_nat_eq_0_iff) simp
  finally show ?thesis
    unfolding fips_root_bits_def floor_root [OF assms] by simp
qed

definition cube_part :: "nat \<Rightarrow> nat" where
  "cube_part p = (if p < 8 then 1 else if p < 27 then 2 else if p < 64 then 3 else if p < 125 then 4
     else if p < 216 then 5 else 6)"

lemma SHA256_K_roots:
  "list_all (\<lambda>(p, w). (cube_part p * 2 ^ 32 + unat w) ^ 3 \<le> p * 2 ^ 96 \<and>
     p * 2 ^ 96 < (cube_part p * 2 ^ 32 + unat w + 1) ^ 3) (zip fips_primes SHA256_K)"
  by (simp add: fips_primes_def SHA256_K_def cube_part_def)

lemma SHA256_K_fips:
  assumes "t < 64"
  shows "SHA256_K ! t = fips_K t"
proof -
  have len: "length fips_primes = 64" "length SHA256_K = 64"
    by (simp_all add: fips_primes_def SHA256_K_def)
  then have "(fips_primes ! t, SHA256_K ! t) \<in> set (zip fips_primes SHA256_K)"
    using assms by (auto simp: in_set_zip)
  from bspec [OF SHA256_K_roots [unfolded list_all_iff] this, unfolded prod.case]
  have "(cube_part (fips_primes ! t) * 2 ^ 32 + unat (SHA256_K ! t)) ^ 3 \<le> fips_primes ! t * 2 ^ (32 * 3)"
    and "fips_primes ! t * 2 ^ (32 * 3) < (cube_part (fips_primes ! t) * 2 ^ 32 + unat (SHA256_K ! t) + 1) ^ 3"
    by simp_all
  from fips_root_bits_eq [OF _ this] show ?thesis by (simp add: fips_K_def)
qed

lemma sha256_init_fips: "sha256_init = fips_init"
proof -
  note r = fips_root_bits_eq [of 2]
  show ?thesis
    unfolding sha256_init_def fips_init_def prod.inject fips_H0_def fips_primes_def
    by (intro conjI; rule sym; simp; (rule r [of 1] r [of 2] r [of 3] r [of 4]; simp; fail))
qed

section \<open>Equivalence with the references\<close>

lemma rotr_eq_word_rotr:
  assumes "n < 32"
  shows "rotr x n = word_rotr n x"
proof (rule bit_word_eqI)
  fix k
  assume "k < LENGTH(32)"
  then have k: "k < 32" by simp
  then have "(k + n) mod 32 = (if k + n < 32 then k + n else k + n - 32)"
    using assms by (simp add: mod_if)
  then show "bit (rotr x n) k \<longleftrightarrow> bit (word_rotr n x) k"
    using assms k
    by (auto simp: rotr_def bit_or_iff bit_drop_bit_eq bit_push_bit_iff bit_word_rotr_iff add.commute
        dest: bit_imp_le_length)
qed

lemma mod_119:
  assumes "r < 64"
  shows "(119 - r) mod 64 = (if r < 56 then 55 - r else 119 - r :: nat)"
proof (cases "r < 56")
  case True
  then have "(119 - r) mod 64 = (55 - r + 64) mod 64" by simp
  also have "\<dots> = 55 - r" by (simp only: mod_add_self2) simp
  finally show ?thesis using True by simp
qed (use assms in simp)

lemma fips_zeros_eq: "fips_zeros len = (119 - len mod 64) mod 64"
  unfolding fips_zeros_def
proof (rule Least_equality)
  have r: "len mod 64 < 64" by simp
  have "(len + 1 + (119 - len mod 64) mod 64) mod 64 = (len mod 64 + 1 + (119 - len mod 64) mod 64) mod 64"
    by (metis mod_add_left_eq)
  also have "\<dots> = (len mod 64 + 1 + (119 - len mod 64)) mod 64"
    by (rule mod_add_right_eq)
  also have "\<dots> = 56" using r by simp
  finally show "(len + 1 + (119 - len mod 64) mod 64) mod 64 = 56" .
next
  fix k
  assume "(len + 1 + k) mod 64 = 56"
  then have k: "(len mod 64 + 1 + k) mod 64 = 56"
    by (metis mod_add_left_eq)
  show "(119 - len mod 64) mod 64 \<le> k"
  proof (rule ccontr)
    assume less: "\<not> (119 - len mod 64) mod 64 \<le> k"
    define r where "r = len mod 64"
    have r: "r < 64" by (simp add: r_def)
    from less have less': "\<not> (119 - r) mod 64 \<le> k" by (simp add: r_def)
    show False
    proof (cases "r + 1 + k < 64")
      case True
      with k have "r + 1 + k = 56" by (simp add: r_def [symmetric])
      with less' r show False by (simp add: mod_119)
    next
      case False
      with less' r have "r + 1 + k - 64 < 56" by (simp add: mod_119 split: if_splits)
      with False k show False by (simp add: r_def [symmetric] le_mod_geq)
    qed
  qed
qed

lemma sha256_padded_len_eq: "sha256_padded_len len = len + 9 + fips_zeros len"
proof -
  define q r where "q = len div 64" and "r = len mod 64"
  have len: "len = 64 * q + r" and r: "r < 64"
    by (simp_all add: q_def r_def)
  have "(len + 8) div 64 = q + (r + 8) div 64"
    unfolding len using div_mult_self4 [of 64 "r + 8" q] by (simp add: algebra_simps)
  then show ?thesis
    using r unfolding sha256_padded_len_def fips_zeros_eq r_def [symmetric] mod_119 [OF r]
    by (cases "r < 56") (auto simp: len)
qed

lemma upt_0_8: "[0..<8] = [0, 1, 2, 3, 4, 5, 6, 7 :: nat]"
  by code_simp

lemma replicate_8: "replicate 8 x = [x, x, x, x, x, x, x, x]"
  by (simp add: eval_nat_numeral)

lemma sha256_pad_eq: "sha256_pad data = fips_pad data"
proof -
  define len where "len = length data"
  define P where "P = data @ 0x80 # replicate (fips_zeros len) 0"
  let ?bits = "word_of_nat len * 8 :: u64"
  have len_P: "sha256_padded_len len = length P + 8"
    by (simp add: P_def len_def sha256_padded_len_eq)
  have "data @ replicate (sha256_padded_len len - len) 0 = data @ replicate (Suc (fips_zeros len) + 8) 0"
    by (simp add: sha256_padded_len_eq len_def)
  also have "\<dots> [len := 0x80] = P @ replicate 8 0"
    unfolding replicate_add by (simp add: P_def len_def)
  finally have start: "(data @ replicate (sha256_padded_len len - len) 0)[len := 0x80] = P @ replicate 8 0"
    by simp
  have "fold (\<lambda>i p. p[length P + 8 - 1 - i := ucast (drop_bit (i * 8) ?bits)]) [0..<8] (P @ replicate 8 0)
    = P @ rev (store_le 8 ?bits)"
    by (simp add: upt_0_8 replicate_8 store_le_def list_update_append)
  moreover have "sha256_pad data = fold (\<lambda>i p. p[length P + 8 - 1 - i := ucast (drop_bit (i * 8) ?bits)])
      [0..<8] (P @ replicate 8 0)"
    unfolding sha256_pad_def Let_def len_def [symmetric] start by (simp only: len_P)
  ultimately show ?thesis
    by (simp add: fips_pad_def P_def len_def mult.commute)
qed

lemma length_fips_pad: "length (fips_pad M) = sha256_padded_len (length M)"
  by (simp add: fips_pad_def sha256_padded_len_eq)

lemma take_4_drop:
  assumes "n + 4 \<le> length xs"
  shows "take 4 (drop n xs) = [xs ! n, xs ! (n + 1), xs ! (n + 2), xs ! (n + 3)]"
  using assms by (intro nth_equalityI) (auto simp: less_Suc_eq numeral_eq_Suc)

lemma load_be4: "load_le (rev [a, b, c, d]) =
    (push_bit 24 (ucast a) OR push_bit 16 (ucast b) OR push_bit 8 (ucast c) OR ucast d :: u32)"
  by (simp add: push_bit_or ac_simps)

lemma sha256_load_eq:
  assumes "offset + 64 \<le> length p"
  shows "sha256_load p offset = map (fips_word (take 64 (drop offset p))) [0..<16]"
  unfolding sha256_load_def
proof (rule map_cong [OF refl])
  fix i
  assume "i \<in> set [0..<16]"
  then have i: "i < 16" by simp
  let ?blk = "take 64 (drop offset p)"
  have "take 4 (drop (4 * i) ?blk) = [?blk ! (4 * i), ?blk ! (4 * i + 1), ?blk ! (4 * i + 2), ?blk ! (4 * i + 3)]"
    using i assms by (intro take_4_drop) simp
  also have "\<dots> = [p ! (offset + i * 4), p ! (offset + i * 4 + 1), p ! (offset + i * 4 + 2), p ! (offset + i * 4 + 3)]"
    using i assms by (simp add: ac_simps)
  finally show "push_bit 24 (ucast (p ! (offset + i * 4))) OR push_bit 16 (ucast (p ! (offset + i * 4 + 1)))
      OR push_bit 8 (ucast (p ! (offset + i * 4 + 2))) OR ucast (p ! (offset + i * 4 + 3)) = fips_word ?blk i"
    unfolding fips_word_def by (simp only: load_be4)
qed

lemma sha256_extend_eq:
  "sha256_extend (map (fips_word blk) [0..<16]) = map (fips_W blk) [0..<64]"
proof -
  let ?f = "\<lambda>i w. let s0 = rotr (w ! (i - 15)) 7 XOR rotr (w ! (i - 15)) 18 XOR drop_bit 3 (w ! (i - 15));
             s1 = rotr (w ! (i - 2)) 17 XOR rotr (w ! (i - 2)) 19 XOR drop_bit 10 (w ! (i - 2))
         in w @ [w ! (i - 16) + s0 + w ! (i - 7) + s1]"
  have loop: "fold ?f [16..<n] (map (fips_word blk) [0..<16]) = map (fips_W blk) [0..<n]" if "16 \<le> n" for n
    using that
  proof (induction n rule: dec_induct)
    case base
    have "map (fips_word blk) [0..<16] = map (fips_W blk) [0..<16]"
      by (rule map_cong [OF refl]) (simp add: fips_W.simps)
    then show ?case by simp
  next
    case (step n)
    then have "fold ?f [16..<Suc n] (map (fips_word blk) [0..<16]) = ?f n (map (fips_W blk) [0..<n])"
      by simp
    also have "\<dots> = map (fips_W blk) [0..<n] @ [fips_W blk n]"
      using step.hyps fips_W.simps [of blk n]
      by (simp add: Let_def rotr_eq_word_rotr fips_sigma0_def fips_sigma1_def ac_simps)
    finally show ?case by simp
  qed
  show ?thesis
    unfolding sha256_extend_def by (rule loop) simp
qed

lemma sha256_round_eq:
  "t < 64 \<Longrightarrow> sha256_round (map (fips_W blk) [0..<64]) t = fips_step blk t"
  by (rule ext) (simp add: sha256_round_def fips_step_def SHA256_K_fips rotr_eq_word_rotr fips_Sigma0_def
      fips_Sigma1_def fips_Ch_def fips_Maj_def Let_def split_beta)

lemma sha256_block_eq:
  assumes "offset + 64 \<le> length p"
  shows "sha256_block p offset h = fips_compress (take 64 (drop offset p)) h"
proof -
  have "fold (sha256_round (map (fips_W blk) [0..<64])) [0..<64] h = fold (fips_step blk) [0..<64] h" for blk
    by (rule fold_cong) (simp_all add: sha256_round_eq)
  then show ?thesis
    by (simp add: sha256_block_def fips_compress_def sha256_load_eq [OF assms] sha256_extend_eq)
qed

lemma sha256_words_eq: "sha256_words data = fold fips_compress (fips_blocks (fips_pad data)) sha256_init"
proof -
  let ?p = "fips_pad data"
  have "fold (\<lambda>j. sha256_block ?p (j * 64)) [0..<length ?p div 64] sha256_init =
    fold (\<lambda>j. fips_compress (take 64 (drop (64 * j) ?p))) [0..<length ?p div 64] sha256_init"
  proof (rule fold_cong [OF refl refl])
    fix j
    assume "j \<in> set [0..<length ?p div 64]"
    then have "j * 64 + 64 \<le> length ?p" by auto
    then show "sha256_block ?p (j * 64) = fips_compress (take 64 (drop (64 * j) ?p))"
      by (intro ext) (simp add: sha256_block_eq mult.commute)
  qed
  then show ?thesis
    by (simp add: sha256_words_def fips_blocks_def sha256_pad_eq length_fips_pad fold_map comp_def)
qed

lemma put_digest32_eq: "put_digest32 h = rev (store_le 4 h)"
  by (simp add: put_digest32_def store_le_def numeral_eq_Suc upt_rec)

lemma sha256_raw_eq: "sha256_raw data = fips_sha256 data"
  by (simp add: sha256_raw_def fips_sha256_def sha256_words_eq put_digest32_eq sha256_init_fips split_beta)

lemma delta_block_eq: "delta_block = sha256_block"
proof (intro ext)
  fix p off h
  have K: "delta_SHA256_K = SHA256_K"
    by (simp only: delta_SHA256_K_def SHA256_K_def)
  have "delta_schedule p off = sha256_extend (sha256_load p off)"
    by (simp only: delta_schedule_def sha256_extend_def sha256_load_def Let_def)
  then show "delta_block p off h = sha256_block p off h"
    by (simp add: delta_block_def sha256_block_def sha256_round_def [abs_def] hash8_add_def K
        Let_def split_beta)
qed

lemma unat_ucast_byte: "unat (ucast b :: u32) = unat b" for b :: byte
proof -
  have "unat b < 2 ^ LENGTH(8)" by (rule unsigned_less)
  then show ?thesis by (simp add: unsigned_ucast_eq take_bit_nat_eq_self_iff)
qed

lemma delta_hex_word_eq: "delta_hex_word h = to_hex (put_digest32 h)"
proof -
  have hi: "unat (drop_bit 4 (ucast (drop_bit k h) :: byte)) = unat (drop_bit (k + 4) h AND 0xF)"
    and lo: "unat ((ucast (drop_bit k h) :: byte) AND 0xF) = unat (drop_bit k h AND 0xF)" for k
  proof -
    have m: "(0xF :: 'a::len word) = mask 4" by (simp add: mask_eq_exp_minus_1)
    have "ucast (drop_bit 4 (ucast (drop_bit k h) :: byte)) = drop_bit (k + 4) h AND 0xF"
      unfolding m by (rule bit_word_eqI) (auto simp: bit_simps ac_simps)
    then show "unat (drop_bit 4 (ucast (drop_bit k h) :: byte)) = unat (drop_bit (k + 4) h AND 0xF)"
      by (metis unat_ucast_byte) 
    have "ucast ((ucast (drop_bit k h) :: byte) AND 0xF) = drop_bit k h AND 0xF"
      unfolding m by (rule bit_word_eqI) (auto simp: bit_simps)
    then show "unat ((ucast (drop_bit k h) :: byte) AND 0xF) = unat (drop_bit k h AND 0xF)"
      by (metis unat_ucast_byte) 
  qed
  show ?thesis
    using hi [of 24] hi [of 16] hi [of 8] hi [of 0] lo [of 24] lo [of 16] lo [of 8] lo [of 0]
    by (simp add: delta_hex_word_def to_hex_def put_digest32_def)
qed

lemma sha256_hex_eq: "sha256_hex data = to_hex (sha256_raw data)"
proof -
  have pad: "delta_pad data = sha256_pad data"
    by (simp only: delta_pad_def sha256_pad_def sha256_padded_len_def Let_def)
  have "length (sha256_pad data) = sha256_padded_len (length data)"
    by (simp add: sha256_pad_eq length_fips_pad)
  then show ?thesis
    by (simp add: sha256_hex_def sha256_raw_def sha256_words_def pad delta_block_eq delta_hex_word_eq
        Let_def split_beta) (simp add: to_hex_def)
qed

lemma adler_step_unat:
  assumes "unat a < 65521" "unat b < 65521" "adler_step d (a, b) = (a', b')"
  shows "unat a' = (unat a + unat d) mod 65521" "unat b' = (unat b + unat a + unat d) mod 65521"
proof -
  have d: "unat d < 2 ^ LENGTH(8)" by (rule unsigned_less)
  have "unat (a + ucast d) = unat a + unat d"
    using assms(1) d by (simp add: unat_word_ariths unat_ucast_byte)
  with assms(3) show a': "unat a' = (unat a + unat d) mod 65521"
    by (auto simp: adler_step_def Let_def unat_mod)
  then have "unat a' < 65521" by simp
  with assms(2) have "unat (b + a') = unat b + unat a'"
    by (simp add: unat_word_ariths)
  with assms(3) have "unat b' = (unat b + unat a') mod 65521"
    by (auto simp: adler_step_def Let_def unat_mod)
  with a' show "unat b' = (unat b + unat a + unat d) mod 65521"
    by (simp add: mod_add_right_eq add.assoc)
qed

lemma adler_fold_unat:
  assumes "unat a < 65521" "unat b < 65521" "fold adler_step data (a, b) = (a', b')"
  shows "unat a' = (unat a + (\<Sum>d\<leftarrow>data. unat d)) mod 65521 \<and>
    unat b' = (unat b + length data * unat a + adler_weighted data) mod 65521"
  using assms
proof (induction data arbitrary: a b)
  case Nil
  then show ?case by simp
next
  case (Cons d data)
  obtain a1 b1 where step: "adler_step d (a, b) = (a1, b1)" by fastforce
  note s = adler_step_unat [OF Cons.prems(1,2) step]
  have IH: "unat a' = (unat a1 + (\<Sum>d\<leftarrow>data. unat d)) mod 65521 \<and>
    unat b' = (unat b1 + length data * unat a1 + adler_weighted data) mod 65521"
    using Cons.prems step s by (intro Cons.IH) simp_all
  have "(unat b1 + length data * unat a1 + adler_weighted data) mod 65521
    = ((unat b + unat a + unat d) + length data * (unat a + unat d) + adler_weighted data) mod 65521"
    unfolding s by (intro mod_add_cong mod_mult_cong) simp_all
  moreover have "(unat a1 + (\<Sum>d\<leftarrow>data. unat d)) mod 65521 = (unat a + unat d + (\<Sum>d\<leftarrow>data. unat d)) mod 65521"
    unfolding s by (intro mod_add_cong) simp_all
  ultimately show ?case
    using IH by (simp add: algebra_simps)
qed

lemma unat_push16_or:
  assumes "unat b < 65536" "unat a < 65536"
  shows "unat (push_bit 16 b OR a :: u32) = unat b * 65536 + unat a"
proof -
  have "push_bit 16 b AND a = 0"
  proof (rule bit_word_eqI)
    fix k
    have "\<not> bit a k" if "16 \<le> k"
    proof -
      have "unat (take_bit 16 a) = unat a"
        using assms(2) by (simp add: unsigned_take_bit_eq take_bit_nat_eq_self_iff)
      then have "take_bit 16 a = a" by (simp only: word_unat_eq_iff)
      then show ?thesis using that by (metis bit_take_bit_iff not_less)
    qed
    then show "bit (push_bit 16 b AND a) k \<longleftrightarrow> bit (0 :: u32) k"
      by (auto simp: bit_simps)
  qed
  then have "push_bit 16 b OR a = push_bit 16 b + a"
    by (simp add: disjunctive_add_eq_or)
  also have "\<dots> = b * 65536 + a"
    by (simp add: push_bit_eq_mult)
  also have "unat \<dots> = unat b * 65536 + unat a"
    using assms by (simp add: unat_word_ariths)
  finally show ?thesis .
qed

lemma adler32_eq: "unat (adler32 data) = adler_ref data"
proof -
  obtain a b where ab: "fold adler_step data (1, 0) = (a, b)" by fastforce
  from adler_fold_unat [OF _ _ ab] have
    "unat a = (1 + (\<Sum>d\<leftarrow>data. unat d)) mod 65521" "unat b = (length data + adler_weighted data) mod 65521"
    by simp_all
  moreover from this have "unat a < 65536" "unat b < 65536"
    using mod_less_divisor [of 65521] by (simp_all add: order_less_trans [of _ 65521 65536])
  ultimately show ?thesis
    by (simp add: adler32_def ab unat_push16_or adler_ref_def Let_def)
qed
section \<open>The digest contract\<close>

text \<open>
  What the rest of the server relies on: a digest is a string of 64 lower-case hexadecimal
  characters, so it is never the empty string that stands for a missing hash in the protocol.
\<close>

locale hex_digest =
  fixes digest :: "byte list \<Rightarrow> string"
  assumes length_digest: "length (digest data) = 64"
    and digest_hex: "set (digest data) \<subseteq> set hex_chars"
begin

lemma digest_nonempty: "digest data \<noteq> []"
  using length_digest [of data] by auto

lemma digest_differs: "digest data \<noteq> digest data' \<Longrightarrow> data \<noteq> data'"
  by auto

end

lemma length_to_hex: "length (to_hex bs) = 2 * length bs"
  by (induction bs) (simp_all add: to_hex_def)

lemma length_hex_chars: "length hex_chars = 16"
  by (simp add: hex_chars_def)

lemma unat_high_nibble: "unat (drop_bit 4 b) < 16" for b :: byte
proof -
  have "unat b < 2 ^ LENGTH(8)" by (rule unsigned_less)
  then show ?thesis by (simp add: drop_bit_eq_div unat_div less_mult_imp_div_less)
qed

lemma unat_low_nibble: "unat (b AND 0x0F) < 16" for b :: byte
proof -
  have "b AND 0x0F = take_bit 4 b"
    using take_bit_eq_mask [of 4 b] by (simp add: mask_eq_exp_minus_1)
  then show ?thesis by (simp add: take_bit_eq_mod unat_mod)
qed

lemma set_to_hex: "set (to_hex bs) \<subseteq> set hex_chars"
  using unat_high_nibble unat_low_nibble length_hex_chars by (auto simp: to_hex_def)

lemma byte_eq_nibbles:
  fixes b c :: byte
  assumes "unat (drop_bit 4 b) = unat (drop_bit 4 c)" and "unat (b AND 0x0F) = unat (c AND 0x0F)"
  shows "b = c"
proof -
  have "drop_bit 4 b = drop_bit 4 c" and "take_bit 4 b = take_bit 4 c"
    using assms by (simp_all add: word_unat_eq_iff take_bit_eq_mask mask_eq_exp_minus_1)
  then show ?thesis by (metis bits_ident)
qed

lemma to_hex_inject: "to_hex bs = to_hex bs' \<longleftrightarrow> bs = bs'"
proof (induction bs arbitrary: bs')
  case Nil
  then show ?case by (cases bs') (simp_all add: to_hex_def)
next
  case (Cons b bs)
  have dist: "distinct hex_chars"
    by (simp add: hex_chars_def)
  show ?case
  proof (cases bs')
    case (Cons c cs)
    then show ?thesis
      using Cons.IH [of cs] byte_eq_nibbles [of b c] unat_high_nibble unat_low_nibble
      by (auto simp: to_hex_def nth_eq_iff_index_eq [OF dist] length_hex_chars)
  qed (simp add: to_hex_def)
qed

lemma length_sha256_raw: "length (sha256_raw data) = 32"
  by (simp add: sha256_raw_def put_digest32_def split_beta)

interpretation file_digest: hex_digest "\<lambda>data. to_hex (sha256_raw data)"
  by unfold_locales (simp_all add: length_to_hex length_sha256_raw set_to_hex)

interpretation block_digest: hex_digest sha256_hex
  by unfold_locales (simp_all add: sha256_hex_eq length_to_hex length_sha256_raw set_to_hex)

section \<open>Correctness of the checksums\<close>

text \<open>
  C23. The embedded SHA-256 of the file manager, with its padding buffer, message schedule array and
  in-place rounds, computes the hash that FIPS 180-4 defines, for every message.
\<close>

theorem sha256_raw_is_fips: "sha256_raw data = fips_sha256 data"
  by (rule sha256_raw_eq)

text \<open>
  The two SHA-256 copies of the server agree: the block hash that the delta-sync handler prints is
  the hexadecimal form of the file manager's digest of the same bytes, and two such strings are
  equal exactly if the FIPS digests are.
\<close>

lemma sha256_copies_agree:
  "sha256_hex data = to_hex (sha256_raw data) \<and>
   (sha256_hex data = sha256_hex data' \<longleftrightarrow> fips_sha256 data = fips_sha256 data')"
  by (simp add: sha256_hex_eq to_hex_inject flip: sha256_raw_eq)

text \<open>
  C31. Adler-32 never overflows its 32-bit accumulators: the value returned is the packed pair of the
  two sums (one plus the sum of the bytes, and the sum of the intermediate first sums) reduced
  modulo 65521.
\<close>

theorem adler32_correct: "unat (adler32 data) = adler_ref data"
  by (rule adler32_eq)

end
