(* ===== verification/File_Manager.thy ===== *)
theory File_Manager
  imports Storage Checksums
begin

text \<open>
  The file manager (\<^verbatim>\<open>file_manager.h\<close>, \<^verbatim>\<open>file_manager.cpp\<close>): the one component that touches the
  storage.  Its only field is the root directory, the first argument of every operation.  A call
  that throws does so before it changes anything, so the operations that write return the
  exception or the C++ result with the new storage.  Exceptions of \<^verbatim>\<open>exists\<close> on paths the kernel
  cannot look up (over-long names, unsearchable directories) are not modelled.
\<close>

section \<open>Paths\<close>

definition resolve_path :: "string \<Rightarrow> string \<Rightarrow> string result" where
  "resolve_path storage_root relative_path =
     (let clean = lexically_normal relative_path in
      if take 2 clean = ''..''
      then Inl (Runtime_error (''Directory traversal detected: '' @ relative_path))
      else Inr (path_append storage_root clean))"

definition tmp_path_for :: "string \<Rightarrow> string \<Rightarrow> string result" where
  "tmp_path_for storage_root relative_path =
     bind_result (resolve_path storage_root relative_path) (\<lambda>p. Inr (p @ ''.tmp''))"

section \<open>Queries\<close>

record FileInfo =
  fi_relative_path :: string
  fi_file_size :: u64
  fi_last_modified_ns :: u64
  fi_sha256_hex :: string

definition FileManager_init :: "string \<Rightarrow> storage \<Rightarrow> unit result \<times> storage" where
  "FileManager_init storage_root fs =
     (let (ok, fs') = create_directories fs storage_root
      in (if ok then Inr () else Inl Filesystem_error, fs'))"

definition file_exists :: "string \<Rightarrow> storage \<Rightarrow> string \<Rightarrow> bool result" where
  "file_exists storage_root fs relative_path =
     bind_result (resolve_path storage_root relative_path) (\<lambda>p. Inr (fs_exists fs p))"

definition get_file_size :: "string \<Rightarrow> storage \<Rightarrow> string \<Rightarrow> u64 result" where
  "get_file_size storage_root fs relative_path =
     bind_result (resolve_path storage_root relative_path) (\<lambda>p.
       if \<not> fs_exists fs p then Inr 0 else fs_file_size fs p)"

definition get_last_modified_ns :: "string \<Rightarrow> storage \<Rightarrow> string \<Rightarrow> u64 result" where
  "get_last_modified_ns storage_root fs relative_path =
     bind_result (resolve_path storage_root relative_path) (\<lambda>p.
       if \<not> fs_exists fs p then Inr 0
       else bind_result (fs_last_write_time fs p) (\<lambda>ftime.
         Inr (word_of_int (ftime - file_now fs + sys_now fs))))"

definition compute_sha256 :: "string \<Rightarrow> storage \<Rightarrow> string \<Rightarrow> string result" where
  "compute_sha256 storage_root fs relative_path =
     bind_result (resolve_path storage_root relative_path) (\<lambda>p.
       case open_in fs p of
         None \<Rightarrow> Inr []
       | Some n \<Rightarrow> bind_result (drain_stream n) (\<lambda>buffer. Inr (to_hex (sha256_raw buffer))))"

definition get_file_info :: "string \<Rightarrow> storage \<Rightarrow> string \<Rightarrow> FileInfo option result" where
  "get_file_info storage_root fs relative_path =
     bind_result (file_exists storage_root fs relative_path) (\<lambda>there.
     if \<not> there then Inr None
     else bind_result (get_file_size storage_root fs relative_path) (\<lambda>file_sz.
       bind_result (get_last_modified_ns storage_root fs relative_path) (\<lambda>modified.
       bind_result (compute_sha256 storage_root fs relative_path) (\<lambda>sha.
       Inr (Some \<lparr>fi_relative_path = relative_path, fi_file_size = file_sz,
                  fi_last_modified_ns = modified, fi_sha256_hex = sha\<rparr>)))))"

section \<open>Block input and output\<close>

definition read_block ::
    "string \<Rightarrow> nat \<Rightarrow> storage \<Rightarrow> string \<Rightarrow> u64 \<Rightarrow> u32 \<Rightarrow> byte list result" where
  "read_block storage_root grant fs relative_path offset sz =
     bind_result (resolve_path storage_root relative_path) (\<lambda>p.
       case open_in fs p of
         None \<Rightarrow> Inr []
       | Some n \<Rightarrow>
           if sint offset < 0 then Inr []
           else bind_result (vector_alloc grant (unat sz)) (\<lambda>_.
             Inr (seek_read n (sint offset) (unat sz))))"

definition ensure_parent_dirs :: "string \<Rightarrow> storage \<Rightarrow> string \<Rightarrow> (bool \<times> storage) result" where
  "ensure_parent_dirs storage_root fs relative_path =
     bind_result (resolve_path storage_root relative_path) (\<lambda>p.
       if parent_path p = [] then Inr (True, fs)
       else Inr (create_directories fs (parent_path p)))"

definition write_block_atomic ::
    "string \<Rightarrow> storage \<Rightarrow> string \<Rightarrow> u64 \<Rightarrow> byte list \<Rightarrow> (bool \<times> storage) result" where
  "write_block_atomic storage_root fs relative_path offset data =
     bind_result (tmp_path_for storage_root relative_path) (\<lambda>tmp.
     bind_result (ensure_parent_dirs storage_root fs relative_path) (\<lambda>(_, fs1).
       let k = os_key (cwd fs1) tmp in
       if open_inout fs1 tmp then Inr (seek_write fs1 k (sint offset) data)
       else case open_trunc fs1 tmp of
         None \<Rightarrow> Inr (False, fs1)
       | Some fs2 \<Rightarrow>
           if open_inout fs2 tmp then Inr (seek_write fs2 k (sint offset) data)
           else Inr (False, fs2)))"

definition write_file_atomic ::
    "string \<Rightarrow> storage \<Rightarrow> string \<Rightarrow> byte list \<Rightarrow> (bool \<times> storage) result" where
  "write_file_atomic storage_root fs relative_path data =
     bind_result (tmp_path_for storage_root relative_path) (\<lambda>tmp.
     bind_result (ensure_parent_dirs storage_root fs relative_path) (\<lambda>(_, fs1).
       case open_trunc fs1 tmp of
         None \<Rightarrow> Inr (False, fs1)
       | Some fs2 \<Rightarrow> Inr (seek_write fs2 (os_key (cwd fs2) tmp) 0 data)))"

definition atomic_rename_tmp :: "string \<Rightarrow> storage \<Rightarrow> string \<Rightarrow> (bool \<times> storage) result" where
  "atomic_rename_tmp storage_root fs relative_path =
     bind_result (tmp_path_for storage_root relative_path) (\<lambda>tmp.
     bind_result (resolve_path storage_root relative_path) (\<lambda>target.
       if \<not> fs_exists fs tmp then Inr (False, fs) else Inr (fs_rename fs tmp target)))"

section \<open>Listing\<close>

text \<open>
  One directory entry of \<^verbatim>\<open>list_files\<close>: \<open>None\<close> when it is skipped.  The recursive listing leaves
  out staging files and does not hash; the flat listing hashes and keeps staging files.
\<close>

definition list_entry ::
    "string \<Rightarrow> storage \<Rightarrow> string \<Rightarrow> bool \<Rightarrow> key \<Rightarrow> byte list \<Rightarrow> FileInfo option result" where
  "list_entry storage_root fs prefix_filter recursive k content =
     (let rel = join_slash (drop (length (os_key (cwd fs) storage_root)) k) in
      if recursive \<and> path_extension (last k) = ''.tmp'' then Inr None
      else if prefix_filter \<noteq> [] \<and> take (length prefix_filter) rel \<noteq> prefix_filter then Inr None
      else bind_result (get_last_modified_ns storage_root fs rel) (\<lambda>modified.
           bind_result (if recursive then Inr [] else compute_sha256 storage_root fs rel) (\<lambda>sha.
           Inr (Some \<lparr>fi_relative_path = rel, fi_file_size = word_of_nat (length content),
                      fi_last_modified_ns = modified, fi_sha256_hex = sha\<rparr>))))"

text \<open>
  The iterators deliver what lies below the root (directly below it for the flat listing); the
  recursive one fails at a directory it may not open.
\<close>

fun list_entries ::
    "string \<Rightarrow> storage \<Rightarrow> string \<Rightarrow> bool \<Rightarrow> (key \<times> node) list \<Rightarrow> FileInfo list result" where
  "list_entries storage_root fs prefix_filter recursive [] = Inr []"
| "list_entries storage_root fs prefix_filter recursive ((k, n) # es) =
     (if \<not> (if recursive then strict_prefix (os_key (cwd fs) storage_root) k
            else k \<noteq> [] \<and> butlast k = os_key (cwd fs) storage_root)
      then list_entries storage_root fs prefix_filter recursive es
      else case n of
        Dir \<Rightarrow>
          if recursive \<and> k \<in> set (no_read fs) then Inl Filesystem_error
          else list_entries storage_root fs prefix_filter recursive es
      | File content _ \<Rightarrow>
          bind_result (list_entry storage_root fs prefix_filter recursive k content) (\<lambda>found.
          bind_result (list_entries storage_root fs prefix_filter recursive es) (\<lambda>rest.
          Inr (case found of None \<Rightarrow> rest | Some info \<Rightarrow> info # rest))))"

definition list_files :: "string \<Rightarrow> storage \<Rightarrow> string \<Rightarrow> bool \<Rightarrow> FileInfo list result" where
  "list_files storage_root fs prefix_filter recursive =
     (case os_node fs storage_root of
        None \<Rightarrow> Inr []
      | Some (File _ _) \<Rightarrow> Inl Filesystem_error
      | Some Dir \<Rightarrow>
          if os_key (cwd fs) storage_root \<in> set (no_read fs) then Inl Filesystem_error
          else list_entries storage_root fs prefix_filter recursive (nodes fs))"

section \<open>Effects of the writing operations\<close>

lemma resolve_path_Inr_iff:
  "resolve_path storage_root p = Inr s \<longleftrightarrow>
     take 2 (lexically_normal p) \<noteq> ''..'' \<and> s = path_append storage_root (lexically_normal p)"
  by (auto simp: resolve_path_def Let_def)

lemma resolve_plain: "plain_path p \<Longrightarrow> resolve_path storage_root p = Inr (path_append storage_root p)"
  by (simp add: resolve_path_Inr_iff lexically_normal_plain) (simp add: plain_path_def)

text \<open>The names a file has in the storage: its own and that of its staging file.\<close>

definition target_key :: "string \<Rightarrow> storage \<Rightarrow> string \<Rightarrow> key" where
  "target_key storage_root fs p = os_key (cwd fs) (path_append storage_root (lexically_normal p))"

definition temp_key :: "string \<Rightarrow> storage \<Rightarrow> string \<Rightarrow> key" where
  "temp_key storage_root fs p =
     os_key (cwd fs) (path_append storage_root (lexically_normal p) @ ''.tmp'')"

text \<open>
  \<open>touches K D\<close>: only nodes named in \<open>K\<close> change, and missing nodes named in \<open>D\<close> may have become
  directories; the tree stays well formed, the environment stays the same.
\<close>

definition touches :: "key set \<Rightarrow> key set \<Rightarrow> storage \<Rightarrow> storage \<Rightarrow> bool" where
  "touches K D fs fs' \<longleftrightarrow>
     cwd fs' = cwd fs \<and> no_read fs' = no_read fs \<and> no_write fs' = no_write fs \<and> max_file fs' = max_file fs \<and>
     (storage_wf fs \<longrightarrow> storage_wf fs') \<and>
     (\<forall>k. k \<notin> K \<longrightarrow> node_at fs' k = node_at fs k \<or> k \<in> D \<and> node_at fs k = None \<and> node_at fs' k = Some Dir)"

lemma touches_refl [simp]: "touches K D fs fs"
  by (simp add: touches_def)

lemma touches_trans: "touches K D fs fs' \<Longrightarrow> touches K D fs' fs'' \<Longrightarrow> touches K D fs fs''"
  unfolding touches_def by (metis option.distinct(1))

lemma touches_mono: "touches K D fs fs' \<Longrightarrow> K \<subseteq> K' \<Longrightarrow> D \<subseteq> D' \<Longrightarrow> touches K' D' fs fs'"
  unfolding touches_def by blast

lemma touches_file_at: "touches K D fs fs' \<Longrightarrow> k \<notin> K \<Longrightarrow> file_at fs' k = file_at fs k"
proof -
  assume "touches K D fs fs'" "k \<notin> K"
  then have "node_at fs' k = node_at fs k \<or> node_at fs k = None \<and> node_at fs' k = Some Dir"
    unfolding touches_def by blast
  then show ?thesis by (auto simp: file_at_def)
qed

lemma make_dirs_outside:
  "\<not> prefix k (base @ rest) \<Longrightarrow> node_at (snd (make_dirs base rest fs)) k = node_at fs k"
proof (induction rest arbitrary: base fs)
  case (Cons name rest)
  have not_k: "\<not> prefix k ((base @ [name]) @ rest)" using Cons.prems by simp
  have ne: "k \<noteq> base @ [name]" using Cons.prems by (auto simp: prefix_def)
  have IH: "node_at (snd (make_dirs (base @ [name]) rest fs')) k = node_at fs' k" for fs'
    using Cons.IH not_k by blast
  show ?case
  proof (cases "node_at fs (base @ [name])")
    case None
    then show ?thesis using IH ne by (simp add: Let_def node_at_put)
  next
    case (Some n)
    then show ?thesis using IH ne by (cases n) (simp_all add: Let_def)
  qed
qed simp

lemma touches_create_directories:
  "touches {} {k. prefix k (os_key (cwd fs) p)} fs (snd (create_directories fs p))"
proof -
  have "node_at (snd (create_directories fs p)) k = node_at fs k" if "\<not> prefix k (os_key (cwd fs) p)" for k
    using make_dirs_outside [of k "[]" "os_key (cwd fs) p" fs] that by (simp add: create_directories_def)
  moreover note create_directories_effect [of fs p]
  ultimately show ?thesis
    unfolding touches_def by (simp add: create_directories_wf) blast
qed

definition parent_key :: "string \<Rightarrow> storage \<Rightarrow> string \<Rightarrow> key" where
  "parent_key storage_root fs p =
     os_key (cwd fs) (parent_path (path_append storage_root (lexically_normal p)))"

lemma touches_ensure_parent_dirs:
  "ensure_parent_dirs storage_root fs p = Inr (ok, fs1) \<Longrightarrow>
     touches {} {k. prefix k (parent_key storage_root fs p)} fs fs1"
  using touches_create_directories [of fs]
  by (auto simp: ensure_parent_dirs_def bind_result_Inr_iff resolve_path_Inr_iff parent_key_def
      dest!: arg_cong [of _ _ snd] split: if_splits)

lemma touches_open_trunc:
  assumes "open_trunc fs p = Some fs'"
  shows "touches {os_key (cwd fs) p} D fs fs'" and "file_at fs' (os_key (cwd fs) p) = Some []"
  using open_trunc_node [OF assms] open_trunc_wf [OF _ assms]
  by (simp_all add: touches_def file_at_put node_at_put)

lemma seek_write_cases:
  assumes "seek_write fs k off data = (ok, fs')"
  obtains "\<not> ok" "fs' = fs"
  | c t d t' where "node_at fs k = Some (File c t)" "0 \<le> off" "k \<noteq> []" "ok \<Longrightarrow> d = data"
      "fs' = put_node k (File (overwrite c (nat off) d) t') fs"
proof (cases "\<exists>c t. node_at fs k = Some (File c t) \<and> 0 \<le> off")
  case True
  then obtain c t where c: "node_at fs k = Some (File c t)" "0 \<le> off" by blast
  then have "k \<noteq> []" by (auto simp: node_at_def)
  define d where "d = take (max_file fs - nat off) data"
  have "fs' = put_node k (File (overwrite c (nat off) d) (if d = [] then t else file_now fs)) fs"
    and "ok \<Longrightarrow> d = data"
    using assms c by (auto simp: seek_write_def Let_def d_def)
  with c \<open>k \<noteq> []\<close> that(2) show ?thesis by blast
next
  case False
  then have "\<not> ok \<and> fs' = fs"
    using assms by (cases "node_at fs k"; cases "the (node_at fs k)")
      (auto simp: seek_write_def split: if_splits)
  with that(1) show ?thesis by blast
qed

lemma touches_seek_write:
  assumes "seek_write fs k off data = (ok, fs')"
  shows "touches {k} D fs fs'"
    and "ok \<Longrightarrow> 0 \<le> off \<and> file_at fs' k = map_option (\<lambda>c. overwrite c (nat off) data) (file_at fs k)"
  using seek_write_wf [of fs k off data] assms
  by (auto elim!: seek_write_cases simp: touches_def node_at_put file_at_def)

lemma seek_write_ok:
  assumes "file_at fs k = Some c" and "0 \<le> off" and "nat off + length data \<le> max_file fs"
  shows "fst (seek_write fs k off data)"
  using assms by (auto simp: seek_write_def file_at_def Let_def split: option.splits node.splits)

lemma write_file_atomic_effect:
  assumes w: "write_file_atomic storage_root fs p data = Inr (ok, fs')"
  shows "touches {temp_key storage_root fs p} {k. prefix k (parent_key storage_root fs p)} fs fs'"
    and "ok \<Longrightarrow> file_at fs' (temp_key storage_root fs p) = Some data"
proof -
  let ?s = "path_append storage_root (lexically_normal p)" and ?k = "temp_key storage_root fs p"
    and ?D = "{k. prefix k (parent_key storage_root fs p)}"
  obtain b fs1 where e: "ensure_parent_dirs storage_root fs p = Inr (b, fs1)"
    and rest: "(case open_trunc fs1 (?s @ ''.tmp'') of None \<Rightarrow> (False, fs1)
        | Some fs2 \<Rightarrow> seek_write fs2 (os_key (cwd fs2) (?s @ ''.tmp'')) 0 data) = (ok, fs')"
    using w by (auto simp: write_file_atomic_def tmp_path_for_def resolve_path_Inr_iff bind_result_Inr_iff
        split: option.splits)
  have t1: "touches {?k} ?D fs fs1"
    using touches_ensure_parent_dirs [OF e] by (rule touches_mono) simp_all
  then have key: "os_key (cwd fs1) (?s @ ''.tmp'') = ?k"
    by (simp add: temp_key_def touches_def)
  have "touches {?k} ?D fs fs' \<and> (ok \<longrightarrow> file_at fs' ?k = Some data)"
  proof (cases "open_trunc fs1 (?s @ ''.tmp'')")
    case None
    with rest t1 show ?thesis by simp
  next
    case (Some fs2)
    note t2 = touches_open_trunc [OF Some, unfolded key]
    then have "seek_write fs2 ?k 0 data = (ok, fs')"
      using rest Some key by (simp add: touches_def)
    note t3 = touches_seek_write [OF this]
    from t1 t2(1) t3(1) have "touches {?k} ?D fs fs'" by (blast intro: touches_trans)
    with t2(2) t3(2) show ?thesis by simp
  qed
  then show "touches {?k} ?D fs fs'" and "ok \<Longrightarrow> file_at fs' ?k = Some data" by auto
qed

lemma open_inout_iff:
  "open_inout fs p \<longleftrightarrow> c_str p \<noteq> [] \<and> \<not> dir_only p \<and> file_at fs (os_key (cwd fs) p) \<noteq> None \<and>
     os_key (cwd fs) p \<notin> set (no_read fs) \<and> os_key (cwd fs) p \<notin> set (no_write fs)"
  by (auto simp: open_inout_def os_node_def file_at_def Let_def split: if_splits option.splits node.splits)

text \<open>
  A block written to the staging file: on top of what the staging file holds, or of an empty file.
\<close>

definition content_or_empty :: "byte list option \<Rightarrow> byte list" where
  "content_or_empty c = (case c of None \<Rightarrow> [] | Some d \<Rightarrow> d)"

lemma write_block_atomic_cases:
  assumes "write_block_atomic storage_root fs p offset data = Inr (ok, fs')"
    and tmp: "tmp = path_append storage_root (lexically_normal p) @ ''.tmp''"
  obtains (existing) b fs1 where "ensure_parent_dirs storage_root fs p = Inr (b, fs1)" "open_inout fs1 tmp"
      "seek_write fs1 (os_key (cwd fs1) tmp) (sint offset) data = (ok, fs')"
  | (created) b fs1 fs2 where "ensure_parent_dirs storage_root fs p = Inr (b, fs1)" "\<not> open_inout fs1 tmp"
      "open_trunc fs1 tmp = Some fs2" "open_inout fs2 tmp" "seek_write fs2 (os_key (cwd fs1) tmp) (sint offset) data = (ok, fs')"
  | (refused) b fs1 where "ensure_parent_dirs storage_root fs p = Inr (b, fs1)" "\<not> ok"
      "fs' = fs1 \<or> open_trunc fs1 tmp = Some fs'"
proof -
  obtain b fs1 where e: "ensure_parent_dirs storage_root fs p = Inr (b, fs1)"
    and rest: "(let k = os_key (cwd fs1) tmp in
       if open_inout fs1 tmp then Inr (seek_write fs1 k (sint offset) data)
       else case open_trunc fs1 tmp of
         None \<Rightarrow> Inr (False, fs1)
       | Some fs2 \<Rightarrow>
           if open_inout fs2 tmp then Inr (seek_write fs2 k (sint offset) data)
           else Inr (False, fs2)) = (Inr (ok, fs') :: (bool \<times> storage) result)"
    using assms by (auto simp: write_block_atomic_def tmp_path_for_def resolve_path_Inr_iff bind_result_Inr_iff)
  show ?thesis
    using rest existing [OF e] created [OF e] refused [OF e]
    by (auto simp: Let_def split: if_splits option.splits)
qed

lemma write_block_atomic_effect:
  assumes w: "write_block_atomic storage_root fs p offset data = Inr (ok, fs')"
  shows "touches {temp_key storage_root fs p} {k. prefix k (parent_key storage_root fs p)} fs fs'"
    and "ok \<Longrightarrow> 0 \<le> sint offset \<and>
      file_at fs' (temp_key storage_root fs p) =
        Some (overwrite (content_or_empty (file_at fs (temp_key storage_root fs p))) (nat (sint offset)) data)"
proof -
  let ?p = "path_append storage_root (lexically_normal p) @ ''.tmp''" and ?k = "temp_key storage_root fs p"
    and ?D = "{k. prefix k (parent_key storage_root fs p)}"
  have dirs: "touches {?k} ?D fs fs1 \<and> os_key (cwd fs1) ?p = ?k \<and> file_at fs1 ?k = file_at fs ?k"
    if "ensure_parent_dirs storage_root fs p = Inr (b, fs1)" for b fs1
  proof -
    have t0: "touches {} ?D fs fs1" using touches_ensure_parent_dirs [OF that] .
    then have "touches {?k} ?D fs fs1" by (rule touches_mono) simp_all
    with t0 show ?thesis using touches_file_at [OF t0] by (simp add: temp_key_def touches_def)
  qed
  have "touches {?k} ?D fs fs' \<and> (ok \<longrightarrow> 0 \<le> sint offset \<and>
      file_at fs' ?k = Some (overwrite (content_or_empty (file_at fs ?k)) (nat (sint offset)) data))"
    using w refl
  proof (cases rule: write_block_atomic_cases)
    case (existing b fs1)
    note d = dirs [OF existing(1)]
    have "file_at fs1 ?k \<noteq> None" using existing(2) d by (simp add: open_inout_iff)
    then show ?thesis
      using touches_seek_write [of fs1 ?k "sint offset" data] existing(3) d
      by (auto simp: content_or_empty_def intro: touches_trans)
  next
    case (created b fs1 fs2)
    note d = dirs [OF created(1)]
    then have t2: "touches {?k} ?D fs1 fs2" "file_at fs2 ?k = Some []"
      using touches_open_trunc [OF created(3)] by simp_all
    then have "file_at fs1 ?k = None"
      using created(2,4) d by (auto simp: open_inout_iff touches_def)
    then show ?thesis
      using touches_seek_write [of fs2 ?k "sint offset" data] created(5) d t2
      by (auto simp: content_or_empty_def intro: touches_trans)
  next
    case (refused b fs1)
    then show ?thesis
      using dirs [OF refused(1)] touches_open_trunc [of fs1 ?p fs'] by (auto intro: touches_trans)
  qed
  then show "touches {?k} ?D fs fs'"
    and "ok \<Longrightarrow> 0 \<le> sint offset \<and>
      file_at fs' ?k = Some (overwrite (content_or_empty (file_at fs ?k)) (nat (sint offset)) data)"
    by auto
qed

lemma atomic_rename_tmp_effect:
  assumes r: "atomic_rename_tmp storage_root fs p = Inr (ok, fs')" and wf: "storage_wf fs"
  shows "\<not> ok \<Longrightarrow> fs' = fs"
    and "storage_wf fs'" and "cwd fs' = cwd fs"
    and "ok \<Longrightarrow> file_at fs (temp_key storage_root fs p) = Some c \<Longrightarrow>
      temp_key storage_root fs p \<noteq> target_key storage_root fs p \<Longrightarrow>
      file_at fs' k = (if k = target_key storage_root fs p then Some c
                       else if k = temp_key storage_root fs p then None else file_at fs k)"
proof -
  let ?s = "path_append storage_root (lexically_normal p)"
  let ?t = "temp_key storage_root fs p" and ?d = "target_key storage_root fs p"
  have res: "(if fs_exists fs (?s @ ''.tmp'') then fs_rename fs (?s @ ''.tmp'') ?s else (False, fs)) = (ok, fs')"
    using r by (auto simp: atomic_rename_tmp_def tmp_path_for_def resolve_path_Inr_iff bind_result_Inr_iff)
  then have two: "(\<not> ok \<and> fs' = fs) \<or> rename_key ?t ?d fs = (ok, fs')"
    by (auto simp: fs_rename_def temp_key_def target_key_def split: if_splits)
  show "storage_wf fs'" using two wf rename_key_wf [OF wf] by blast
  show "\<not> ok \<Longrightarrow> fs' = fs" and "cwd fs' = cwd fs"
    using two by (auto simp: rename_key_def split: if_splits)
  show "file_at fs' k = (if k = ?d then Some c else if k = ?t then None else file_at fs k)"
    if "ok" and c: "file_at fs ?t = Some c" and ne: "?t \<noteq> ?d"
  proof -
    have rk: "rename_key ?t ?d fs = (True, fs')" using two \<open>ok\<close> by auto
    then have allowed: "rename_allowed fs ?t ?d" using ne by (auto simp: rename_key_def split: if_splits)
    obtain t where "node_at fs ?t = Some (File c t)"
      using c by (auto simp: file_at_def split: option.splits node.splits)
    from rename_file [OF wf this allowed ne rk, of k] show ?thesis
      by (simp add: file_at_def)
  qed
qed

section \<open>The contract of a staging store\<close>

text \<open>
  What the callers of the file manager rely on: data is staged beside a file, and one commit makes
  the staged data the file's contents.  \<open>merge d c\<close> is what the staging file holds after staging
  \<open>d\<close> on top of \<open>c\<close>.
\<close>

fun stage_all :: "('s \<Rightarrow> 'd \<Rightarrow> (bool \<times> 's) result) \<Rightarrow> 's \<Rightarrow> 'd list \<Rightarrow> (bool \<times> 's) result" where
  "stage_all stage s [] = Inr (True, s)"
| "stage_all stage s (d # ds) =
     bind_result (stage s d) (\<lambda>(ok, s'). if ok then stage_all stage s' ds else Inr (False, s'))"

locale staging_store =
  fixes wf :: "'s \<Rightarrow> bool"
    and served :: "'n \<Rightarrow> bool"
    and temp :: "'s \<Rightarrow> 'n \<Rightarrow> 'k"
    and target :: "'s \<Rightarrow> 'n \<Rightarrow> 'k"
    and contents :: "'s \<Rightarrow> 'k \<Rightarrow> byte list option"
    and stage :: "'n \<Rightarrow> 's \<Rightarrow> 'd \<Rightarrow> (bool \<times> 's) result"
    and merge :: "'d \<Rightarrow> byte list \<Rightarrow> byte list"
    and commit :: "'n \<Rightarrow> 's \<Rightarrow> (bool \<times> 's) result"
  assumes temp_not_target: "served n \<Longrightarrow> temp s n \<noteq> target s n"
    and stage_wf: "wf s \<Longrightarrow> stage n s d = Inr (ok, s') \<Longrightarrow> wf s'"
    and stage_names: "stage n s d = Inr (ok, s') \<Longrightarrow> temp s' m = temp s m \<and> target s' m = target s m"
    and stage_frame: "stage n s d = Inr (ok, s') \<Longrightarrow> k \<noteq> temp s n \<Longrightarrow> contents s' k = contents s k"
    and stage_data: "stage n s d = Inr (True, s') \<Longrightarrow>
      contents s' (temp s n) = Some (merge d (content_or_empty (contents s (temp s n))))"
    and commit_failed: "wf s \<Longrightarrow> commit n s = Inr (False, s') \<Longrightarrow> s' = s"
    and commit_done: "wf s \<Longrightarrow> served n \<Longrightarrow> commit n s = Inr (True, s') \<Longrightarrow>
      contents s (temp s n) = Some c \<Longrightarrow>
      contents s' k = (if k = target s n then Some c else if k = temp s n then None else contents s k)"
begin

lemma stage_all_step:
  assumes "stage_all (stage n) s (d # ds) = Inr (ok, s')"
  obtains s1 where "stage n s d = Inr (True, s1)" "stage_all (stage n) s1 ds = Inr (ok, s')"
  | "stage n s d = Inr (False, s')" "\<not> ok"
  using assms by (auto simp: bind_result_Inr_iff split: if_splits)

lemma stage_all_frame:
  "wf s \<Longrightarrow> stage_all (stage n) s ds = Inr (ok, s') \<Longrightarrow>
     wf s' \<and> temp s' n = temp s n \<and> target s' n = target s n \<and>
     (\<forall>k. k \<noteq> temp s n \<longrightarrow> contents s' k = contents s k)"
proof (induction ds arbitrary: s)
  case (Cons d ds)
  from Cons.prems(2) show ?case
  proof (cases rule: stage_all_step)
    case (1 s1)
    with Cons.IH [of s1] stage_wf [OF Cons.prems(1) 1(1)] stage_names [OF 1(1)] stage_frame [OF 1(1)]
    show ?thesis by simp
  next
    case 2
    with stage_wf [OF Cons.prems(1) 2(1)] stage_names [OF 2(1)] stage_frame [OF 2(1)]
    show ?thesis by simp
  qed
qed simp

lemma stage_all_data:
  "stage_all (stage n) s ds = Inr (True, s') \<Longrightarrow> ds \<noteq> [] \<Longrightarrow>
     contents s' (temp s n) = Some (fold merge ds (content_or_empty (contents s (temp s n))))"
proof (induction ds arbitrary: s)
  case (Cons d ds)
  from Cons.prems(1) show ?case
  proof (cases rule: stage_all_step)
    case (1 s1)
    with stage_data [OF 1(1)] stage_names [OF 1(1)] Cons.IH [of s1] show ?thesis
      by (cases "ds = []") (auto simp: content_or_empty_def)
  qed simp
qed simp

text \<open>
  Publishing: the file has its old contents until a commit succeeds, and then what was staged;
  no other file changes.
\<close>

lemma publish_done:
  assumes "wf s" "served n" "ds \<noteq> []"
    and "stage_all (stage n) s ds = Inr (True, s1)" and "commit n s1 = Inr (True, s2)"
  shows "contents s2 k =
    (if k = target s n then Some (fold merge ds (content_or_empty (contents s (temp s n))))
     else if k = temp s n then None else contents s k)"
proof -
  note f = stage_all_frame [OF assms(1,4)]
  have "contents s1 (temp s1 n) = Some (fold merge ds (content_or_empty (contents s (temp s n))))"
    using stage_all_data [OF assms(4,3)] f by simp
  from commit_done [OF _ assms(2,5) this, of k] f show ?thesis by auto
qed

lemma publish_not_done:
  assumes "wf s" "served n" and "stage_all (stage n) s ds = Inr (ok, s1)"
    and "s2 = s1 \<or> commit n s1 = Inr (False, s2)" and "k \<noteq> temp s n"
  shows "contents s2 k = contents s k"
  using stage_all_frame [OF assms(1,3)] commit_failed [of s1 n s2] assms(4,5) by auto

end

text \<open>
  The file manager is such a store twice: for whole files, and for blocks.  A name is the root
  directory with a relative path, both free of NUL characters.
\<close>

definition served_name :: "string \<times> string \<Rightarrow> bool" where
  "served_name n \<longleftrightarrow> CHR 0x00 \<notin> set (fst n) \<and> CHR 0x00 \<notin> set (snd n)"

lemma temp_key_not_target:
  assumes "CHR 0x00 \<notin> set storage_root" and "CHR 0x00 \<notin> set p"
  shows "temp_key storage_root fs p \<noteq> target_key storage_root fs p"
  unfolding temp_key_def target_key_def
  by (rule os_key_tmp_differs) (use assms set_lexically_normal [of p] in \<open>auto simp: path_append_def\<close>)

interpretation whole_file: staging_store storage_wf served_name
  "\<lambda>fs n. temp_key (fst n) fs (snd n)" "\<lambda>fs n. target_key (fst n) fs (snd n)" file_at
  "\<lambda>n fs data. write_file_atomic (fst n) fs (snd n) data" "\<lambda>data c. data"
  "\<lambda>n fs. atomic_rename_tmp (fst n) fs (snd n)"
proof (unfold_locales, goal_cases)
  case (1 n s)
  then show ?case by (simp add: served_name_def temp_key_not_target)
next
  case (2 s n d ok s')
  have t: "touches {temp_key (fst n) s (snd n)} {k. prefix k (parent_key (fst n) s (snd n))} s s'"
    using 2(2) by (rule write_file_atomic_effect(1))
  with 2(1) show ?case by (simp add: touches_def)
next
  case (3 n s d ok s' m)
  have t: "touches {temp_key (fst n) s (snd n)} {k. prefix k (parent_key (fst n) s (snd n))} s s'"
    using 3 by (rule write_file_atomic_effect(1))
  then show ?case by (simp add: touches_def temp_key_def target_key_def)
next
  case (4 n s d ok s' k)
  have t: "touches {temp_key (fst n) s (snd n)} {k. prefix k (parent_key (fst n) s (snd n))} s s'"
    using 4(1) by (rule write_file_atomic_effect(1))
  show ?case using touches_file_at [OF t] 4(2) by simp
next
  case (5 n s d s')
  show ?case
    using write_file_atomic_effect(2) [OF 5] by blast
next
  case (6 s n s')
  show ?case by (rule atomic_rename_tmp_effect(1) [OF 6(2,1)]) simp
next
  case (7 s n s' c k)
  show ?case
    by (rule atomic_rename_tmp_effect(4) [OF 7(3,1) _ 7(4)])
      (use 7(2) in \<open>simp_all add: served_name_def temp_key_not_target\<close>)
qed

interpretation block_file: staging_store storage_wf served_name
  "\<lambda>fs n. temp_key (fst n) fs (snd n)" "\<lambda>fs n. target_key (fst n) fs (snd n)" file_at
  "\<lambda>n fs (offset, data). write_block_atomic (fst n) fs (snd n) offset data"
  "\<lambda>(offset, data) c. overwrite c (nat (sint offset)) data"
  "\<lambda>n fs. atomic_rename_tmp (fst n) fs (snd n)"
proof (unfold_locales, goal_cases)
  case (1 n s)
  then show ?case by (simp add: served_name_def temp_key_not_target)
next
  case (2 s n d ok s')
  have t: "touches {temp_key (fst n) s (snd n)} {k. prefix k (parent_key (fst n) s (snd n))} s s'"
    using 2(2) unfolding split_beta by (rule write_block_atomic_effect(1))
  with 2(1) show ?case by (simp add: touches_def)
next
  case (3 n s d ok s' m)
  have t: "touches {temp_key (fst n) s (snd n)} {k. prefix k (parent_key (fst n) s (snd n))} s s'"
    using 3 unfolding split_beta by (rule write_block_atomic_effect(1))
  then show ?case by (simp add: touches_def temp_key_def target_key_def)
next
  case (4 n s d ok s' k)
  have t: "touches {temp_key (fst n) s (snd n)} {k. prefix k (parent_key (fst n) s (snd n))} s s'"
    using 4(1) unfolding split_beta by (rule write_block_atomic_effect(1))
  show ?case using touches_file_at [OF t] 4(2) by simp
next
  case (5 n s d s')
  show ?case
    using write_block_atomic_effect(2) [OF 5 [unfolded split_beta]] unfolding split_beta by blast
next
  case (6 s n s')
  show ?case by (rule atomic_rename_tmp_effect(1) [OF 6(2,1)]) simp
next
  case (7 s n s' c k)
  show ?case
    by (rule atomic_rename_tmp_effect(4) [OF 7(3,1) _ 7(4)])
      (use 7(2) in \<open>simp_all add: served_name_def temp_key_not_target\<close>)
qed

section \<open>When the writing operations succeed\<close>

text \<open>
  A storage without permission problems, and a place in it where a file can be written: no regular
  file where a directory is needed, no directory where the file or its staging file is to be.
\<close>

definition healthy :: "storage \<Rightarrow> bool" where
  "healthy fs \<longleftrightarrow> no_read fs = [] \<and> no_write fs = [] \<and> node_at fs (cwd fs) = Some Dir"

definition writable_place :: "string \<Rightarrow> storage \<Rightarrow> string \<Rightarrow> bool" where
  "writable_place storage_root fs p \<longleftrightarrow>
     list_all (\<lambda>i. file_at fs (take i (target_key storage_root fs p)) = None)
       [0..<length (target_key storage_root fs p)] \<and>
     node_at fs (target_key storage_root fs p) \<noteq> Some Dir \<and>
     node_at fs (temp_key storage_root fs p) \<noteq> Some Dir"

lemma file_at_None_iff: "file_at fs k = None \<longleftrightarrow> node_at fs k = None \<or> node_at fs k = Some Dir"
  by (auto simp: file_at_def split: option.splits node.splits)

lemma plain_keys:
  assumes "plain_path p" and "CHR 0x00 \<notin> set storage_root"
  shows "target_key storage_root fs p = os_key (cwd fs) storage_root @ split_slash p"
    and "temp_key storage_root fs p = butlast (target_key storage_root fs p) @ [last (split_slash p) @ ''.tmp'']"
    and "key_dir (cwd fs) (path_append storage_root p) = butlast (target_key storage_root fs p)"
  using plain_path_keys [OF assms] lexically_normal_plain [OF assms(1)]
  by (simp_all add: target_key_def temp_key_def butlast_append)

text \<open>With no regular file in the way, the directories above a name can be made.\<close>

lemma make_parents_ok:
  assumes "no_write fs = []" and "k \<noteq> []" and free: "\<And>i. i < length k \<Longrightarrow> file_at fs (take i k) = None"
  shows "fst (make_dirs [] (butlast k) fs)" and "node_at (snd (make_dirs [] (butlast k) fs)) (butlast k) = Some Dir"
proof -
  have "case node_at fs ([] @ take (Suc i) (butlast k)) of Some (File _ _) \<Rightarrow> False | _ \<Rightarrow> True" for i
  proof -
    let ?i = "min (Suc i) (length k - 1)"
    have "?i < length k" using assms(2) by (cases k) auto
    then have "file_at fs (take ?i k) = None" by (rule free)
    then show ?thesis by (auto simp: file_at_None_iff take_butlast butlast_conv_take min_def)
  qed
  then show made: "fst (make_dirs [] (butlast k) fs)" using assms(1) by (intro make_dirs_ok)
  have "node_at fs [] = Some Dir" by (simp add: node_at_def)
  with made show "node_at (snd (make_dirs [] (butlast k) fs)) (butlast k) = Some Dir"
    using make_dirs_result [of fs "[]" "butlast k"] by simp
qed

lemma ensure_parent_dirs_ok:
  assumes p: "plain_path p" "CHR 0x00 \<notin> set storage_root"
    and fs: "healthy fs" "storage_wf fs" "writable_place storage_root fs p"
  obtains fs1 where "ensure_parent_dirs storage_root fs p = Inr (True, fs1)"
    and "node_at fs1 (butlast (target_key storage_root fs p)) = Some Dir"
proof (cases "parent_path (path_append storage_root p) = []")
  case True
  then have "ensure_parent_dirs storage_root fs p = Inr (True, fs)"
    by (simp add: ensure_parent_dirs_def resolve_plain [OF p(1)])
  moreover have "butlast (target_key storage_root fs p) = cwd fs"
    using parent_path_empty [OF True] plain_keys(3) [OF p] by simp
  ultimately show ?thesis using that fs(1) by (simp add: healthy_def)
next
  case False
  let ?s = "path_append storage_root p" and ?t = "target_key storage_root fs p"
  have nul: "CHR 0x00 \<notin> set ?s" using plain_path_keys(6) [OF p] .
  have key: "os_key (cwd fs) (parent_path ?s) = butlast ?t"
    using os_key_parent_path [OF nul False] plain_keys(3) [OF p] by simp
  have made: "fst (make_dirs [] (butlast ?t) fs)" "node_at (snd (make_dirs [] (butlast ?t) fs)) (butlast ?t) = Some Dir"
    using make_parents_ok [of fs ?t] fs plain_keys(1) [OF p] by (auto simp: writable_place_def healthy_def list_all_iff)
  have "c_str (parent_path ?s) \<noteq> []"
  proof -
    have "CHR 0x00 \<notin> set (parent_path ?s)" using nul set_parent_path [of ?s] by fastforce
    then show ?thesis using False c_str_id by metis
  qed
  then have "create_directories fs (parent_path ?s) = make_dirs [] (butlast ?t) fs"
    by (simp add: create_directories_def key)
  then have "ensure_parent_dirs storage_root fs p = Inr (True, snd (make_dirs [] (butlast ?t) fs))"
    using False made by (simp add: ensure_parent_dirs_def resolve_plain [OF p(1)] prod_eq_iff)
  then show ?thesis using that made(2) by blast
qed

lemma parent_key_plain:
  assumes p: "plain_path p" "CHR 0x00 \<notin> set storage_root"
  shows "parent_key storage_root fs p = butlast (target_key storage_root fs p)"
proof (cases "parent_path (path_append storage_root p) = []")
  case True
  then show ?thesis
    using parent_path_empty [OF True] plain_keys(3) [OF p]
    by (simp add: parent_key_def lexically_normal_plain [OF p(1)] os_key_empty)
next
  case False
  then show ?thesis
    using os_key_parent_path [OF plain_path_keys(6) [OF p] False] plain_keys(3) [OF p]
    by (simp add: parent_key_def lexically_normal_plain [OF p(1)])
qed

lemma staging_tmp_path:
  assumes p: "plain_path p" "CHR 0x00 \<notin> set storage_root"
  shows "c_str (path_append storage_root p @ ''.tmp'') \<noteq> []"
    and "\<not> dir_only (path_append storage_root p @ ''.tmp'')"
proof -
  let ?s = "path_append storage_root p"
  have nul: "CHR 0x00 \<notin> set (?s @ ''.tmp'')" using plain_path_keys(6) [OF p] by simp
  show "c_str (?s @ ''.tmp'') \<noteq> []" using c_str_id [OF nul] by simp
  have "split_slash (?s @ ''.tmp'') = butlast (split_slash ?s) @ [last (split_slash ?s) @ ''.tmp'']"
    by (rule split_slash_extend) simp
  then show "\<not> dir_only (?s @ ''.tmp'')"
    unfolding dir_only_def c_str_id [OF nul] by simp
qed

text \<open>With the directory in place, the staging file can be created, read back and written.\<close>

lemma staging_file_opens:
  assumes p: "plain_path p" "CHR 0x00 \<notin> set storage_root"
    and fs: "healthy fs" "storage_wf fs" "writable_place storage_root fs p"
  obtains fs1 where "ensure_parent_dirs storage_root fs p = Inr (True, fs1)"
    and "open_trunc fs1 (path_append storage_root p @ ''.tmp'') \<noteq> None"
    and "touches {} {k. prefix k (parent_key storage_root fs p)} fs fs1"
    and "os_key (cwd fs1) (path_append storage_root p @ ''.tmp'') = temp_key storage_root fs p"
    and "c_str (path_append storage_root p @ ''.tmp'') \<noteq> []" and "\<not> dir_only (path_append storage_root p @ ''.tmp'')"
proof -
  let ?s = "path_append storage_root p" and ?k = "temp_key storage_root fs p"
  obtain fs1 where e: "ensure_parent_dirs storage_root fs p = Inr (True, fs1)"
    and dir: "node_at fs1 (butlast (target_key storage_root fs p)) = Some Dir"
    using ensure_parent_dirs_ok [OF p fs] .
  note t = touches_ensure_parent_dirs [OF e]
  have key: "os_key (cwd fs1) (?s @ ''.tmp'') = ?k"
    using t by (simp add: temp_key_def touches_def lexically_normal_plain [OF p(1)])
  note c = staging_tmp_path(1) [OF p] and d = staging_tmp_path(2) [OF p]
  note parent_key_plain [OF p]
  moreover have "\<not> prefix ?k (butlast (target_key storage_root fs p))"
    by (auto simp: plain_keys(2) [OF p] dest: prefix_length_le)
  ultimately have same: "node_at fs1 ?k = node_at fs ?k"
    using t by (auto simp: touches_def)
  moreover have "creatable fs1 ?k"
    using dir t fs(1) by (simp add: creatable_def plain_keys(2) [OF p] butlast_append touches_def healthy_def)
  moreover have "node_at fs ?k \<noteq> Some Dir" using fs(3) by (simp add: writable_place_def)
  moreover have "no_write fs1 = []" using t fs(1) by (simp add: touches_def healthy_def)
  ultimately have "open_trunc fs1 (?s @ ''.tmp'') \<noteq> None"
    using d c by (auto simp: open_trunc_def key Let_def split: option.splits node.splits)
  with that e t key c d show ?thesis by blast
qed

lemma write_file_atomic_ok:
  assumes p: "plain_path p" "CHR 0x00 \<notin> set storage_root"
    and fs: "healthy fs" "storage_wf fs" "writable_place storage_root fs p"
    and fits: "length data \<le> max_file fs"
  shows "\<exists>fs'. write_file_atomic storage_root fs p data = Inr (True, fs')"
proof -
  let ?q = "path_append storage_root p @ ''.tmp''"
  obtain fs1 fs2 where e: "ensure_parent_dirs storage_root fs p = Inr (True, fs1)"
    and o: "open_trunc fs1 ?q = Some fs2"
    and t: "touches {} {k. prefix k (parent_key storage_root fs p)} fs fs1"
    using staging_file_opens [OF p fs] by (metis not_Some_eq)
  note t2 = touches_open_trunc [OF o]
  have "fst (seek_write fs2 (os_key (cwd fs2) ?q) 0 data)"
    using t t2 fits by (intro seek_write_ok) (auto simp: touches_def)
  then show ?thesis
    using e o by (simp add: write_file_atomic_def tmp_path_for_def resolve_plain [OF p(1)]) (metis prod.collapse)
qed

lemma write_block_atomic_ok:
  assumes p: "plain_path p" "CHR 0x00 \<notin> set storage_root"
    and fs: "healthy fs" "storage_wf fs" "writable_place storage_root fs p"
    and fits: "0 \<le> sint offset" "nat (sint offset) + length data \<le> max_file fs"
  shows "\<exists>fs'. write_block_atomic storage_root fs p offset data = Inr (True, fs')"
proof -
  let ?q = "path_append storage_root p @ ''.tmp''" and ?k = "temp_key storage_root fs p"
  obtain fs1 fs2 where e: "ensure_parent_dirs storage_root fs p = Inr (True, fs1)"
    and o: "open_trunc fs1 ?q = Some fs2"
    and t: "touches {} {k. prefix k (parent_key storage_root fs p)} fs fs1"
    and key: "os_key (cwd fs1) ?q = ?k" and q: "c_str ?q \<noteq> []" "\<not> dir_only ?q"
    using staging_file_opens [OF p fs] by (metis not_Some_eq)
  note t2 = touches_open_trunc [OF o, unfolded key]
  have key2: "os_key (cwd fs2) ?q = ?k" using key t2 by (simp add: touches_def)
  have writes: "fst (seek_write f ?k (sint offset) data)"
    if "file_at f ?k \<noteq> None" "max_file f = max_file fs" for f
    using that fits by (auto intro: seek_write_ok)
  have "no_read fs2 = []" "no_write fs2 = []"
    using t t2(1) [of "{}"] fs(1) by (simp_all add: touches_def healthy_def)
  then have "open_inout fs2 ?q"
    unfolding open_inout_iff key2 using q t2(2) by simp
  moreover have "max_file fs1 = max_file fs" "max_file fs2 = max_file fs"
    using t t2 by (simp_all add: touches_def)
  moreover have "file_at fs1 ?k \<noteq> None" if "open_inout fs1 ?q"
    using that by (simp add: open_inout_iff key)
  ultimately show ?thesis
    using e o key writes [of fs1] writes [of fs2] t2(2)
    by (simp add: write_block_atomic_def tmp_path_for_def resolve_plain [OF p(1)] Let_def)
      (metis option.distinct(1) prod.collapse)
qed

text \<open>Staging keeps the storage healthy and the place writable.\<close>

lemma staging_keeps_place:
  assumes p: "plain_path p" "CHR 0x00 \<notin> set storage_root"
    and fs: "healthy fs" "writable_place storage_root fs p"
    and t: "touches {temp_key storage_root fs p} {k. prefix k (parent_key storage_root fs p)} fs fs'"
    and staged: "file_at fs' (temp_key storage_root fs p) \<noteq> None"
  shows "healthy fs' \<and> writable_place storage_root fs' p"
proof -
  let ?t = "target_key storage_root fs p" and ?k = "temp_key storage_root fs p"
  have keys: "target_key storage_root fs' p = ?t" "temp_key storage_root fs' p = ?k"
    using t by (simp_all add: touches_def target_key_def temp_key_def)
  have t_ne: "?t \<noteq> []" using plain_keys(1) [OF p] by simp
  have ne: "?k \<noteq> ?t" and len: "length ?k = length ?t"
    using temp_key_not_target [OF p(2), of p] p(1) t_ne by (auto simp: plain_keys(2) [OF p] plain_path_def)
  have "node_at fs ?k \<noteq> Some Dir" "node_at fs ?t \<noteq> Some Dir" using fs(2) by (simp_all add: writable_place_def)
  have "node_at fs' ?k \<noteq> Some Dir" using staged by (auto simp: file_at_def)
  moreover have "node_at fs' ?t \<noteq> Some Dir"
  proof -
    have "\<not> prefix ?t (parent_key storage_root fs p)"
      using parent_key_plain [OF p, of fs] t_ne
      by (metis append_butlast_last_id length_append_singleton not_less_eq_eq order_refl prefix_length_le)
    then have "node_at fs' ?t = node_at fs ?t"
      using t ne unfolding touches_def by (metis mem_Collect_eq singletonD)
    then show ?thesis using \<open>node_at fs ?t \<noteq> Some Dir\<close> by simp
  qed
  moreover have "file_at fs' (take i ?t) = None" if "i < length ?t" for i
  proof -
    have "take i ?t \<noteq> ?k" using that len by (metis length_take less_irrefl min.absorb4)
    with touches_file_at [OF t] fs(2) that show ?thesis by (simp add: writable_place_def list_all_iff)
  qed
  moreover have "node_at fs' (cwd fs') = Some Dir"
    using t fs(1) \<open>node_at fs ?k \<noteq> Some Dir\<close> unfolding touches_def healthy_def by (metis option.distinct(1) singletonD)
  ultimately show ?thesis
    using t fs(1) by (simp add: writable_place_def keys list_all_iff healthy_def touches_def)
qed

lemma atomic_rename_tmp_ok:
  assumes p: "plain_path p" "CHR 0x00 \<notin> set storage_root"
    and fs: "healthy fs" "storage_wf fs" "writable_place storage_root fs p"
    and staged: "file_at fs (temp_key storage_root fs p) = Some c"
  shows "\<exists>fs'. atomic_rename_tmp storage_root fs p = Inr (True, fs')"
proof -
  let ?s = "path_append storage_root p"
  let ?t = "target_key storage_root fs p" and ?k = "temp_key storage_root fs p"
  obtain t where k: "node_at fs ?k = Some (File c t)"
    using staged by (auto simp: file_at_def split: option.splits node.splits)
  have ne: "?k \<noteq> ?t" using temp_key_not_target [OF p(2), of p] p(1) by (simp add: plain_path_def)
  have bl: "butlast ?k = butlast ?t" by (simp add: plain_keys(2) [OF p])
  have "node_at fs (butlast ?t) = Some Dir" using parent_dir [OF fs(2) k] bl by simp
  moreover have "?t \<noteq> []" using plain_keys(1) [OF p] by simp
  moreover have "?k \<noteq> []" using k by (auto simp: node_at_def)
  moreover have "node_at fs ?t \<noteq> Some Dir" using fs(3) by (simp add: writable_place_def)
  ultimately have "rename_allowed fs ?k ?t"
    using k fs(1) by (auto simp: rename_allowed_def creatable_def healthy_def split: option.splits node.splits)
  moreover have "os_node fs (?s @ ''.tmp'') = Some (File c t)"
    using k staging_tmp_path [OF p] by (simp add: os_node_def temp_key_def lexically_normal_plain [OF p(1)])
  ultimately show ?thesis
    using plain_path_keys(4,5) [OF p] ne
    by (simp add: atomic_rename_tmp_def tmp_path_for_def resolve_plain [OF p(1)] fs_exists_def fs_rename_def
        rename_key_def temp_key_def target_key_def lexically_normal_plain [OF p(1)])
qed

section \<open>Blocks written in any order\<close>

text \<open>The block list of a file: the offset and the bytes of each block of \<open>bs\<close> bytes.\<close>

definition block_of :: "nat \<Rightarrow> byte list \<Rightarrow> nat \<Rightarrow> u64 \<times> byte list" where
  "block_of bs content i = (word_of_nat (i * bs), take bs (drop (i * bs) content))"

definition block_count :: "nat \<Rightarrow> nat \<Rightarrow> nat" where
  "block_count bs n = (n + bs - 1) div bs"

abbreviation put_block :: "u64 \<times> byte list \<Rightarrow> byte list \<Rightarrow> byte list" where
  "put_block \<equiv> (\<lambda>(offset, data) c. overwrite c (nat (sint offset)) data)"

lemma block_count_bounds:
  assumes "0 < bs"
  shows "i < block_count bs n \<longleftrightarrow> i * bs < n"
proof -
  have "i < (n + bs - 1) div bs \<longleftrightarrow> Suc i * bs \<le> n + bs - 1"
    using less_eq_div_iff_mult_less_eq [OF assms, of "Suc i" "n + bs - 1"] by (simp add: Suc_le_eq)
  then show ?thesis using assms by (auto simp: block_count_def)
qed

text \<open>One block: it is there afterwards, and what was right stays right.\<close>

lemma put_block_step:
  assumes bs: "0 < bs" and small: "length content < 2 ^ 63"
    and i: "i < block_count bs (length content)" and c0: "length c \<le> length content"
  defines "c' \<equiv> put_block (block_of bs content i) c"
  shows "length c' \<le> length content"
    and "j < length content \<Longrightarrow> j div bs = i \<or> j < length c \<and> c ! j = content ! j \<Longrightarrow>
      j < length c' \<and> c' ! j = content ! j"
proof -
  let ?d = "take bs (drop (i * bs) content)"
  have i_lt: "i * bs < length content" using block_count_bounds [OF bs] i by simp
  have c': "c' = overwrite c (i * bs) ?d"
    using i_lt small by (simp add: c'_def block_of_def sint_offset del: of_nat_mult)
  have d: "?d \<noteq> []" using i_lt bs by simp
  have len: "length c' = max (length c) (i * bs + min bs (length content - i * bs))"
    unfolding c' length_overwrite using d by (simp add: min.commute)
  then show "length c' \<le> length content" using c0 i_lt by simp
  assume j: "j < length content" and here: "j div bs = i \<or> j < length c \<and> c ! j = content ! j"
  have inside: "i * bs \<le> j \<and> j < i * bs + length ?d" if "j div bs = i"
    using that j bs div_times_less_eq_dividend [of j bs] dividend_less_div_times [OF bs, of j]
    by (auto simp: min_def)
  then have j': "j < length c'" using here len by auto
  moreover have "?d ! (j - i * bs) = content ! j" if "i * bs \<le> j \<and> j < i * bs + length ?d"
    using that by (subst nth_take) auto
  ultimately show "j < length c' \<and> c' ! j = content ! j"
    using here inside nth_overwrite [of j c "i * bs" ?d] unfolding c' by auto
qed

lemma put_blocks_partial:
  assumes bs: "0 < bs" and small: "length content < 2 ^ 63"
  shows "\<forall>i \<in> set ids. i < block_count bs (length content) \<Longrightarrow> length c \<le> length content \<Longrightarrow>
    length (fold put_block (map (block_of bs content) ids) c) \<le> length content \<and>
    (\<forall>j < length content. j div bs \<in> set ids \<or> j < length c \<and> c ! j = content ! j \<longrightarrow>
      j < length (fold put_block (map (block_of bs content) ids) c) \<and>
      fold put_block (map (block_of bs content) ids) c ! j = content ! j)"
proof (induction ids arbitrary: c)
  case (Cons i ids)
  then have i: "i < block_count bs (length content)" by simp
  note one = put_block_step [OF bs small i Cons.prems(2)]
  have IH: "length (fold put_block (map (block_of bs content) ids) (put_block (block_of bs content i) c)) \<le> length content \<and>
    (\<forall>j < length content. j div bs \<in> set ids \<or> j < length (put_block (block_of bs content i) c) \<and>
        put_block (block_of bs content i) c ! j = content ! j \<longrightarrow>
      j < length (fold put_block (map (block_of bs content) ids) (put_block (block_of bs content i) c)) \<and>
      fold put_block (map (block_of bs content) ids) (put_block (block_of bs content i) c) ! j = content ! j)"
    using Cons.prems(1) one(1) by (intro Cons.IH) auto
  show ?case
    unfolding list.map fold_Cons o_apply using IH one(2) by (metis set_ConsD)
qed simp

lemma put_blocks_all:
  assumes bs: "0 < bs" and small: "length content < 2 ^ 63"
    and all: "set ids = {..<block_count bs (length content)}"
  shows "fold put_block (map (block_of bs content) ids) [] = content"
proof -
  let ?r = "fold put_block (map (block_of bs content) ids) []"
  have "j div bs \<in> set ids" if "j < length content" for j
    using that all block_count_bounds [OF bs, of "j div bs" "length content"]
      div_times_less_eq_dividend [of j bs] by simp
  then have le: "length ?r \<le> length content"
    and at: "j < length content \<Longrightarrow> j < length ?r \<and> ?r ! j = content ! j" for j
    using put_blocks_partial [OF bs small, of ids "[]"] all by auto
  have "length ?r = length content"
    using le at [of "length ?r"] by (metis le_neq_implies_less less_irrefl)
  with at show ?thesis by (intro nth_equalityI) simp_all
qed

section \<open>Properties\<close>

lemma block_stage_all_ok:
  assumes p: "plain_path p" "CHR 0x00 \<notin> set storage_root"
  shows "healthy fs \<Longrightarrow> storage_wf fs \<Longrightarrow> writable_place storage_root fs p \<Longrightarrow>
    (\<forall>(offset, data) \<in> set ds. 0 \<le> sint offset \<and> nat (sint offset) + length data \<le> max_file fs) \<Longrightarrow>
    \<exists>fs'. stage_all (\<lambda>fs (offset, data). write_block_atomic storage_root fs p offset data) fs ds = Inr (True, fs')
      \<and> (ds \<noteq> [] \<longrightarrow> healthy fs' \<and> storage_wf fs' \<and> writable_place storage_root fs' p)"
proof (induction ds arbitrary: fs)
  case (Cons d ds)
  obtain offset data where d: "d = (offset, data)" by (cases d)
  obtain fs1 where w: "write_block_atomic storage_root fs p offset data = Inr (True, fs1)"
    using write_block_atomic_ok [OF p Cons.prems(1-3), of offset data] Cons.prems(4) d by auto
  note t = write_block_atomic_effect [OF w]
  then have "file_at fs1 (temp_key storage_root fs p) \<noteq> None" by simp
  from staging_keeps_place [OF p Cons.prems(1,3) t(1) this]
  have place: "healthy fs1" "writable_place storage_root fs1 p" by simp_all
  have wf: "storage_wf fs1" and "max_file fs1 = max_file fs"
    using t(1) Cons.prems(2) by (simp_all add: touches_def)
  then have "\<forall>(offset, data) \<in> set ds. 0 \<le> sint offset \<and> nat (sint offset) + length data \<le> max_file fs1"
    using Cons.prems(4) by auto
  from Cons.IH [OF place(1) wf place(2) this] place wf w d show ?case
    by (cases "ds = []") auto
qed simp

text \<open>
  C15. A request path that is not absolute and is not rejected resolves to a name inside the
  storage root, whatever \<open>.\<close>, \<open>..\<close>, doubled separators or NUL characters it contains.
\<close>

theorem resolve_path_contained:
  assumes "CHR 0x00 \<notin> set storage_root" and "\<not> is_absolute relative_path"
    and "resolve_path storage_root relative_path = Inr s"
  shows "prefix (os_key here storage_root) (os_key here s)"
  using key_contained assms by (auto simp: resolve_path_Inr_iff)

theorem resolve_path_contained_witness:
  "\<exists>s. resolve_path ''./data'' ''a//../b'' = Inr s \<and> os_key [''srv''] s = [''srv'', ''data'', ''b''] \<and>
     prefix (os_key [''srv''] ''./data'') (os_key [''srv''] s)"
proof -
  have "resolve_path ''./data'' ''a//../b'' = Inr ''./data/b''" "\<not> is_absolute ''a//../b''" "CHR 0x00 \<notin> set ''./data''"
    "os_key [''srv''] ''./data/b'' = [''srv'', ''data'', ''b'']"
    by code_simp+
  with resolve_path_contained [of "''./data''" "''a//../b''" "''./data/b''" "[''srv'']"] show ?thesis by blast
qed

text \<open>
  C32. Path resolution, exactly.  The reference is a walk over the names of the path.  A relative path is
  refused when its walk climbs above the root at any point, and also, although it stays inside, when its
  first remaining name merely begins with two dots; every other relative path is accepted and leads to
  exactly the names of the walk below the storage root.  An absolute path is never refused and leads where
  it says: the storage root plays no role.
\<close>

theorem resolve_path_exact:
  assumes nul: "CHR 0x00 \<notin> set storage_root" "CHR 0x00 \<notin> set relative_path"
  shows "if is_absolute relative_path
    then \<exists>s. resolve_path storage_root relative_path = Inr s \<and> os_key here s = os_key here relative_path
    else (case walk [] (split_slash relative_path) of
        None \<Rightarrow> resolve_path storage_root relative_path = Inl (Runtime_error (''Directory traversal detected: '' @ relative_path))
      | Some ns \<Rightarrow>
          if ns \<noteq> [] \<and> take 2 (hd ns) = ''..''
          then resolve_path storage_root relative_path = Inl (Runtime_error (''Directory traversal detected: '' @ relative_path))
          else (\<exists>s. resolve_path storage_root relative_path = Inr s \<and> os_key here s = os_key here storage_root @ ns))"
proof (cases "is_absolute relative_path")
  case True
  note abs = lexically_normal_absolute [OF True]
  then have "take 2 (lexically_normal relative_path) \<noteq> ''..''"
    by (cases "lexically_normal relative_path") (auto simp: is_absolute_def)
  then show ?thesis
    using True abs os_key_normal_absolute [OF True nul(2)] by (simp add: resolve_path_def path_append_def)
next
  case rel: False
  show ?thesis
  proof (cases "walk [] (split_slash relative_path)")
    case None
    then show ?thesis using rel lexically_normal_climbs [OF rel None] by (simp add: resolve_path_def)
  next
    case (Some ns)
    have "take 2 (lexically_normal relative_path) = ''..'' \<longleftrightarrow> ns \<noteq> [] \<and> take 2 (hd ns) = ''..''"
      using rel Some by (rule lexically_normal_walk)
    then show ?thesis
      using rel Some os_key_walk [OF nul rel Some] by (auto simp: resolve_path_def Let_def)
  qed
qed

theorem resolve_path_exact_witness:
  "(\<exists>s. resolve_path ''./data'' ''/etc/../etc/passwd'' = Inr s \<and> os_key [''srv''] s = [''etc'', ''passwd'']) \<and>
   resolve_path ''./data'' ''a/../../data/x'' = Inl (Runtime_error ''Directory traversal detected: a/../../data/x'') \<and>
   resolve_path ''./data'' ''..notes'' = Inl (Runtime_error ''Directory traversal detected: ..notes'') \<and>
   (\<exists>s. resolve_path ''./data'' ''a//./b/../c/'' = Inr s \<and> os_key [''srv''] s = [''srv'', ''data'', ''a'', ''c''])"
proof -
  have facts: "CHR 0x00 \<notin> set ''./data''" "CHR 0x00 \<notin> set ''/etc/../etc/passwd''" "CHR 0x00 \<notin> set ''a/../../data/x''"
    "CHR 0x00 \<notin> set ''..notes''" "CHR 0x00 \<notin> set ''a//./b/../c/''" "is_absolute ''/etc/../etc/passwd''"
    "\<not> is_absolute ''a/../../data/x''" "\<not> is_absolute ''..notes''" "\<not> is_absolute ''a//./b/../c/''"
    "os_key [''srv''] ''/etc/../etc/passwd'' = [''etc'', ''passwd'']" "walk [] (split_slash ''a/../../data/x'') = None"
    "walk [] (split_slash ''..notes'') = Some [''..notes'']" "walk [] (split_slash ''a//./b/../c/'') = Some [''a'', ''c'']"
    "os_key [''srv''] ''./data'' = [''srv'', ''data'']"
    by code_simp+
  note exact = resolve_path_exact [of "''./data''", where here = "[''srv'']", OF facts(1)]
  show ?thesis
    using exact [OF facts(2)] exact [OF facts(3)] exact [OF facts(4)] exact [OF facts(5)]
    by (simp only: facts if_True if_False option.case) simp
qed

lemma parent_key_dir:
  assumes "CHR 0x00 \<notin> set storage_root" and "CHR 0x00 \<notin> set p"
  shows "parent_key storage_root fs p = key_dir (cwd fs) (path_append storage_root (lexically_normal p))"
proof -
  let ?s = "path_append storage_root (lexically_normal p)"
  have "CHR 0x00 \<notin> set ?s" using assms set_lexically_normal [of p] by (auto simp: path_append_def)
  then show ?thesis
    using os_key_parent_path [of ?s] parent_path_empty [of ?s] by (cases "parent_path ?s = []") (simp_all add: parent_key_def)
qed

lemma touches_node:
  "touches K D fs fs' \<Longrightarrow> k \<notin> K \<Longrightarrow> node_at fs' k = node_at fs k \<or> k \<in> D \<and> node_at fs k = None"
  unfolding touches_def by blast

lemma touches_inside:
  assumes nul: "CHR 0x00 \<notin> set storage_root" "CHR 0x00 \<notin> set p"
    and rel: "\<not> is_absolute p" "take 2 (lexically_normal p) \<noteq> ''..''"
    and fs: "storage_wf fs" "node_at fs (os_key (cwd fs) storage_root) = Some Dir"
    and t: "touches {temp_key storage_root fs p} {k. prefix k (parent_key storage_root fs p)} fs fs'"
    and k: "\<not> prefix (os_key (cwd fs) storage_root) k"
  shows "node_at fs' k = node_at fs k"
proof -
  let ?r = "os_key (cwd fs) storage_root" and ?s = "path_append storage_root (lexically_normal p)"
  have "CHR 0x00 \<notin> set (lexically_normal p)" using nul(2) set_lexically_normal [of p] by auto
  then have dir: "prefix ?r (key_dir (cwd fs) ?s)" using key_dir_contained [OF nul(1) _ rel] by simp
  have nul_s: "CHR 0x00 \<notin> set ?s" using nul set_lexically_normal [of p] by (auto simp: path_append_def)
  have "prefix ?r (temp_key storage_root fs p)"
    using dir by (simp add: temp_key_def os_key_tmp [OF nul_s])
  then have "k \<notin> {temp_key storage_root fs p}" using k by auto
  moreover have "node_at fs k \<noteq> None" if "prefix k (parent_key storage_root fs p)"
  proof -
    have "prefix k ?r"
      using that dir k parent_key_dir [OF nul] by (metis prefix_same_cases)
    then have "strict_prefix k ?r" using k by (auto simp: strict_prefix_def)
    then show ?thesis using ancestor_dir [OF fs(1), of ?r k] fs(2) by simp
  qed
  ultimately show ?thesis using touches_node [OF t, of k] by auto
qed

lemma rename_inside:
  assumes wf: "storage_wf fs" and "rename_key src dst fs = (ok, fs')"
    and "prefix r src" "prefix r dst" and k: "\<not> prefix r k"
  shows "node_at fs' k = node_at fs k"
proof (cases "src \<noteq> dst \<and> rename_allowed fs src dst")
  case True
  then have fs': "rename_key src dst fs = (True, fs')"
    and ok: "rename_allowed fs src dst" and ne: "src \<noteq> dst"
    using assms(2) by (auto simp: rename_key_def)
  have "(k, n) \<in> set (nodes fs') \<longleftrightarrow> (k, n) \<in> set (nodes fs)" for n
    unfolding rename_nodes(2) [OF wf ok ne fs']
    using assms(3,4) k by (auto simp: move_key_def dest: prefix_order.trans)
  then have "node_at fs' k = Some n \<longleftrightarrow> node_at fs k = Some n" for n
    using node_at_iff [OF wf] node_at_iff [OF rename_key_wf [OF wf fs']] by auto
  then show ?thesis by (metis option.exhaust)
qed (use assms(2) in \<open>auto simp: rename_key_def split: if_splits\<close>)

text \<open>
  C22. Writing operations on a relative path change nothing outside the storage root: neither
  files nor directories.
\<close>

theorem writes_stay_inside:
  assumes nul: "CHR 0x00 \<notin> set storage_root" "CHR 0x00 \<notin> set relative_path"
    and rel: "\<not> is_absolute relative_path"
    and fs: "storage_wf fs" "node_at fs (os_key (cwd fs) storage_root) = Some Dir"
    and op: "write_file_atomic storage_root fs relative_path data = Inr (ok, fs') \<or>
      write_block_atomic storage_root fs relative_path offset data = Inr (ok, fs') \<or>
      atomic_rename_tmp storage_root fs relative_path = Inr (ok, fs')"
    and k: "\<not> prefix (os_key (cwd fs) storage_root) k"
  shows "node_at fs' k = node_at fs k"
proof -
  let ?r = "os_key (cwd fs) storage_root"
  have up: "take 2 (lexically_normal relative_path) \<noteq> ''..''"
    using op by (auto simp: write_file_atomic_def write_block_atomic_def atomic_rename_tmp_def
        tmp_path_for_def resolve_path_def Let_def)
  consider (touch) "touches {temp_key storage_root fs relative_path}
      {k. prefix k (parent_key storage_root fs relative_path)} fs fs'"
    | (move) "atomic_rename_tmp storage_root fs relative_path = Inr (ok, fs')"
    using op write_file_atomic_effect(1) write_block_atomic_effect(1) by blast
  then show ?thesis
  proof cases
    case touch
    then show ?thesis by (rule touches_inside [OF nul rel up fs _ k])
  next
    case move
    let ?s = "path_append storage_root (lexically_normal relative_path)"
    have "prefix ?r (os_key (cwd fs) ?s)" using key_contained [OF nul(1) rel up] .
    moreover have "prefix ?r (os_key (cwd fs) (?s @ ''.tmp''))"
      using tmp_contained [OF nul(1) rel up] .
    moreover have "fs' = fs \<or> (\<exists>b. rename_key (os_key (cwd fs) (?s @ ''.tmp'')) (os_key (cwd fs) ?s) fs = (b, fs'))"
      using move by (auto simp: atomic_rename_tmp_def tmp_path_for_def resolve_path_Inr_iff bind_result_Inr_iff
          fs_rename_def split: if_splits)
    ultimately show ?thesis using rename_inside [OF fs(1)] k by blast
  qed
qed

definition demo_storage :: storage where
  "demo_storage = \<lparr>nodes = [([''srv''], Dir), ([''srv'', ''data''], Dir),
       ([''srv'', ''data'', ''notes''], File [1, 2, 3, 4, 5] 100), ([''etc''], Dir),
       ([''etc'', ''passwd''], File [7] 50)],
     cwd = [''srv''], no_read = [], no_write = [], max_file = 1000, file_now = 200, sys_now = 900\<rparr>"

lemma demo_storage_facts:
  "plain_path ''sub/new''" "plain_path ''notes''" "CHR 0x00 \<notin> set ''./data''"
  "healthy demo_storage" "storage_wf demo_storage"
  "writable_place ''./data'' demo_storage ''sub/new''" "writable_place ''./data'' demo_storage ''notes''"
  "max_file demo_storage = 1000"
  by code_simp+

lemma demo_storage_bounded: "files_bounded demo_storage"
  by code_simp

theorem writes_stay_inside_witness:
  "\<exists>fs'. write_file_atomic ''./data'' demo_storage ''sub/new'' [9] = Inr (True, fs') \<and>
     node_at fs' [''etc'', ''passwd''] = Some (File [7] 50)"
proof -
  have "length [9 :: byte] \<le> max_file demo_storage" by code_simp
  with demo_storage_facts obtain fs'
    where w: "write_file_atomic ''./data'' demo_storage ''sub/new'' [9] = Inr (True, fs')"
    using write_file_atomic_ok by meson
  have "node_at fs' [''etc'', ''passwd''] = node_at demo_storage [''etc'', ''passwd'']"
  proof (rule writes_stay_inside [OF _ _ _ _ _ disjI1 [OF w]])
    show "storage_wf demo_storage" by (rule demo_storage_facts)
    show "node_at demo_storage (os_key (cwd demo_storage) ''./data'') = Some Dir"
      "\<not> prefix (os_key (cwd demo_storage) ''./data'') [''etc'', ''passwd'']"
      "CHR 0x00 \<notin> set ''./data''" "CHR 0x00 \<notin> set ''sub/new''" "\<not> is_absolute ''sub/new''"
      by code_simp+
  qed
  moreover have "node_at demo_storage [''etc'', ''passwd''] = Some (File [7] 50)" by code_simp
  ultimately show ?thesis using w by auto
qed

text \<open>The writing operations keep the storage well formed and its files within the size limit.\<close>

definition sound_storage :: "nat \<Rightarrow> storage \<Rightarrow> bool" where
  "sound_storage m fs \<longleftrightarrow> storage_wf fs \<and> files_bounded fs \<and> max_file fs = m"

lemma sound_ensure_parent_dirs:
  assumes "sound_storage m fs" and "ensure_parent_dirs r fs p = Inr (b, fs')"
  shows "sound_storage m fs'"
proof -
  have "sound_storage m (snd (create_directories fs d))" for d
    using assms(1) by (simp add: sound_storage_def create_directories_wf create_directories_bounded)
  then show ?thesis using assms by (auto simp: ensure_parent_dirs_def bind_result_Inr_iff split: if_splits dest: sndI)
qed

lemma sound_open_trunc: "sound_storage m fs \<Longrightarrow> open_trunc fs p = Some fs' \<Longrightarrow> sound_storage m fs'"
  using open_trunc_wf open_trunc_bounded by (auto simp: sound_storage_def)

lemma sound_seek_write: "sound_storage m fs \<Longrightarrow> sound_storage m (snd (seek_write fs k off data))"
  using seek_write_wf seek_write_bounded by (auto simp: sound_storage_def)

lemma sound_write_file:
  assumes "sound_storage m fs" and "write_file_atomic r fs p data = Inr (ok, fs')"
  shows "sound_storage m fs'"
proof -
  obtain tmp where tmp: "tmp_path_for r p = Inr tmp"
    using assms(2) by (auto simp: write_file_atomic_def bind_result_Inr_iff)
  obtain b fs1 where e: "ensure_parent_dirs r fs p = Inr (b, fs1)"
    and rest: "(case open_trunc fs1 tmp of None \<Rightarrow> Inr (False, fs1)
       | Some fs2 \<Rightarrow> Inr (seek_write fs2 (os_key (cwd fs2) tmp) 0 data)) = (Inr (ok, fs') :: (bool \<times> storage) result)"
    using assms(2) tmp by (auto simp: write_file_atomic_def bind_result_Inr_iff)
  have "sound_storage m fs1" using sound_ensure_parent_dirs [OF assms(1) e] .
  then show ?thesis
    using rest sound_open_trunc [of m fs1 tmp] sound_seek_write [of m]
    by (auto split: option.splits dest: sndI)
qed

lemma sound_write_block:
  assumes "sound_storage m fs" and "write_block_atomic r fs p off data = Inr (ok, fs')"
  shows "sound_storage m fs'"
proof -
  obtain tmp where tmp: "tmp_path_for r p = Inr tmp"
    using assms(2) by (auto simp: write_block_atomic_def bind_result_Inr_iff)
  obtain b fs1 where e: "ensure_parent_dirs r fs p = Inr (b, fs1)"
    and rest: "(let k = os_key (cwd fs1) tmp in
       if open_inout fs1 tmp then Inr (seek_write fs1 k (sint off) data)
       else case open_trunc fs1 tmp of None \<Rightarrow> Inr (False, fs1)
       | Some fs2 \<Rightarrow> if open_inout fs2 tmp then Inr (seek_write fs2 k (sint off) data) else Inr (False, fs2)) = (Inr (ok, fs') :: (bool \<times> storage) result)"
    using assms(2) tmp by (auto simp: write_block_atomic_def bind_result_Inr_iff)
  have "sound_storage m fs1" using sound_ensure_parent_dirs [OF assms(1) e] .
  then show ?thesis
    using rest sound_open_trunc [of m fs1 tmp] sound_seek_write [of m]
    by (auto simp: Let_def split: option.splits if_splits dest: sndI)
qed

lemma sound_rename:
  assumes "sound_storage m fs" and "atomic_rename_tmp r fs p = Inr (ok, fs')"
  shows "sound_storage m fs'"
proof -
  have "storage_wf fs'" using atomic_rename_tmp_effect(2) assms by (auto simp: sound_storage_def)
  moreover have "files_bounded fs' \<and> max_file fs' = m"
    using assms rename_bounded [of fs]
    by (auto simp: atomic_rename_tmp_def bind_result_Inr_iff sound_storage_def split: if_splits dest!: sndI)
  ultimately show ?thesis by (simp add: sound_storage_def)
qed

lemma atomic_rename_no_read:
  assumes "atomic_rename_tmp storage_root fs p = Inr (ok, fs')"
  shows "no_read fs' = no_read fs"
  using assms
  by (auto simp: atomic_rename_tmp_def bind_result_Inr_iff fs_rename_def rename_key_def split: if_splits)

lemma publish_spec:
  assumes p: "plain_path p" "CHR 0x00 \<notin> set storage_root"
    and fs: "healthy fs" "storage_wf fs" "writable_place storage_root fs p"
    and fits: "length data \<le> max_file fs"
  obtains fs1 fs2 where "write_file_atomic storage_root fs p data = Inr (True, fs1)"
    "atomic_rename_tmp storage_root fs1 p = Inr (True, fs2)" "storage_wf fs2" "cwd fs2 = cwd fs" "no_read fs2 = []"
    "\<forall>k. file_at fs2 k = (if k = target_key storage_root fs p then Some data
       else if k = temp_key storage_root fs p then None else file_at fs k)"
proof -
  obtain fs1 where w: "write_file_atomic storage_root fs p data = Inr (True, fs1)"
    using write_file_atomic_ok [OF p fs fits] by blast
  note t = write_file_atomic_effect [OF w]
  have keys: "temp_key storage_root fs1 p = temp_key storage_root fs p" "cwd fs1 = cwd fs" and wf1: "storage_wf fs1"
    using t(1) fs(2) by (simp_all add: touches_def temp_key_def)
  have place: "healthy fs1 \<and> writable_place storage_root fs1 p"
    using staging_keeps_place [OF p fs(1,3) t(1)] t(2) by simp
  then obtain fs2 where r: "atomic_rename_tmp storage_root fs1 p = Inr (True, fs2)"
    using atomic_rename_tmp_ok [OF p _ wf1] t(2) keys by auto
  have "served_name (storage_root, p)" using p by (simp add: served_name_def plain_path_def)
  then have "\<forall>k. file_at fs2 k = (if k = target_key storage_root fs p then Some data
       else if k = temp_key storage_root fs p then None else file_at fs k)"
    using whole_file.publish_done [of fs "(storage_root, p)" "[data]" fs1 fs2] fs(2) w r by simp
  moreover have "no_read fs2 = []" using atomic_rename_no_read [OF r] place by (simp add: healthy_def)
  ultimately show ?thesis
    using that w r atomic_rename_tmp_effect(2,3) [OF r wf1] keys(2) by simp
qed

text \<open>
  C20. Atomicity: however many blocks are staged, whichever of them fail and whether or not the final
  rename is attempted, as long as no rename succeeds every file but the staging file keeps its
  contents; after a successful rename the file has what was staged and nothing else has changed.
\<close>

theorem staged_update_atomic:
  assumes wf: "storage_wf fs" and nul: "CHR 0x00 \<notin> set storage_root" "CHR 0x00 \<notin> set p"
    and staged: "stage_all (\<lambda>fs (offset, data). write_block_atomic storage_root fs p offset data) fs blocks
      = Inr (ok, fs1)"
    and renamed: "atomic_rename_tmp storage_root fs1 p = Inr (moved, fs2)"
  shows "(\<forall>k. k \<noteq> temp_key storage_root fs p \<longrightarrow> file_at fs1 k = file_at fs k) \<and>
    (\<not> moved \<longrightarrow> fs2 = fs1) \<and>
    (ok \<and> moved \<and> blocks \<noteq> [] \<longrightarrow> (\<forall>k. file_at fs2 k =
      (if k = target_key storage_root fs p
       then Some (fold put_block blocks (content_or_empty (file_at fs (temp_key storage_root fs p))))
       else if k = temp_key storage_root fs p then None else file_at fs k)))"
proof -
  have n: "served_name (storage_root, p)" using nul by (simp add: served_name_def)
  have st: "stage_all ((\<lambda>n fs (offset, data). write_block_atomic (fst n) fs (snd n) offset data) (storage_root, p))
      fs blocks = Inr (ok, fs1)"
    using staged by simp
  note frame = block_file.stage_all_frame [OF wf st]
  have "\<not> moved \<longrightarrow> fs2 = fs1" using atomic_rename_tmp_effect(1) [OF renamed] frame by blast
  moreover have "file_at fs2 k = (if k = target_key storage_root fs p
       then Some (fold put_block blocks (content_or_empty (file_at fs (temp_key storage_root fs p))))
       else if k = temp_key storage_root fs p then None else file_at fs k)"
    if "ok" "moved" "blocks \<noteq> []" for k
    using block_file.publish_done [OF wf n that(3), of fs1 fs2 k] st renamed that(1,2) by simp
  ultimately show ?thesis using frame by simp
qed

lemma demo_blocks:
  "\<exists>fs1 fs2. stage_all (\<lambda>fs (offset, data). write_block_atomic ''./data'' fs ''notes'' offset data) demo_storage
      [(2, [9])] = Inr (True, fs1) \<and>
    atomic_rename_tmp ''./data'' fs1 ''notes'' = Inr (True, fs2)"
proof -
  have fit: "\<forall>(offset, data) \<in> set [(2 :: u64, [9 :: byte])].
      0 \<le> sint offset \<and> nat (sint offset) + length data \<le> max_file demo_storage"
    by code_simp
  obtain fs1 where st: "stage_all (\<lambda>fs (offset, data). write_block_atomic ''./data'' fs ''notes'' offset data)
      demo_storage [(2, [9])] = Inr (True, fs1)"
    and ok: "healthy fs1" "storage_wf fs1" "writable_place ''./data'' fs1 ''notes''"
    using block_stage_all_ok [OF demo_storage_facts(2,3,4,5,7) fit] by blast
  then have w: "write_block_atomic ''./data'' demo_storage ''notes'' 2 [9] = Inr (True, fs1)"
    by (auto simp: bind_result_Inr_iff split: if_splits)
  note e = write_block_atomic_effect [OF w]
  then have "file_at fs1 (temp_key ''./data'' fs1 ''notes'') \<noteq> None"
    by (simp add: touches_def temp_key_def)
  then show ?thesis
    using atomic_rename_tmp_ok [OF demo_storage_facts(2,3) ok] st by blast
qed

theorem staged_update_atomic_witness:
  "\<exists>fs1 fs2. stage_all (\<lambda>fs (offset, data). write_block_atomic ''./data'' fs ''notes'' offset data) demo_storage
      [(2, [9])] = Inr (True, fs1) \<and>
    atomic_rename_tmp ''./data'' fs1 ''notes'' = Inr (True, fs2) \<and>
    file_at fs1 [''srv'', ''data'', ''notes''] = Some [1, 2, 3, 4, 5] \<and>
    file_at fs2 [''srv'', ''data'', ''notes''] = Some [0, 0, 9]"
proof -
  obtain fs1 fs2 where st: "stage_all (\<lambda>fs (offset, data). write_block_atomic ''./data'' fs ''notes'' offset data)
      demo_storage [(2, [9])] = Inr (True, fs1)"
    and mv: "atomic_rename_tmp ''./data'' fs1 ''notes'' = Inr (True, fs2)"
    using demo_blocks by blast
  have facts: "target_key ''./data'' demo_storage ''notes'' = [''srv'', ''data'', ''notes'']"
    "temp_key ''./data'' demo_storage ''notes'' = [''srv'', ''data'', ''notes.tmp'']"
    "file_at demo_storage [''srv'', ''data'', ''notes''] = Some [1, 2, 3, 4, 5]"
    "fold put_block [(2, [9])] (content_or_empty (file_at demo_storage [''srv'', ''data'', ''notes.tmp''])) = [0, 0, 9]"
    by code_simp+
  have nul: "CHR 0x00 \<notin> set ''notes''" by code_simp
  from staged_update_atomic [OF demo_storage_facts(5,3) nul st mv, unfolded facts] facts(3) st mv
  show ?thesis by auto
qed

lemma blocks_fit:
  assumes bs: "0 < bs" and content: "length content < 2 ^ 63" "length content \<le> m"
    and ids: "set ids \<subseteq> {..<block_count bs (length content)}"
  shows "\<forall>(offset, data) \<in> set (map (block_of bs content) ids). 0 \<le> sint offset \<and> nat (sint offset) + length data \<le> m"
proof -
  have "0 \<le> sint offset \<and> nat (sint offset) + length data \<le> m"
    if i: "i < block_count bs (length content)" "(offset, data) = block_of bs content i" for i offset data
  proof -
    have "i * bs < length content" using block_count_bounds [OF bs] i(1) by blast
    moreover have sint: "sint offset = int (i * bs)"
      using calculation i(2) content(1) sint_offset [of "i * bs"] by (simp only: block_of_def prod.inject)
    moreover have "length data \<le> length content - i * bs" using i(2) by (simp add: block_of_def)
    moreover have "nat (sint offset) = i * bs" using sint by (simp only: nat_int)
    ultimately show ?thesis using content(2) by linarith
  qed
  then show ?thesis using ids by (fastforce simp: split_beta)
qed

text \<open>
  Reassembly: if there is no staging file yet, the blocks of a file, staged in any order (a block
  may even come twice) and then renamed, give exactly that file.
\<close>

lemma blocks_reassemble:
  assumes p: "plain_path p" "CHR 0x00 \<notin> set storage_root"
    and fs: "healthy fs" "storage_wf fs" "writable_place storage_root fs p"
    and fresh: "node_at fs (temp_key storage_root fs p) = None"
    and bs: "0 < bs" and content: "content \<noteq> []" "length content < 2 ^ 63" "length content \<le> max_file fs"
    and all: "set ids = {..<block_count bs (length content)}"
  shows "\<exists>fs1 fs2. stage_all (\<lambda>fs (offset, data). write_block_atomic storage_root fs p offset data) fs
        (map (block_of bs content) ids) = Inr (True, fs1) \<and>
      atomic_rename_tmp storage_root fs1 p = Inr (True, fs2) \<and>
      file_at fs2 (target_key storage_root fs p) = Some content"
proof -
  let ?blocks = "map (block_of bs content) ids" and ?k = "temp_key storage_root fs p"
  have n: "served_name (storage_root, p)" using p by (simp add: served_name_def plain_path_def)
  have "0 < block_count bs (length content)" using block_count_bounds [OF bs, of 0] content(1) by simp
  then have "0 \<in> set ids" unfolding all by simp
  then have ne: "?blocks \<noteq> []" by (cases ids) simp_all
  have "\<forall>(offset, data) \<in> set ?blocks. 0 \<le> sint offset \<and> nat (sint offset) + length data \<le> max_file fs"
    using blocks_fit [OF bs content(2,3)] all by blast
  from block_stage_all_ok [OF p fs this] ne obtain fs1 where st: "stage_all (\<lambda>fs (offset, data). write_block_atomic storage_root fs p offset data) fs
        ?blocks = Inr (True, fs1)"
    and place: "healthy fs1" "storage_wf fs1" "writable_place storage_root fs1 p"
    by blast
  have st': "stage_all ((\<lambda>n fs (offset, data). write_block_atomic (fst n) fs (snd n) offset data) (storage_root, p))
      fs ?blocks = Inr (True, fs1)"
    using st by simp
  have empty: "content_or_empty (file_at fs ?k) = []" using fresh by (simp add: file_at_def content_or_empty_def)
  have "file_at fs1 (temp_key storage_root fs1 p) = Some content"
    using block_file.stage_all_data [OF st' ne] block_file.stage_all_frame [OF fs(2) st']
      put_blocks_all [OF bs content(2) all] empty by simp
  then obtain fs2 where mv: "atomic_rename_tmp storage_root fs1 p = Inr (True, fs2)"
    using atomic_rename_tmp_ok [OF p place] by blast
  then have "file_at fs2 (target_key storage_root fs p) = Some content"
    using block_file.publish_done [OF fs(2) n ne st', of fs2] put_blocks_all [OF bs content(2) all] empty by simp
  with st mv show ?thesis by blast
qed

section \<open>Queries\<close>

lemma os_node_target:
  assumes "plain_path p" and "CHR 0x00 \<notin> set storage_root"
  shows "os_node fs (path_append storage_root p) = node_at fs (target_key storage_root fs p)"
  using plain_path_keys(4,5) [OF assms] lexically_normal_plain [OF assms(1)]
  by (simp add: os_node_def target_key_def split: option.split node.split)

lemma read_block_spec:
  assumes p: "plain_path p" "CHR 0x00 \<notin> set storage_root"
    and readable: "target_key storage_root fs p \<notin> set (no_read fs)"
    and mem: "unat sz \<le> grant"
  shows "read_block storage_root grant fs p offset sz =
    Inr (if unat offset < 2 ^ 63
         then take (unat sz) (drop (unat offset) (content_or_empty (file_at fs (target_key storage_root fs p))))
         else [])"
proof -
  have "open_in fs (path_append storage_root p) = node_at fs (target_key storage_root fs p)"
    using readable lexically_normal_plain [OF p(1)]
    by (simp add: open_in_def os_node_target [OF p] target_key_def split: option.split)
  moreover have "vector_alloc grant (unat sz) = Inr ()"
    using mem unsigned_less [of sz, where ?'a = nat] by (simp add: vector_alloc_def vector_max_size_def)
  moreover have "sint offset < 0 \<longleftrightarrow> \<not> unat offset < 2 ^ 63"
    using sint_small [of offset] sint_large [of offset] by (cases "unat offset < 2 ^ 63") simp_all
  ultimately show ?thesis
    using sint_small [of offset]
    by (auto simp: read_block_def resolve_plain [OF p(1)] file_at_def content_or_empty_def
        split: option.split node.split)
qed

lemma get_file_info_spec:
  assumes p: "plain_path p" "CHR 0x00 \<notin> set storage_root"
  shows "get_file_info storage_root fs p =
    (case node_at fs (target_key storage_root fs p) of
       None \<Rightarrow> Inr None
     | Some Dir \<Rightarrow> Inl Filesystem_error
     | Some (File c t) \<Rightarrow> Inr (Some \<lparr>fi_relative_path = p, fi_file_size = word_of_nat (length c),
         fi_last_modified_ns = word_of_int (t - file_now fs + sys_now fs),
         fi_sha256_hex = (if target_key storage_root fs p \<in> set (no_read fs) then []
                          else to_hex (fips_sha256 c))\<rparr>))"
proof -
  have key: "os_key (cwd fs) (path_append storage_root p) = target_key storage_root fs p"
    by (simp add: target_key_def lexically_normal_plain [OF p(1)])
  show ?thesis
    by (simp add: get_file_info_def file_exists_def get_file_size_def get_last_modified_ns_def compute_sha256_def
        resolve_plain [OF p(1)] fs_exists_def fs_file_size_def fs_last_write_time_def open_in_def
        os_node_target [OF p] key sha256_raw_eq split: option.split node.split)
qed

text \<open>
  What a listing should contain: one description per regular file below the root (directly below it
  for the flat listing) whose relative path starts with the prefix; the recursive listing has no
  staging files and no digests, the flat one has both.
\<close>

definition listed :: "string \<Rightarrow> storage \<Rightarrow> string \<Rightarrow> bool \<Rightarrow> key \<times> node \<Rightarrow> FileInfo option" where
  "listed storage_root fs prefix_filter recursive e =
     (let r = os_key (cwd fs) storage_root; rel = join_slash (drop (length r) (fst e)) in
      case snd e of
        Dir \<Rightarrow> None
      | File c t \<Rightarrow>
          if (if recursive then strict_prefix r (fst e) \<and> path_extension (last (fst e)) \<noteq> ''.tmp''
              else fst e \<noteq> [] \<and> butlast (fst e) = r) \<and> prefix prefix_filter rel
          then Some \<lparr>fi_relative_path = rel, fi_file_size = word_of_nat (length c),
                     fi_last_modified_ns = word_of_int (t - file_now fs + sys_now fs),
                     fi_sha256_hex = (if recursive then [] else to_hex (sha256_raw c))\<rparr>
          else None)"

definition listable :: "string \<Rightarrow> storage \<Rightarrow> bool" where
  "listable storage_root fs \<longleftrightarrow>
     list_all (\<lambda>(k, n). let r = os_key (cwd fs) storage_root in
       strict_prefix r k \<longrightarrow> plain_path (join_slash (drop (length r) k)) \<and> list_all plain_name (drop (length r) k))
     (nodes fs)"

lemma take_prefix_iff: "take (length p) s = p \<longleftrightarrow> prefix p s"
  by (metis append_eq_conv_conj append_take_drop_id prefix_def)

lemma list_entry_file:
  assumes nul: "CHR 0x00 \<notin> set storage_root" and fs: "no_read fs = []"
    and k: "k = os_key (cwd fs) storage_root @ rel" "rel \<noteq> []" "plain_path (join_slash rel)" "list_all plain_name rel"
    and node: "node_at fs k = Some (File c t)"
  shows "list_entry storage_root fs prefix_filter recursive k c =
    Inr (if (recursive \<longrightarrow> path_extension (last k) \<noteq> ''.tmp'') \<and> prefix prefix_filter (join_slash rel)
         then Some \<lparr>fi_relative_path = join_slash rel, fi_file_size = word_of_nat (length c),
                     fi_last_modified_ns = word_of_int (t - file_now fs + sys_now fs),
                     fi_sha256_hex = (if recursive then [] else to_hex (sha256_raw c))\<rparr>
         else None)"
proof -
  have "split_slash (join_slash rel) = rel"
    using k(2,4) by (intro split_join) (auto simp: list_all_iff plain_name_def)
  then have key: "target_key storage_root fs (join_slash rel) = k"
    using plain_keys(1) [OF k(3) nul] k(1) by simp
  have "os_key (cwd fs) (path_append storage_root (join_slash rel)) = k"
    using key by (simp add: target_key_def lexically_normal_plain [OF k(3)])
  then have "get_last_modified_ns storage_root fs (join_slash rel) = Inr (word_of_int (t - file_now fs + sys_now fs))"
    and "compute_sha256 storage_root fs (join_slash rel) = Inr (to_hex (sha256_raw c))"
    using node fs
    by (simp_all add: get_last_modified_ns_def compute_sha256_def resolve_plain [OF k(3)] fs_exists_def
        fs_last_write_time_def open_in_def os_node_target [OF k(3) nul] key)
  then show ?thesis
    by (auto simp: list_entry_def k(1) Let_def take_prefix_iff)
qed

lemma list_entries_step:
  assumes nul: "CHR 0x00 \<notin> set storage_root" and fs: "no_read fs = []" "storage_wf fs" "listable storage_root fs"
    and e: "(k, n) \<in> set (nodes fs)"
  shows "list_entries storage_root fs prefix_filter recursive ((k, n) # es) =
    bind_result (list_entries storage_root fs prefix_filter recursive es) (\<lambda>rest.
      Inr (case listed storage_root fs prefix_filter recursive (k, n) of None \<Rightarrow> rest | Some info \<Rightarrow> info # rest))"
proof (cases n)
  case Dir
  then show ?thesis
    using fs(1) by (cases "list_entries storage_root fs prefix_filter recursive es") (simp_all add: listed_def Let_def)
next
  case (File c t)
  let ?r = "os_key (cwd fs) storage_root"
  have node: "node_at fs k = Some (File c t)" using e File node_at_iff [OF fs(2)] by auto
  show ?thesis
  proof (cases "strict_prefix ?r k")
    case True
    then obtain rel where k: "k = ?r @ rel" "rel \<noteq> []" by (auto simp: strict_prefix_def prefix_def)
    have plain: "plain_path (join_slash rel)" "list_all plain_name rel"
      using fs(3) e True k(1) by (auto simp: listable_def list_all_iff Let_def)
    have drop_k: "drop (length ?r) k = rel" using k(1) by simp
    note entry = list_entry_file [OF nul fs(1) k plain node]
    show ?thesis
      by (cases "list_entries storage_root fs prefix_filter recursive es")
        (use True drop_k in \<open>auto simp: File listed_def Let_def entry\<close>)
  next
    case False
    then have "\<not> (k \<noteq> [] \<and> butlast k = ?r)"
      by (metis append_butlast_last_id prefixI strict_prefixI append_self_conv not_Cons_self2)
    with False show ?thesis
      by (cases "list_entries storage_root fs prefix_filter recursive es") (auto simp: File listed_def Let_def)
  qed
qed

lemma list_entries_listed:
  assumes nul: "CHR 0x00 \<notin> set storage_root" and fs: "no_read fs = []" "storage_wf fs" "listable storage_root fs"
  shows "set es \<subseteq> set (nodes fs) \<Longrightarrow>
    list_entries storage_root fs prefix_filter recursive es =
      Inr (List.map_filter (listed storage_root fs prefix_filter recursive) es)"
proof (induction es)
  case (Cons e es)
  obtain k n where e: "e = (k, n)" by (cases e)
  with Cons.prems have "(k, n) \<in> set (nodes fs)" by simp
  from list_entries_step [OF nul fs this] Cons e show ?case
    by (simp add: map_filter_simps split: option.split)
qed (simp add: map_filter_simps)

text \<open>
  C33. Listing: for a storage root that is a readable directory and holds only names that are plain
  relative paths, the answer has exactly the files the listing should contain, each with the data
  of the node in the storage.
\<close>

theorem list_files_exact:
  assumes "CHR 0x00 \<notin> set storage_root" and "storage_root \<noteq> []"
    and "no_read fs = []" "storage_wf fs" "listable storage_root fs"
    and "node_at fs (os_key (cwd fs) storage_root) = Some Dir"
  shows "list_files storage_root fs prefix_filter recursive =
    Inr (List.map_filter (listed storage_root fs prefix_filter recursive) (nodes fs))"
  using list_entries_listed [OF assms(1,3,4,5) order_refl] assms c_str_id [OF assms(1)]
  by (simp add: list_files_def os_node_def)

theorem list_files_exact_witness:
  "list_files ''./data'' demo_storage [] True =
     Inr [\<lparr>fi_relative_path = ''notes'', fi_file_size = 5, fi_last_modified_ns = 800, fi_sha256_hex = []\<rparr>]"
proof -
  have "listable ''./data'' demo_storage" "no_read demo_storage = []"
    "node_at demo_storage (os_key (cwd demo_storage) ''./data'') = Some Dir"
    "List.map_filter (listed ''./data'' demo_storage [] True) (nodes demo_storage) =
       [\<lparr>fi_relative_path = ''notes'', fi_file_size = 5, fi_last_modified_ns = 800, fi_sha256_hex = []\<rparr>]"
    by code_simp+
  with list_files_exact [of "''./data''" demo_storage "[]" True] demo_storage_facts(3,5) show ?thesis by simp
qed

end
