(* ===== verification/Messages.thy ===== *)
theory Messages
  imports Prelude
begin

text \<open>
  The messages of \<^verbatim>\<open>adaptivesync.proto\<close> that the server reads and writes, as records, with the enum
  values it uses.  The protobuf runtime and the classes generated from that file are not part of the
  sources: a \<open>codec\<close> stands for them, one parser (\<^verbatim>\<open>ParseFromArray\<close>, which gets the buffer and the
  \<^verbatim>\<open>int\<close> size argument) per message the server receives and one serializer (\<^verbatim>\<open>SerializeToArray\<close> into a
  buffer of \<^verbatim>\<open>ByteSizeLong\<close> bytes) per message it sends.
\<close>

section \<open>Enumerations\<close>

abbreviation MSG_CLIENT_HELLO :: byte where "MSG_CLIENT_HELLO \<equiv> 1"
abbreviation MSG_SERVER_HELLO :: byte where "MSG_SERVER_HELLO \<equiv> 2"
abbreviation MSG_NEGOTIATION_REQUEST :: byte where "MSG_NEGOTIATION_REQUEST \<equiv> 10"
abbreviation MSG_NEGOTIATION_RESPONSE :: byte where "MSG_NEGOTIATION_RESPONSE \<equiv> 11"
abbreviation MSG_ZERO_COPY_DOWNLOAD_REQUEST :: byte where "MSG_ZERO_COPY_DOWNLOAD_REQUEST \<equiv> 20"
abbreviation MSG_ZERO_COPY_DOWNLOAD_HEADER :: byte where "MSG_ZERO_COPY_DOWNLOAD_HEADER \<equiv> 21"
abbreviation MSG_ZERO_COPY_UPLOAD_REQUEST :: byte where "MSG_ZERO_COPY_UPLOAD_REQUEST \<equiv> 22"
abbreviation MSG_ZERO_COPY_UPLOAD_ACK :: byte where "MSG_ZERO_COPY_UPLOAD_ACK \<equiv> 23"
abbreviation MSG_DELTA_SYNC_SIGNATURE_REQUEST :: byte where "MSG_DELTA_SYNC_SIGNATURE_REQUEST \<equiv> 30"
abbreviation MSG_DELTA_SYNC_BLOCK_REQUEST :: byte where "MSG_DELTA_SYNC_BLOCK_REQUEST \<equiv> 31"
abbreviation MSG_DELTA_SYNC_BLOCK_DATA :: byte where "MSG_DELTA_SYNC_BLOCK_DATA \<equiv> 32"
abbreviation MSG_DELTA_SYNC_COMPLETE :: byte where "MSG_DELTA_SYNC_COMPLETE \<equiv> 33"
abbreviation MSG_LIST_FILES_REQUEST :: byte where "MSG_LIST_FILES_REQUEST \<equiv> 40"
abbreviation MSG_LIST_FILES_RESPONSE :: byte where "MSG_LIST_FILES_RESPONSE \<equiv> 41"
abbreviation MSG_ERROR :: byte where "MSG_ERROR \<equiv> 50"
abbreviation MSG_PROGRESS :: byte where "MSG_PROGRESS \<equiv> 51"

abbreviation TRANSFER_MODE_UNSPECIFIED :: int where "TRANSFER_MODE_UNSPECIFIED \<equiv> 0"
abbreviation ZERO_COPY :: int where "ZERO_COPY \<equiv> 1"
abbreviation DELTA_SYNC :: int where "DELTA_SYNC \<equiv> 2"

abbreviation FRESH :: int where "FRESH \<equiv> 1"
abbreviation MODIFIED :: int where "MODIFIED \<equiv> 2"
abbreviation UNCHANGED :: int where "UNCHANGED \<equiv> 3"

abbreviation STATUS_OK :: int where "STATUS_OK \<equiv> 1"
abbreviation STATUS_ERROR :: int where "STATUS_ERROR \<equiv> 2"
abbreviation FILE_NOT_FOUND :: int where "FILE_NOT_FOUND \<equiv> 3"
abbreviation CHECKSUM_MISMATCH :: int where "CHECKSUM_MISMATCH \<equiv> 5"
abbreviation PROTOCOL_ERROR :: int where "PROTOCOL_ERROR \<equiv> 6"

section \<open>Messages\<close>

record ClientHello =
  ch_protocol_version :: u32
  ch_client_id :: string
  ch_supported_modes :: "int list"
  ch_block_size :: u32

record ServerHello =
  sh_protocol_version :: u32
  sh_server_id :: string
  sh_supported_modes :: "int list"
  sh_max_concurrent_transfers :: u32
  sh_max_file_size :: u64
  sh_block_size :: u32

record FileMetadata =
  md_relative_path :: string
  md_file_size :: u64
  md_last_modified_ns :: u64
  md_sha256_hash :: string
  md_file_mode :: int

record NegotiationRequest =
  nr_relative_path :: string
  nr_client_file_size :: u64
  nr_client_last_modified_ns :: u64
  nr_client_sha256_hash :: string

record NegotiationResponse =
  np_file_mode :: int
  np_transfer_mode :: int
  np_server_file_size :: u64
  np_server_sha256_hash :: string
  np_block_size :: u32

record ZeroCopyDownloadRequest =
  dr_relative_path :: string
  dr_offset :: u64

record ZeroCopyDownloadHeader =
  dh_relative_path :: string
  dh_total_size :: u64
  dh_sha256_hash :: string
  dh_offset :: u64

record ZeroCopyUploadRequest =
  ur_metadata :: FileMetadata

record ZeroCopyUploadAck =
  ua_status :: int
  ua_error_message :: string
  ua_offset :: u64

record BlockSignature =
  bs_block_index :: u32
  bs_rolling_hash :: u32
  bs_strong_hash :: string
  bs_block_offset :: u64
  bs_block_size :: u32

record DeltaSyncSignatureRequest =
  sr_relative_path :: string
  sr_file_size :: u64
  sr_block_size :: u32
  sr_signatures :: "BlockSignature list"

record DeltaSyncBlockRequest =
  br_relative_path :: string
  br_requested_block_indices :: "u32 list"

record DeltaSyncBlockData =
  bd_relative_path :: string
  bd_block_index :: u32
  bd_block_offset :: u64
  bd_data :: "byte list"
  bd_strong_hash :: string

record DeltaSyncComplete =
  dc_relative_path :: string
  dc_status :: int
  dc_error_message :: string
  dc_final_sha256_hash :: string

record ListFilesRequest =
  lr_directory_prefix :: string
  lr_recursive :: bool

record ListFilesResponse =
  lp_files :: "FileMetadata list"

record ErrorPayload =
  er_code :: int
  er_message :: string
  er_detail :: string

text \<open>The rate is the exact quotient; rounding to \<^verbatim>\<open>float\<close> is left to the serializer.\<close>

record ProgressUpdate =
  pu_relative_path :: string
  pu_bytes_transferred :: u64
  pu_bytes_total :: u64
  pu_rate_mbps :: rat
  pu_elapsed_ms :: u32

section \<open>The codec parameter\<close>

record codec =
  parse_ClientHello :: "byte list \<Rightarrow> int \<Rightarrow> ClientHello option"
  parse_NegotiationRequest :: "byte list \<Rightarrow> int \<Rightarrow> NegotiationRequest option"
  parse_ZeroCopyDownloadRequest :: "byte list \<Rightarrow> int \<Rightarrow> ZeroCopyDownloadRequest option"
  parse_ZeroCopyUploadRequest :: "byte list \<Rightarrow> int \<Rightarrow> ZeroCopyUploadRequest option"
  parse_DeltaSyncSignatureRequest :: "byte list \<Rightarrow> int \<Rightarrow> DeltaSyncSignatureRequest option"
  parse_DeltaSyncBlockData :: "byte list \<Rightarrow> int \<Rightarrow> DeltaSyncBlockData option"
  parse_ListFilesRequest :: "byte list \<Rightarrow> int \<Rightarrow> ListFilesRequest option"
  ser_ServerHello :: "ServerHello \<Rightarrow> byte list"
  ser_NegotiationResponse :: "NegotiationResponse \<Rightarrow> byte list"
  ser_ZeroCopyDownloadHeader :: "ZeroCopyDownloadHeader \<Rightarrow> byte list"
  ser_ZeroCopyUploadAck :: "ZeroCopyUploadAck \<Rightarrow> byte list"
  ser_DeltaSyncBlockRequest :: "DeltaSyncBlockRequest \<Rightarrow> byte list"
  ser_DeltaSyncComplete :: "DeltaSyncComplete \<Rightarrow> byte list"
  ser_ListFilesResponse :: "ListFilesResponse \<Rightarrow> byte list"
  ser_ErrorPayload :: "ErrorPayload \<Rightarrow> byte list"
  ser_ProgressUpdate :: "ProgressUpdate \<Rightarrow> byte list"

text \<open>\<^verbatim>\<open>static_cast<int>(payload.size())\<close>\<close>

definition int_size :: "byte list \<Rightarrow> int" where
  "int_size payload = sint (word_of_nat (length payload) :: u32)"

text \<open>A codec for examples: it parses nothing and writes one byte.\<close>

definition demo_codec :: codec where
  "demo_codec = \<lparr>parse_ClientHello = (\<lambda>_ _. None), parse_NegotiationRequest = (\<lambda>_ _. None),
     parse_ZeroCopyDownloadRequest = (\<lambda>_ _. None), parse_ZeroCopyUploadRequest = (\<lambda>_ _. None),
     parse_DeltaSyncSignatureRequest = (\<lambda>_ _. None), parse_DeltaSyncBlockData = (\<lambda>_ _. None),
     parse_ListFilesRequest = (\<lambda>_ _. None),
     ser_ServerHello = (\<lambda>_. [0]), ser_NegotiationResponse = (\<lambda>_. [0]),
     ser_ZeroCopyDownloadHeader = (\<lambda>_. [0]), ser_ZeroCopyUploadAck = (\<lambda>_. [0]),
     ser_DeltaSyncBlockRequest = (\<lambda>_. [0]), ser_DeltaSyncComplete = (\<lambda>_. [0]),
     ser_ListFilesResponse = (\<lambda>_. [0]), ser_ErrorPayload = (\<lambda>_. [0]),
     ser_ProgressUpdate = (\<lambda>_. [0])\<rparr>"

end
