(* ===== verification/Zero_Copy.thy ===== *)
theory Zero_Copy
  imports Wire_Protocol File_Manager Messages
begin

text \<open>
  The zero-copy sender (\<^verbatim>\<open>zero_copy_sender.h\<close>, \<^verbatim>\<open>zero_copy_sender.cpp\<close>): the header message, the
  raw-data header, then the file, through \<^verbatim>\<open>sendfile\<close> as built on Linux and through the portable read/send
  loop as built on other POSIX systems.
  The \<^verbatim>\<open>sendfile\<close> loop need not end, so its value is an option and \<open>None\<close> is a call that never
  returns.  Progress output is not modelled.
\<close>

section \<open>Streaming with sendfile\<close>

text \<open>
  \<^verbatim>\<open>sendfile(2)\<close> on a regular file: at the end of the file it returns 0; otherwise it hands bytes of the
  file to the socket, which takes them like a \<^verbatim>\<open>send\<close>.
\<close>

definition sys_sendfile :: "byte list \<Rightarrow> nat \<Rightarrow> nat \<Rightarrow> socket \<Rightarrow> (errno + nat) \<times> socket" where
  "sys_sendfile content file_offset count s =
     (if length content \<le> file_offset then (Inr 0, s)
      else sys_send (drop file_offset content) count s)"

partial_function (option) send_file_linux_loop ::
    "byte list \<Rightarrow> nat \<Rightarrow> u64 \<Rightarrow> socket \<Rightarrow> (bool \<times> socket) option" where
  "send_file_linux_loop content file_offset remaining s =
     (if remaining > 0
      then let chunk = min remaining 0x7FFFFF00;
               (sent, s') = sys_sendfile content file_offset (unat chunk) s
           in case sent of
                Inl e \<Rightarrow>
                  if e = EAGAIN \<or> e = EINTR then send_file_linux_loop content file_offset remaining s'
                  else Some (False, s')
              | Inr n \<Rightarrow> send_file_linux_loop content (file_offset + n) (remaining - word_of_nat n) s'
      else Some (True, s))"

declare send_file_linux_loop.simps [simp del]

text \<open>A negative \<^verbatim>\<open>off_t\<close> is refused by the kernel.\<close>

definition send_file_linux :: "byte list \<Rightarrow> u64 \<Rightarrow> u64 \<Rightarrow> socket \<Rightarrow> (bool \<times> socket) option" where
  "send_file_linux content offset total_size s =
     (if 0 < total_size \<and> sint offset < 0 then Some (False, s)
      else send_file_linux_loop content (unat offset) total_size s)"

section \<open>The read/send loop\<close>

abbreviation BUFFER_SIZE :: u64 where
  "BUFFER_SIZE \<equiv> 262144"

function send_file_fallback_loop :: "byte list \<Rightarrow> nat \<Rightarrow> u64 \<Rightarrow> socket \<Rightarrow> bool \<times> socket" where
  "send_file_fallback_loop content position remaining s =
     (if remaining > 0
      then let to_read = min remaining BUFFER_SIZE;
               buffer = take (unat to_read) (drop position content);
               bytes_read = length buffer in
           if bytes_read = 0 then (False, s)
           else let (sent, s') = write_exact buffer s in
                if sent \<noteq> int bytes_read then (False, s')
                else send_file_fallback_loop content (position + bytes_read)
                       (remaining - word_of_nat bytes_read) s'
      else (True, s))"
  by pat_completeness auto
termination
proof (relation "measure (\<lambda>(content, position, remaining, s). unat remaining)", goal_cases)
  case (2 content position remaining s to_read buffer bytes_read x sent s')
  have "to_read \<le> remaining" unfolding 2(2) by (rule min.cobounded1)
  then have "unat to_read \<le> unat remaining" by (simp only: word_le_nat_alt)
  then have le: "length buffer \<le> unat remaining" unfolding 2(3) by simp
  then have "unat (word_of_nat (length buffer) :: u64) = length buffer"
    by (metis le_unat_uoi)
  then have "unat (remaining - word_of_nat (length buffer)) = unat remaining - length buffer"
    using le by (simp add: unat_sub word_le_nat_alt)
  moreover have "0 < length buffer" using 2(4,5) by simp
  ultimately have "unat (remaining - word_of_nat (length buffer)) < unat remaining" using le by linarith
  then show ?case using 2(4) by simp
qed simp

declare send_file_fallback_loop.simps [simp del]

text \<open>\<^verbatim>\<open>lseek\<close> to a negative offset fails and leaves the position at the start.\<close>

definition send_file_fallback :: "byte list \<Rightarrow> u64 \<Rightarrow> u64 \<Rightarrow> socket \<Rightarrow> bool \<times> socket" where
  "send_file_fallback content offset total_size s =
     send_file_fallback_loop content (if sint offset < 0 then 0 else unat offset) total_size s"

section \<open>send_file\<close>

text \<open>
  The part of \<^verbatim>\<open>send_file\<close> before its conditional compilation: look the file up, announce it and send the
  raw-data header.  The value is the path to open and the number of bytes announced; \<open>None\<close> is the
  return value \<^verbatim>\<open>false\<close>.
\<close>

definition send_file_announce ::
    "codec \<Rightarrow> string \<Rightarrow> storage \<Rightarrow> string \<Rightarrow> u64 \<Rightarrow> socket \<Rightarrow> (string \<times> u64) option result \<times> socket" where
  "send_file_announce cd storage_root fs relative_path offset s =
     (case resolve_path storage_root relative_path of Inl e \<Rightarrow> (Inl e, s) | Inr full_path \<Rightarrow>
      case file_exists storage_root fs relative_path of Inl e \<Rightarrow> (Inl e, s) | Inr there \<Rightarrow>
      if \<not> there then (Inr None, s) else
      case get_file_size storage_root fs relative_path of Inl e \<Rightarrow> (Inl e, s) | Inr total_size \<Rightarrow>
      if total_size = 0 then (Inr None, s)
      else if total_size \<le> offset then (Inr None, s) else
      let bytes_to_send = total_size - offset in
      case compute_sha256 storage_root fs relative_path of Inl e \<Rightarrow> (Inl e, s) | Inr sha \<Rightarrow>
      let header = \<lparr>dh_relative_path = relative_path, dh_total_size = total_size,
                    dh_sha256_hash = sha, dh_offset = offset\<rparr>;
          header_frame = \<lparr>message_type = MSG_ZERO_COPY_DOWNLOAD_HEADER,
                          payload = ser_ZeroCopyDownloadHeader cd header\<rparr>;
          (header_sent, s1) = write_frame header_frame s in
      if \<not> header_sent then (Inr None, s1) else
      let raw_hdr = encode_raw_data_header bytes_to_send;
          (n, s2) = write_exact raw_hdr s1 in
      if n \<noteq> int (length raw_hdr) then (Inr None, s2)
      else (Inr (Some (full_path, bytes_to_send)), s2))"

text \<open>The Linux build, with \<^verbatim>\<open>sendfile\<close>.\<close>

definition send_file ::
    "codec \<Rightarrow> string \<Rightarrow> storage \<Rightarrow> string \<Rightarrow> u64 \<Rightarrow> socket \<Rightarrow> (bool result \<times> socket) option" where
  "send_file cd storage_root fs relative_path offset s =
     (case send_file_announce cd storage_root fs relative_path offset s of
        (Inl e, s1) \<Rightarrow> Some (Inl e, s1)
      | (Inr None, s1) \<Rightarrow> Some (Inr False, s1)
      | (Inr (Some (full_path, bytes_to_send)), s1) \<Rightarrow>
          (case open_in fs full_path of
             Some (File content _) \<Rightarrow>
               map_option (\<lambda>(ok, s2). (Inr ok, s2)) (send_file_linux content offset bytes_to_send s1)
           | _ \<Rightarrow> Some (Inr False, s1)))"

text \<open>The build for a system that is neither Linux nor Windows, with the read/send loop.\<close>

definition send_file_posix ::
    "codec \<Rightarrow> string \<Rightarrow> storage \<Rightarrow> string \<Rightarrow> u64 \<Rightarrow> socket \<Rightarrow> bool result \<times> socket" where
  "send_file_posix cd storage_root fs relative_path offset s =
     (case send_file_announce cd storage_root fs relative_path offset s of
        (Inl e, s1) \<Rightarrow> (Inl e, s1)
      | (Inr None, s1) \<Rightarrow> (Inr False, s1)
      | (Inr (Some (full_path, bytes_to_send)), s1) \<Rightarrow>
          (case open_in fs full_path of
             Some (File content _) \<Rightarrow>
               (case send_file_fallback content offset bytes_to_send s1 of (ok, s2) \<Rightarrow> (Inr ok, s2))
           | _ \<Rightarrow> (Inr False, s1)))"

section \<open>What the loops send\<close>

lemma tx_ok_sys_send:
  assumes "tx_ok (tx_plan s)" and "0 < n" and "buf \<noteq> []" and "sys_send buf n s = (r, s')"
  shows "tx_ok (tx_plan s') \<and> rx s' = rx s \<and>
    ((r = Inl EINTR \<and> tx s' = tx s \<and> length (tx_plan s') < length (tx_plan s)) \<or>
     (\<exists>k. r = Inr k \<and> 0 < k \<and> k \<le> n \<and> k \<le> length buf \<and> tx s' = tx s @ take k buf \<and>
        length (tx_plan s') \<le> length (tx_plan s)))"
  using assms by (auto simp: sys_send_def Let_def MAX_RW_COUNT_def split: list.splits send_event.splits)

lemma unat_chunk: "unat (min remaining 0x7FFFFF00 :: u64) = min (unat remaining) 0x7FFFFF00"
  by (simp add: min_def word_le_nat_alt)

lemma sys_sendfile_step:
  assumes "off + m \<le> length content" "0 < m" "n = min m 0x7FFFFF00" and "sys_sendfile content off n s = (r, s1)"
  shows "rx s1 = rx s \<and> length (tx_plan s1) \<le> length (tx_plan s) \<and>
    (case r of Inl e \<Rightarrow> length (tx_plan s1) < length (tx_plan s)
     | Inr k \<Rightarrow> k \<le> n \<and> length (tx_plan s1) + (m - k) < length (tx_plan s) + m)"
  using assms
  by (auto simp: sys_sendfile_def sys_send_def Let_def MAX_RW_COUNT_def split: list.splits send_event.splits if_splits)

text \<open>
  Induction along the loop: as long as the file is long enough, every round either uses up an entry of
  the socket's script or sends something.
\<close>

lemma send_file_linux_loop_induct [consumes 1, case_names complete retry fail data]:
  assumes enough: "file_offset + unat remaining \<le> length content"
    and complete: "\<And>off s. P off 0 s (Some (True, s))"
    and retry: "\<And>off rem s s1 e res. \<lbrakk>0 < unat rem; off + unat rem \<le> length content; e = EAGAIN \<or> e = EINTR;
      sys_sendfile content off (unat (min rem 0x7FFFFF00)) s = (Inl e, s1); P off rem s1 res\<rbrakk> \<Longrightarrow> P off rem s res"
    and fail: "\<And>off rem s s1 e. \<lbrakk>0 < unat rem; off + unat rem \<le> length content; e \<noteq> EAGAIN; e \<noteq> EINTR;
      sys_sendfile content off (unat (min rem 0x7FFFFF00)) s = (Inl e, s1)\<rbrakk> \<Longrightarrow> P off rem s (Some (False, s1))"
    and data: "\<And>off rem s s1 k res. \<lbrakk>0 < unat rem; off + unat rem \<le> length content; k \<le> unat rem;
      unat (rem - word_of_nat k) = unat rem - k; sys_sendfile content off (unat (min rem 0x7FFFFF00)) s = (Inr k, s1);
      P (off + k) (rem - word_of_nat k) s1 res\<rbrakk> \<Longrightarrow> P off rem s res"
  shows "P file_offset remaining s (send_file_linux_loop content file_offset remaining s)"
  using enough
proof (induction "length (tx_plan s) + unat remaining" arbitrary: file_offset remaining s rule: less_induct)
  case less
  show ?case
  proof (cases "remaining = 0")
    case True
    then show ?thesis by (simp add: send_file_linux_loop.simps complete)
  next
    case False
    then have pos: "0 < unat remaining" "0 < remaining" by (simp_all add: unat_gt_0 word_gt_0)
    let ?n = "unat (min remaining 0x7FFFFF00 :: u64)"
    obtain r s1 where r: "sys_sendfile content file_offset ?n s = (r, s1)" by fastforce
    note step = sys_sendfile_step [OF less.prems pos(1) unat_chunk r]
    show ?thesis
    proof (cases r)
      case (Inl e)
      then show ?thesis
        using less.hyps [of s1 remaining file_offset] less.prems step r pos
        by (subst send_file_linux_loop.simps) (auto intro: retry fail)
    next
      case (Inr k)
      then have k: "k \<le> unat remaining" using step by (simp add: unat_chunk)
      moreover have "unat (word_of_nat k :: u64) = k" using k by (metis le_unat_uoi)
      ultimately have rem: "unat (remaining - word_of_nat k) = unat remaining - k"
        by (simp add: unat_sub word_le_nat_alt)
      have "P (file_offset + k) (remaining - word_of_nat k) s1
          (send_file_linux_loop content (file_offset + k) (remaining - word_of_nat k) s1)"
        using less.hyps [of s1 "remaining - word_of_nat k" "file_offset + k"] less.prems step Inr k rem by simp
      with data [OF pos(1) less.prems k rem r [unfolded Inr]] show ?thesis
        using r Inr pos(2) by (subst send_file_linux_loop.simps) simp
    qed
  qed
qed

lemma send_file_linux_loop_sends:
  assumes "tx_ok (tx_plan s)" and "file_offset + unat remaining \<le> length content"
  shows "\<exists>s'. send_file_linux_loop content file_offset remaining s = Some (True, s') \<and>
    tx s' = tx s @ take (unat remaining) (drop file_offset content) \<and> rx s' = rx s \<and> tx_ok (tx_plan s')"
  using assms(2,1)
proof (induction rule: send_file_linux_loop_induct)
  case (retry off rem s s1 e res)
  then show ?case using tx_ok_sys_send [of s "unat (min rem 0x7FFFFF00)" "drop off content" "Inl e" s1]
    by (auto simp: sys_sendfile_def unat_chunk)
next
  case (fail off rem s s1 e)
  then show ?case using tx_ok_sys_send [of s "unat (min rem 0x7FFFFF00)" "drop off content" "Inl e" s1]
    by (auto simp: sys_sendfile_def unat_chunk)
next
  case (data off rem s s1 k res)
  have "take (unat rem) (drop off content) = take k (drop off content) @ take (unat rem - k) (drop (off + k) content)"
    using \<open>k \<le> unat rem\<close> take_add [of k "unat rem - k" "drop off content"] by (simp add: add.commute)
  moreover have "tx_ok (tx_plan s1) \<and> rx s1 = rx s \<and> tx s1 = tx s @ take k (drop off content)"
    using data.hyps(1,2,5) data.prems tx_ok_sys_send [of s "unat (min rem 0x7FFFFF00)" "drop off content" "Inr k" s1]
    by (auto simp: sys_sendfile_def unat_chunk)
  ultimately show ?case using data.hyps(4) data.IH by auto
qed simp

text \<open>Whatever the socket answers, the loop ends.\<close>

lemma send_file_linux_loop_returns:
  assumes "file_offset + unat remaining \<le> length content"
  shows "\<exists>ok s'. send_file_linux_loop content file_offset remaining s = Some (ok, s') \<and> rx s' = rx s"
  using assms
proof (induction rule: send_file_linux_loop_induct)
  case (retry off rem s s1 e res)
  then show ?case using sys_sendfile_step [OF retry(2,1) unat_chunk retry(4)] by simp
next
  case (fail off rem s s1 e)
  then show ?case using sys_sendfile_step [OF fail(2,1) unat_chunk fail(5)] by blast
next
  case (data off rem s s1 k res)
  then show ?case using sys_sendfile_step [OF data(2,1) unat_chunk data(5)] by simp
qed blast

text \<open>What the announcement has found out when the file is to be sent.\<close>

lemma send_file_announce_rx:
  assumes "send_file_announce cd storage_root fs p offset s = (r, s1)"
  shows "rx s1 = rx s"
  using assms by (auto simp: send_file_announce_def Let_def split_beta split: sum.splits if_splits)

lemma send_file_announce_size:
  assumes "send_file_announce cd storage_root fs p offset s = (Inr (Some (full_path, n)), s1)"
  obtains m where "resolve_path storage_root p = Inr full_path" "fs_file_size fs full_path = Inr m"
    "offset < m" "n = m - offset"
proof -
  obtain m where "resolve_path storage_root p = Inr full_path" "fs_file_size fs full_path = Inr m" "\<not> m \<le> offset" "n = m - offset"
    using assms by (auto simp: send_file_announce_def get_file_size_def Let_def split_beta split: sum.splits if_splits)
  with that show ?thesis by (simp add: not_le)
qed

lemma open_in_size:
  assumes "fs_file_size fs full_path = Inr n" and "open_in fs full_path = Some (File c t)"
    and "\<forall>k c. file_at fs k = Some c \<longrightarrow> length c < 2 ^ 63"
  shows "unat n = length c" "length c < 2 ^ 63"
proof -
  have node: "node_at fs (os_key (cwd fs) full_path) = Some (File c t)" "os_node fs full_path = Some (File c t)"
    using assms(2) by (auto simp: open_in_def os_node_def split: if_splits option.splits node.splits)
  then have n: "n = word_of_nat (length c)" using assms(1) by (simp add: fs_file_size_def split: if_splits)
  have "file_at fs (os_key (cwd fs) full_path) = Some c" using node(1) by (simp add: file_at_def)
  then show small: "length c < 2 ^ 63" using assms(3) by blast
  show "unat n = length c" using small n by (simp add: unat_of_nat)
qed

lemma announced_range:
  assumes "send_file_announce cd storage_root fs p offset s = (Inr (Some (full_path, n)), s1)"
    and "open_in fs full_path = Some (File c t)" and "\<forall>k c. file_at fs k = Some c \<longrightarrow> length c < 2 ^ 63"
  shows "unat offset + unat n = length c" "length c < 2 ^ 63" "0 < n"
proof -
  obtain m where m: "fs_file_size fs full_path = Inr m" "offset < m" "n = m - offset"
    by (rule send_file_announce_size [OF assms(1)])
  note c = open_in_size [OF m(1) assms(2,3)]
  have "unat offset < unat m" using m(2) by (simp add: word_less_nat_alt)
  moreover have "unat n = unat m - unat offset"
    unfolding m(3) using m(2) by (intro unat_sub) simp
  ultimately have "0 < unat n" "unat offset + unat n = length c" using c(1) by simp_all
  then show "unat offset + unat n = length c" "0 < n" by (simp_all add: word_gt_0 unat_gt_0)
  show "length c < 2 ^ 63" by (rule c(2))
qed

text \<open>Within one session the file does not change while it is sent, so \<^verbatim>\<open>send_file\<close> returns.\<close>

lemma send_file_linux_returns:
  assumes "unat offset + unat n \<le> length c"
  shows "\<exists>ok s'. send_file_linux c offset n s = Some (ok, s') \<and> rx s' = rx s"
  using send_file_linux_loop_returns [OF assms, of s] by (auto simp: send_file_linux_def)

lemma send_file_returns:
  assumes bounded: "\<forall>k c. file_at fs k = Some c \<longrightarrow> length c < 2 ^ 63"
  shows "\<exists>r s'. send_file cd storage_root fs p offset s = Some (r, s') \<and> rx s' = rx s"
proof -
  obtain r s1 where an: "send_file_announce cd storage_root fs p offset s = (r, s1)" by fastforce
  have rx: "rx s1 = rx s" by (rule send_file_announce_rx [OF an])
  consider (stop) e where "r = Inl e" | (no) "r = Inr None" | (yes) full_path n where "r = Inr (Some (full_path, n))"
    by (metis old.sum.exhaust option.exhaust surj_pair)
  then show ?thesis
  proof cases
    case yes
    have "\<exists>ok s'. send_file_linux c offset n s1 = Some (ok, s') \<and> rx s' = rx s1"
      if "open_in fs full_path = Some (File c t)" for c t
      using announced_range(1) [OF an [unfolded yes] that bounded] by (intro send_file_linux_returns) simp
    then show ?thesis
      using an yes rx by (fastforce simp: send_file_def split: option.split node.split)
  qed (use an rx in \<open>simp_all add: send_file_def\<close>)
qed

text \<open>The loop only reports success when the file had enough bytes.\<close>

lemma sys_sendfile_bounds:
  assumes "sys_sendfile content off n s = (Inr k, s')"
  shows "k \<le> n" and "k \<le> length content - off"
  using assms by (auto simp: sys_sendfile_def sys_send_def Let_def min_le_iff_disj split: if_splits list.splits send_event.splits)

lemma send_file_linux_loop_success:
  assumes "send_file_linux_loop content file_offset remaining s = Some (ok, s')" and "ok"
  shows "remaining = 0 \<or> file_offset + unat remaining \<le> length content"
proof -
  have "fst y \<longrightarrow> remaining = 0 \<or> file_offset + unat remaining \<le> length content"
    if "send_file_linux_loop content file_offset remaining s = Some y" for y
  proof (rule send_file_linux_loop.raw_induct
      [where P = "\<lambda>content off rem s y. fst y \<longrightarrow> rem = 0 \<or> off + unat rem \<le> length content", OF _ that], goal_cases)
    case (1 f content off rem s y)
    let ?n = "unat (min rem 0x7FFFFF00)"
    obtain r s1 where r: "sys_sendfile content off ?n s = (r, s1)" by (cases "sys_sendfile content off ?n s")
    show ?case
    proof (cases "0 < rem")
      case True
      show ?thesis
      proof (cases r)
        case (Inl e)
        with 1(2) True r 1(1) [of content off rem s1 y] show ?thesis by (auto simp: Let_def split: if_splits)
      next
        case (Inr k)
        then have f: "f content (off + k) (rem - word_of_nat k) s1 = Some y"
          using 1(2) True r by (simp add: Let_def)
        note k = sys_sendfile_bounds [OF r [unfolded Inr]]
        have "k \<le> unat rem" using k(1) unat_chunk [of rem] by simp
        then have w: "unat (word_of_nat k :: u64) = k" by (metis le_unat_uoi)
        have "unat (rem - word_of_nat k) = unat rem - k"
          using \<open>k \<le> unat rem\<close> w by (simp add: unat_sub word_le_nat_alt)
        moreover have "rem - word_of_nat k = 0 \<Longrightarrow> unat rem = k" using w by simp
        moreover have "k = 0 \<or> off + k \<le> length content" using k(2) by linarith
        ultimately show ?thesis using 1(1) [OF f] \<open>k \<le> unat rem\<close> by auto
      qed
    qed (use 1(2) in \<open>auto simp: word_gt_0\<close>)
  qed
  with assms show ?thesis by auto
qed

lemma sys_sendfile_tx_ok:
  "tx_ok (tx_plan s) \<Longrightarrow> sys_sendfile content off n s = (r, s') \<Longrightarrow> tx_ok (tx_plan s') \<and> (\<forall>e. r = Inl e \<longrightarrow> e = EINTR)"
  by (auto simp: sys_sendfile_def sys_send_def Let_def split: if_splits list.splits send_event.splits)

lemma send_file_linux_loop_no_failure:
  assumes "send_file_linux_loop content file_offset remaining s = Some y" and "tx_ok (tx_plan s)"
  shows "fst y"
proof -
  have "tx_ok (tx_plan s) \<longrightarrow> fst y"
  proof (rule send_file_linux_loop.raw_induct
      [where P = "\<lambda>content off rem s y. tx_ok (tx_plan s) \<longrightarrow> fst y", OF _ assms(1)], goal_cases)
    case (1 f content off rem s y)
    let ?n = "unat (min rem 0x7FFFFF00)"
    obtain r s1 where r: "sys_sendfile content off ?n s = (r, s1)" by (cases "sys_sendfile content off ?n s")
    then show ?case
      using 1(2) 1(1) [of content off rem s1 y] sys_sendfile_tx_ok [OF _ r]
        1(1) [of content "off + projr r" "rem - word_of_nat (projr r)" s1 y]
      by (cases r; cases "0 < rem") (auto simp: Let_def)
  qed
  with assms(2) show ?thesis by blast
qed

text \<open>The read/send loop sends the same bytes.\<close>

lemma send_file_fallback_loop_sends:
  assumes "tx_ok (tx_plan s)" and "position + unat remaining \<le> length content"
  shows "\<exists>s'. send_file_fallback_loop content position remaining s = (True, s') \<and>
    tx s' = tx s @ take (unat remaining) (drop position content) \<and> rx s' = rx s \<and> tx_ok (tx_plan s')"
  using assms
proof (induction content position remaining s rule: send_file_fallback_loop.induct)
  case (1 content position remaining s)
  show ?case
  proof (cases "0 < remaining")
    case False
    with 1 show ?thesis by (simp add: send_file_fallback_loop.simps word_gt_0)
  next
    case True
    define n where "n = min (unat remaining) 262144"
    define buf where "buf = take n (drop position content)"
    have n_eq: "unat (min remaining BUFFER_SIZE) = n"
      by (simp add: n_def min_def word_le_nat_alt)
    have pos: "0 < unat remaining" using True by (simp add: word_gt_0 unat_gt_0)
    have n: "0 < n" "n \<le> unat remaining" "n < 2 ^ 32" using pos by (auto simp: n_def)
    have len: "length buf = n" using 1(3) n(2) by (simp add: buf_def)
    obtain s1 where w: "write_exact buf s = (int (length buf), s1)" and s1: "tx s1 = tx s @ buf" "rx s1 = rx s" "tx_ok (tx_plan s1)"
      using write_exact_ok [OF 1(2), of buf] n(3) len by auto
    have wn: "unat (word_of_nat n :: u64) = n" using n(2) by (metis le_unat_uoi)
    have rem: "unat (remaining - word_of_nat n) = unat remaining - n"
      using n(2) wn by (simp add: unat_sub word_le_nat_alt)
    obtain s' where IH: "send_file_fallback_loop content (position + n) (remaining - word_of_nat n) s1 = (True, s')"
      "tx s' = tx s1 @ take (unat remaining - n) (drop (position + n) content)" "rx s' = rx s1" "tx_ok (tx_plan s')"
      using 1(1) [OF True refl refl refl, unfolded n_eq, folded buf_def, OF _ refl, of "fst (write_exact buf s)" s1]
        w len n(1) s1(3) 1(3) rem n(2) by auto
    have "take (unat remaining) (drop position content) = buf @ take (unat remaining - n) (drop (position + n) content)"
      using n(2) take_add [of n "unat remaining - n" "drop position content"] by (simp add: buf_def add.commute)
    moreover have "send_file_fallback_loop content position remaining s = (True, s')"
      using True w len n(1) IH(1) 1(3) pos by (subst send_file_fallback_loop.simps) (simp add: Let_def n_eq buf_def [symmetric])
    ultimately show ?thesis using IH s1 by simp
  qed
qed

section \<open>Properties\<close>

lemma send_file_linux_sends:
  assumes "tx_ok (tx_plan s)" and "unat offset + unat total_size \<le> length content" and "length content < 2 ^ 63"
  shows "\<exists>s'. send_file_linux content offset total_size s = Some (True, s') \<and>
    tx s' = tx s @ take (unat total_size) (drop (unat offset) content) \<and> rx s' = rx s \<and> tx_ok (tx_plan s')"
  using send_file_linux_loop_sends [OF assms(1,2)] sint_small [of offset] assms(2,3)
  by (simp add: send_file_linux_def)

lemma send_file_fallback_sends:
  assumes "tx_ok (tx_plan s)" and "unat offset + unat total_size \<le> length content" and "length content < 2 ^ 63"
  shows "\<exists>s'. send_file_fallback content offset total_size s = (True, s') \<and>
    tx s' = tx s @ take (unat total_size) (drop (unat offset) content) \<and> rx s' = rx s \<and> tx_ok (tx_plan s')"
  using send_file_fallback_loop_sends [OF assms(1,2)] sint_small [of offset] assms(2,3)
  by (simp add: send_file_fallback_def)

text \<open>
  Over a connection whose only disturbances are short writes and interrupted calls, the announcement
  either sends nothing or sends the header message and the raw-data header.
\<close>

lemma send_file_announce_sends:
  assumes an: "send_file_announce cd storage_root fs p offset s = (r, s1)" and sock: "tx_ok (tx_plan s)"
    and len: "\<And>h. length (ser_ZeroCopyDownloadHeader cd h) < 2 ^ 32 - FRAME_HEADER_SIZE"
  obtains (stop) e where "r = Inl e" "s1 = s"
  | (no) "r = Inr None" "s1 = s"
  | (yes) full_path n h where "r = Inr (Some (full_path, n))" "rx s1 = rx s" "tx_ok (tx_plan s1)"
      "tx s1 = tx s @ encode_frame \<lparr>message_type = MSG_ZERO_COPY_DOWNLOAD_HEADER,
        payload = ser_ZeroCopyDownloadHeader cd h\<rparr> @ encode_raw_data_header n"
proof -
  have "\<exists>s3 s4. write_frame \<lparr>message_type = MSG_ZERO_COPY_DOWNLOAD_HEADER, payload = ser_ZeroCopyDownloadHeader cd h\<rparr> s = (True, s3) \<and>
      write_exact (encode_raw_data_header n) s3 = (int (length (encode_raw_data_header n)), s4) \<and>
      rx s4 = rx s \<and> tx_ok (tx_plan s4) \<and> tx s4 = tx s @ encode_frame \<lparr>message_type = MSG_ZERO_COPY_DOWNLOAD_HEADER,
        payload = ser_ZeroCopyDownloadHeader cd h\<rparr> @ encode_raw_data_header n" for h n
  proof -
    let ?f = "\<lparr>message_type = MSG_ZERO_COPY_DOWNLOAD_HEADER, payload = ser_ZeroCopyDownloadHeader cd h\<rparr>"
    obtain s3 where s3: "write_frame ?f s = (True, s3)" "tx s3 = tx s @ encode_frame ?f" "rx s3 = rx s" "tx_ok (tx_plan s3)"
      using write_frame_ok [OF sock, of ?f] len [of h] by auto
    obtain s4 where "write_exact (encode_raw_data_header n) s3 = (int (length (encode_raw_data_header n)), s4)"
      "tx s4 = tx s3 @ encode_raw_data_header n" "rx s4 = rx s3" "tx_ok (tx_plan s4)"
      by (rule write_exact_ok [OF s3(4), of "encode_raw_data_header n"]) (auto simp: RAW_HEADER_SIZE_def)
    with s3 show ?thesis by auto
  qed
  note sent = this
  show ?thesis
  proof (cases "s1 = s \<and> (r = Inr None \<or> (\<exists>e. r = Inl e))")
    case True
    with stop no show ?thesis by blast
  next
    case False
    then obtain full_path m sha where "resolve_path storage_root p = Inr full_path"
      "file_exists storage_root fs p = Inr True" "get_file_size storage_root fs p = Inr m"
      "m \<noteq> 0" "\<not> m \<le> offset" "compute_sha256 storage_root fs p = Inr sha"
      using an by (auto simp: send_file_announce_def Let_def split_beta split: sum.splits if_splits)
    with sent [of "\<lparr>dh_relative_path = p, dh_total_size = m, dh_sha256_hash = sha, dh_offset = offset\<rparr>" "m - offset"] an
    show ?thesis by (intro yes) (auto simp: send_file_announce_def Let_def)
  qed
qed

text \<open>
  C35. A file that has become shorter than announced is never reported as an error: \<^verbatim>\<open>sendfile\<close> answers
  0 at the end of the file, nothing changes any more, and the loop does not return.
\<close>

theorem send_file_linux_short_file_hangs:
  assumes "tx_ok (tx_plan s)" and "sint offset \<ge> 0" and "0 < total_size"
    and "length content < unat offset + unat total_size"
  shows "send_file_linux content offset total_size s = None"
proof (rule ccontr)
  assume "send_file_linux content offset total_size s \<noteq> None"
  then obtain ok s1 where run: "send_file_linux_loop content (unat offset) total_size s = Some (ok, s1)"
    using assms(2) by (auto simp: send_file_linux_def)
  then have "ok" using send_file_linux_loop_no_failure [OF run assms(1)] by simp
  with send_file_linux_loop_success [OF run] assms(3,4) show False by simp
qed

theorem send_file_linux_short_file_hangs_witness:
  "send_file_linux [5, 6] 0 3 \<lparr>rx = [], tx_plan = [], tx = []\<rparr> = None"
  using send_file_linux_short_file_hangs [of "\<lparr>rx = [], tx_plan = [], tx = []\<rparr>" 0 3 "[5, 6]"] by simp

definition download_header :: "codec \<Rightarrow> string \<Rightarrow> byte list \<Rightarrow> u64 \<Rightarrow> WireFrame" where
  "download_header cd p content offset =
     \<lparr>message_type = MSG_ZERO_COPY_DOWNLOAD_HEADER,
      payload = ser_ZeroCopyDownloadHeader cd
        \<lparr>dh_relative_path = p, dh_total_size = word_of_nat (length content),
         dh_sha256_hash = to_hex (sha256_raw content), dh_offset = offset\<rparr>\<rparr>"

lemma send_file_announce_known:
  assumes p: "plain_path p" and f: "os_node fs (path_append storage_root p) = Some (File c t)"
      "compute_sha256 storage_root fs p = Inr sha"
    and off: "unat offset < length c" and small: "length c < 2 ^ 63" and sock: "tx_ok (tx_plan s)"
    and h: "h = \<lparr>message_type = MSG_ZERO_COPY_DOWNLOAD_HEADER, payload = ser_ZeroCopyDownloadHeader cd
      \<lparr>dh_relative_path = p, dh_total_size = word_of_nat (length c), dh_sha256_hash = sha, dh_offset = offset\<rparr>\<rparr>"
    and hlen: "length (payload h) < 2 ^ 32 - FRAME_HEADER_SIZE"
  obtains s1 where "send_file_announce cd storage_root fs p offset s =
      (Inr (Some (path_append storage_root p, word_of_nat (length c) - offset)), s1)" "rx s1 = rx s" "tx_ok (tx_plan s1)"
    "tx s1 = tx s @ encode_frame h @ encode_raw_data_header (word_of_nat (length c) - offset)"
proof -
  let ?n = "word_of_nat (length c) :: u64"
  have "unat ?n = length c" using small by (simp add: unat_of_nat)
  then have size: "offset < ?n" "?n \<noteq> 0" using off by (auto simp: word_less_nat_alt)
  obtain s1 where w1: "write_frame h s = (True, s1)" "tx s1 = tx s @ encode_frame h" "rx s1 = rx s" "tx_ok (tx_plan s1)"
    using write_frame_ok [OF sock hlen] by blast
  obtain s2 where w2: "write_exact (encode_raw_data_header (?n - offset)) s1 = (int (length (encode_raw_data_header (?n - offset))), s2)"
    "tx s2 = tx s1 @ encode_raw_data_header (?n - offset)" "rx s2 = rx s1" "tx_ok (tx_plan s2)"
    by (rule write_exact_ok [OF w1(4), of "encode_raw_data_header (?n - offset)"]) (auto simp: RAW_HEADER_SIZE_def)
  have "send_file_announce cd storage_root fs p offset s = (Inr (Some (path_append storage_root p, ?n - offset)), s2)"
    using size w1(1) w2(1) f
    by (simp add: send_file_announce_def resolve_plain [OF p] file_exists_def get_file_size_def fs_exists_def
        fs_file_size_def h Let_def not_le)
  then show ?thesis by (rule that) (use w1 w2 in simp_all)
qed

lemma send_file_announce_file:
  assumes p: "plain_path p" "CHR 0x00 \<notin> set storage_root"
    and f: "node_at fs (target_key storage_root fs p) = Some (File c t)" "no_read fs = []"
    and off: "unat offset < length c" and small: "length c < 2 ^ 63" and sock: "tx_ok (tx_plan s)"
    and hlen: "length (payload (download_header cd p c offset)) < 2 ^ 32 - FRAME_HEADER_SIZE"
  obtains s1 where "send_file_announce cd storage_root fs p offset s =
      (Inr (Some (path_append storage_root p, word_of_nat (length c) - offset)), s1)" "rx s1 = rx s" "tx_ok (tx_plan s1)"
    "tx s1 = tx s @ encode_frame (download_header cd p c offset) @ encode_raw_data_header (word_of_nat (length c) - offset)"
proof -
  have node: "os_node fs (path_append storage_root p) = Some (File c t)" using f(1) os_node_target [OF p] by simp
  moreover from this have "compute_sha256 storage_root fs p = Inr (to_hex (sha256_raw c))"
    using f(2) by (simp add: compute_sha256_def resolve_plain [OF p(1)] open_in_def)
  ultimately show ?thesis
    using send_file_announce_known [OF p(1) _ _ off small sock download_header_def hlen] that by blast
qed

lemma send_file_sends:
  assumes p: "plain_path p" "CHR 0x00 \<notin> set storage_root"
    and f: "node_at fs (target_key storage_root fs p) = Some (File c t)" "no_read fs = []"
    and off: "unat offset < length c" and small: "length c < 2 ^ 63" and sock: "tx_ok (tx_plan s)"
    and hlen: "length (payload (download_header cd p c offset)) < 2 ^ 32 - FRAME_HEADER_SIZE"
  shows "\<exists>s'. send_file cd storage_root fs p offset s = Some (Inr True, s') \<and> rx s' = rx s \<and>
    tx s' = tx s @ encode_frame (download_header cd p c offset) @
      encode_raw_data_header (word_of_nat (length c) - offset) @ drop (unat offset) c"
proof -
  let ?n = "word_of_nat (length c) :: u64"
  have "unat ?n = length c" using small by (simp add: unat_of_nat)
  then have size: "unat (?n - offset) = length c - unat offset"
    using off by (simp add: unat_sub word_le_nat_alt)
  obtain s2 where w2: "send_file_announce cd storage_root fs p offset s = (Inr (Some (path_append storage_root p, ?n - offset)), s2)"
    "rx s2 = rx s" "tx_ok (tx_plan s2)"
    "tx s2 = tx s @ encode_frame (download_header cd p c offset) @ encode_raw_data_header (?n - offset)"
    by (rule send_file_announce_file [OF assms])
  obtain s3 where w3: "send_file_linux c offset (?n - offset) s2 = Some (True, s3)"
    "tx s3 = tx s2 @ take (unat (?n - offset)) (drop (unat offset) c)" "rx s3 = rx s2"
    using send_file_linux_sends [OF w2(3), of offset "?n - offset" c] size off small by auto
  have "os_node fs (path_append storage_root p) = Some (File c t)" using f(1) os_node_target [OF p] by simp
  then have "send_file cd storage_root fs p offset s = Some (Inr True, s3)"
    using w2(1) w3(1) f(2) by (simp add: send_file_def open_in_def)
  moreover have "take (unat (?n - offset)) (drop (unat offset) c) = drop (unat offset) c" using size by simp
  ultimately show ?thesis using w2 w3 by auto
qed

text \<open>
  C27. The Linux build and the portable build serve every request alike: for any path and offset, over a
  connection whose only disturbances are short writes and interrupted calls, the \<^verbatim>\<open>sendfile\<close> path
  returns (it does not spin), with the same result as the read/send path, and the client receives the
  same bytes.
\<close>

theorem send_file_platforms_agree:
  assumes sock: "tx_ok (tx_plan s)" and bounded: "\<forall>k c. file_at fs k = Some c \<longrightarrow> length c < 2 ^ 63"
    and len: "\<And>h. length (ser_ZeroCopyDownloadHeader cd h) < 2 ^ 32 - FRAME_HEADER_SIZE"
  shows "\<exists>r s1 s2. send_file cd storage_root fs p offset s = Some (r, s1) \<and>
    send_file_posix cd storage_root fs p offset s = (r, s2) \<and> tx s1 = tx s2 \<and> rx s1 = rx s2"
proof -
  obtain r s1 where an: "send_file_announce cd storage_root fs p offset s = (r, s1)" by fastforce
  then show ?thesis using sock len
  proof (cases rule: send_file_announce_sends)
    case (yes full_path n h)
    note an' = an [unfolded yes(1)]
    have "\<exists>s2 s3. send_file_linux c offset n s1 = Some (True, s2) \<and> send_file_fallback c offset n s1 = (True, s3) \<and>
        tx s2 = tx s3 \<and> rx s2 = rx s3" if "open_in fs full_path = Some (File c t)" for c t
      using announced_range [OF an' that bounded] send_file_linux_sends [OF yes(3), of offset n c]
        send_file_fallback_sends [OF yes(3), of offset n c] by auto
    then show ?thesis
      using an' by (fastforce simp: send_file_def send_file_posix_def split: option.split node.split)
  qed (use an in \<open>simp_all add: send_file_def send_file_posix_def\<close>)
qed

theorem send_file_platforms_agree_witness:
  "\<exists>r s1 s2. send_file demo_codec ''./data'' demo_storage ''notes'' 2 \<lparr>rx = [], tx_plan = [Send_accept 1, Send_fail EINTR], tx = []\<rparr> = Some (r, s1) \<and>
    send_file_posix demo_codec ''./data'' demo_storage ''notes'' 2 \<lparr>rx = [], tx_plan = [Send_accept 1, Send_fail EINTR], tx = []\<rparr> = (r, s2) \<and>
    tx s1 = tx s2"
proof -
  let ?s = "\<lparr>rx = [], tx_plan = [Send_accept 1, Send_fail EINTR], tx = []\<rparr>"
  have "max_file demo_storage < 2 ^ 63" by (simp add: demo_storage_facts)
  then have "\<forall>k c. file_at demo_storage k = Some c \<longrightarrow> length c < 2 ^ 63"
    using files_bounded_at [OF demo_storage_bounded] by fastforce
  then show ?thesis
    using send_file_platforms_agree [of ?s demo_storage demo_codec "''./data''" "''notes''" 2]
    by (auto simp: demo_codec_def FRAME_HEADER_SIZE_def)
qed

text \<open>What a client reads: the header message and the announced bytes.\<close>

lemma read_announced:
  assumes client: "rx_bytes (rx client) = encode_frame h @ encode_raw_data_header n @ data @ rest"
    and h: "length (payload h) < 2 ^ 32 - FRAME_HEADER_SIZE" "length (payload h) \<le> grant"
    and n: "length data = unat n" "unat n < 2 ^ 32" "unat n \<le> grant"
  shows "read_frames grant 2 client = Some [h, \<lparr>message_type = MSG_RAW_DATA, payload = data\<rparr>]"
proof -
  obtain c1 where c1: "read_frame grant client = (Inr (Some h), c1)"
    "rx_bytes (rx c1) = encode_raw_data_header n @ data @ rest"
    using read_frame_standard [OF client, of grant] h by (auto simp: FRAME_HEADER_SIZE_def)
  obtain c2 where "read_frame grant c1 = (Inr (Some \<lparr>message_type = MSG_RAW_DATA, payload = data\<rparr>), c2)"
    using read_frame_raw [OF c1(2) n] by blast
  with c1(1) show ?thesis by (simp add: numeral_2_eq_2)
qed

text \<open>
  A download: for a readable, non-empty file and an offset inside it, \<^verbatim>\<open>send_file\<close> returns with
  success, and a client that reads two frames from what it has sent gets the header message and a
  raw-data frame with exactly the bytes of the file from the offset on (below the 4 GiB of a frame).
\<close>

lemma download_delivers_file:
  assumes p: "plain_path p" "CHR 0x00 \<notin> set storage_root"
    and f: "node_at fs (target_key storage_root fs p) = Some (File c t)" "no_read fs = []"
    and off: "unat offset < length c" and small: "length c < 2 ^ 63" "length c - unat offset < 2 ^ 32"
    and sock: "tx_ok (tx_plan s)" "tx s = []"
    and hlen: "length (payload (download_header cd p c offset)) < 2 ^ 32 - FRAME_HEADER_SIZE"
    and mem: "length (payload (download_header cd p c offset)) \<le> grant" "length c \<le> grant"
  shows "\<exists>s'. send_file cd storage_root fs p offset s = Some (Inr True, s') \<and>
    (\<forall>client. rx_bytes (rx client) = tx s' \<longrightarrow> read_frames grant 2 client =
       Some [download_header cd p c offset, \<lparr>message_type = MSG_RAW_DATA, payload = drop (unat offset) c\<rparr>])"
proof -
  let ?h = "download_header cd p c offset" and ?n = "word_of_nat (length c) :: u64"
  obtain s' where s': "send_file cd storage_root fs p offset s = Some (Inr True, s')"
    "tx s' = encode_frame ?h @ encode_raw_data_header (?n - offset) @ drop (unat offset) c @ []"
    using send_file_sends [OF p f off small(1) sock(1) hlen] sock(2) by auto
  have "unat ?n = length c" using small(1) by (simp add: unat_of_nat)
  then have n: "unat (?n - offset) = length c - unat offset"
    using off by (simp add: unat_sub word_le_nat_alt)
  have "read_frames grant 2 client = Some [?h, \<lparr>message_type = MSG_RAW_DATA, payload = drop (unat offset) c\<rparr>]"
    if "rx_bytes (rx client) = tx s'" for client
    using that s'(2) n small(2) mem hlen by (intro read_announced [where n = "?n - offset" and rest = "[]"]) simp_all
  with s'(1) show ?thesis by blast
qed

end
