(* ===== verification/Negotiator.thy ===== *)
theory Negotiator
  imports File_Manager Messages
begin

text \<open>
  The negotiator (\<^verbatim>\<open>negotiator.h\<close>, \<^verbatim>\<open>negotiator.cpp\<close>): from the server's copy of a file and the hash
  the client reports, which transfer is needed.  Its fields are the file manager (its root) and the
  block size it was constructed with.
\<close>

record Negotiator =
  ng_storage_root :: string
  ng_block_size :: u32

record NegotiationResult =
  ns_file_mode :: int
  ns_transfer_mode :: int
  ns_server_file_size :: u64
  ns_server_sha256 :: string
  ns_block_size :: u32

definition negotiate ::
    "Negotiator \<Rightarrow> storage \<Rightarrow> string \<Rightarrow> u64 \<Rightarrow> u64 \<Rightarrow> string \<Rightarrow> NegotiationResult result" where
  "negotiate ng fs relative_path client_file_size client_last_modified_ns client_sha256 =
     (let root = ng_storage_root ng;
          result = \<lparr>ns_file_mode = FRESH, ns_transfer_mode = ZERO_COPY, ns_server_file_size = 0,
                    ns_server_sha256 = [], ns_block_size = ng_block_size ng\<rparr> in
      bind_result (file_exists root fs relative_path) (\<lambda>there.
      if \<not> there then Inr result
      else bind_result (get_file_info root fs relative_path) (\<lambda>server_info.
        case server_info of
          None \<Rightarrow> Inr result
        | Some info \<Rightarrow>
            let result = result\<lparr>ns_server_file_size := fi_file_size info,
                                ns_server_sha256 := fi_sha256_hex info\<rparr> in
            if client_sha256 \<noteq> [] \<and> client_sha256 = fi_sha256_hex info
            then Inr (result\<lparr>ns_file_mode := UNCHANGED, ns_transfer_mode := TRANSFER_MODE_UNSPECIFIED\<rparr>)
            else Inr (result\<lparr>ns_file_mode := MODIFIED, ns_transfer_mode := DELTA_SYNC\<rparr>))))"

text \<open>A digest can only be equal to the one of a file that can be read: none is empty.\<close>

lemma negotiate_spec:
  assumes p: "plain_path p" "CHR 0x00 \<notin> set (ng_storage_root ng)"
  shows "negotiate ng fs p csize cmtime csha =
    (let k = target_key (ng_storage_root ng) fs p in
     case node_at fs k of
       None \<Rightarrow> Inr \<lparr>ns_file_mode = FRESH, ns_transfer_mode = ZERO_COPY, ns_server_file_size = 0,
                    ns_server_sha256 = [], ns_block_size = ng_block_size ng\<rparr>
     | Some Dir \<Rightarrow> Inl Filesystem_error
     | Some (File c _) \<Rightarrow>
         let same = k \<notin> set (no_read fs) \<and> csha = to_hex (fips_sha256 c) in
         Inr \<lparr>ns_file_mode = (if same then UNCHANGED else MODIFIED),
              ns_transfer_mode = (if same then TRANSFER_MODE_UNSPECIFIED else DELTA_SYNC),
              ns_server_file_size = word_of_nat (length c),
              ns_server_sha256 = (if k \<in> set (no_read fs) then [] else to_hex (fips_sha256 c)),
              ns_block_size = ng_block_size ng\<rparr>)"
proof -
  have "to_hex (fips_sha256 c) \<noteq> []" for c
    using file_digest.digest_nonempty [of c] by (simp add: sha256_raw_eq)
  then show ?thesis
    by (simp add: negotiate_def get_file_info_spec [OF p] file_exists_def resolve_plain [OF p(1)]
        fs_exists_def os_node_target [OF p] Let_def split: option.split node.split)
qed

text \<open>
  C34. The decision, for every state of the server's copy: no file gives a fresh zero-copy transfer; a file
  that can be read and whose digest is the one the client reports is unchanged and needs no transfer; every
  other file is modified and is synchronised by blocks, also one that cannot be read, even when the client
  reports no digest.  Size and digest (empty for a file that cannot be read) of the server's copy are reported
  with it.  The sizes and times the client sends play no role, and a directory behind the name makes the call fail.
\<close>

theorem negotiate_decision:
  assumes p: "plain_path p" "CHR 0x00 \<notin> set (ng_storage_root ng)"
  shows "negotiate ng fs p csize cmtime csha =
    (let k = target_key (ng_storage_root ng) fs p in
     case node_at fs k of
       None \<Rightarrow> Inr \<lparr>ns_file_mode = FRESH, ns_transfer_mode = ZERO_COPY, ns_server_file_size = 0,
                    ns_server_sha256 = [], ns_block_size = ng_block_size ng\<rparr>
     | Some Dir \<Rightarrow> Inl Filesystem_error
     | Some (File c _) \<Rightarrow>
         let same = k \<notin> set (no_read fs) \<and> csha = to_hex (fips_sha256 c) in
         Inr \<lparr>ns_file_mode = (if same then UNCHANGED else MODIFIED),
              ns_transfer_mode = (if same then TRANSFER_MODE_UNSPECIFIED else DELTA_SYNC),
              ns_server_file_size = word_of_nat (length c),
              ns_server_sha256 = (if k \<in> set (no_read fs) then [] else to_hex (fips_sha256 c)),
              ns_block_size = ng_block_size ng\<rparr>)"
  by (rule negotiate_spec [OF assms])

text \<open>
  All five cases on the example storage: a file that is not there, the file with the digest the client has and
  with another one, a directory, and the file without permission to read it and a client without a digest.
\<close>

theorem negotiate_decision_witness:
  "negotiate \<lparr>ng_storage_root = ''./data'', ng_block_size = 65536\<rparr> demo_storage ''missing'' 3 0 [] =
     Inr \<lparr>ns_file_mode = FRESH, ns_transfer_mode = ZERO_COPY, ns_server_file_size = 0,
          ns_server_sha256 = [], ns_block_size = 65536\<rparr> \<and>
   negotiate \<lparr>ng_storage_root = ''./data'', ng_block_size = 65536\<rparr> demo_storage ''notes'' 0 0 (to_hex (fips_sha256 [1, 2, 3, 4, 5])) =
     Inr \<lparr>ns_file_mode = UNCHANGED, ns_transfer_mode = TRANSFER_MODE_UNSPECIFIED, ns_server_file_size = 5,
          ns_server_sha256 = to_hex (fips_sha256 [1, 2, 3, 4, 5]), ns_block_size = 65536\<rparr> \<and>
   negotiate \<lparr>ng_storage_root = ''./data'', ng_block_size = 65536\<rparr> demo_storage ''notes'' 5 100 [] =
     Inr \<lparr>ns_file_mode = MODIFIED, ns_transfer_mode = DELTA_SYNC, ns_server_file_size = 5,
          ns_server_sha256 = to_hex (fips_sha256 [1, 2, 3, 4, 5]), ns_block_size = 65536\<rparr> \<and>
   negotiate \<lparr>ng_storage_root = ''.'', ng_block_size = 65536\<rparr> demo_storage ''data'' 0 0 [] = Inl Filesystem_error \<and>
   negotiate \<lparr>ng_storage_root = ''./data'', ng_block_size = 65536\<rparr>
       (demo_storage\<lparr>no_read := [[''srv'', ''data'', ''notes'']]\<rparr>) ''notes'' 5 100 [] =
     Inr \<lparr>ns_file_mode = MODIFIED, ns_transfer_mode = DELTA_SYNC, ns_server_file_size = 5,
          ns_server_sha256 = [], ns_block_size = 65536\<rparr>"
proof -
  let ?ng = "\<lparr>ng_storage_root = ''./data'', ng_block_size = 65536\<rparr>" and ?up = "\<lparr>ng_storage_root = ''.'', ng_block_size = 65536\<rparr>"
  let ?locked = "demo_storage\<lparr>no_read := [[''srv'', ''data'', ''notes'']]\<rparr>"
  have paths: "plain_path ''missing''" "plain_path ''data''" "CHR 0x00 \<notin> set ''.''" by code_simp+
  have nodes: "node_at demo_storage (target_key ''./data'' demo_storage ''missing'') = None"
    "node_at demo_storage (target_key ''./data'' demo_storage ''notes'') = Some (File [1, 2, 3, 4, 5] 100)"
    "no_read demo_storage = []" "node_at demo_storage (target_key ''.'' demo_storage ''data'') = Some Dir"
    "node_at ?locked (target_key ''./data'' ?locked ''notes'') = Some (File [1, 2, 3, 4, 5] 100)"
    "target_key ''./data'' ?locked ''notes'' = [''srv'', ''data'', ''notes'']"
    by code_simp+
  have hex: "to_hex (fips_sha256 [1, 2, 3, 4, 5]) \<noteq> []"
    using file_digest.digest_nonempty [of "[1, 2, 3, 4, 5]"] by (simp add: sha256_raw_eq)
  show ?thesis
    using negotiate_decision [of "''missing''" ?ng demo_storage 3 0 "[]", OF paths(1)] demo_storage_facts(2,3) paths nodes hex
      negotiate_decision [of "''notes''" ?ng demo_storage 0 0 "to_hex (fips_sha256 [1, 2, 3, 4, 5])"]
      negotiate_decision [of "''notes''" ?ng demo_storage 5 100 "[]"]
      negotiate_decision [of "''data''" ?up demo_storage 0 0 "[]"]
      negotiate_decision [of "''notes''" ?ng ?locked 5 100 "[]"]
    by (auto simp: Let_def)
qed

end
