(* ===== verification/File_Mutex.thy ===== *)
theory File_Mutex
  imports Prelude
begin

text \<open>
  The lock table (\<^verbatim>\<open>file_mutex.h\<close>, \<^verbatim>\<open>file_mutex.cpp\<close>): one reader/writer mutex per path, created on
  demand, with a count of the threads that use it.  The operations are functions on the table; the
  interleaving of the worker threads is a step relation over the table and what each thread is
  doing, with its invariant.  The contract \<open>lock_section\<close> is what the delta-sync handler uses.
\<close>

section \<open>State and operations\<close>

text \<open>A \<^verbatim>\<open>std::shared_mutex\<close>: how many hold it shared, and whether somebody holds it exclusively.\<close>

record shared_mutex =
  readers :: nat
  writer :: bool

record MutexEntry =
  mtx :: nat
  active_count :: int

text \<open>
  The map from paths to entries, and the mutex objects behind the shared pointers, by identity.
  An erased entry's mutex lives on while threads hold a pointer to it.
\<close>

record FileMutex =
  mutex_map :: "string \<Rightarrow> MutexEntry option"
  objects :: "nat \<Rightarrow> shared_mutex"
  next_object :: nat

definition FileMutex_init :: FileMutex where
  "FileMutex_init = \<lparr>mutex_map = (\<lambda>_. None), objects = (\<lambda>_. \<lparr>readers = 0, writer = False\<rparr>), next_object = 0\<rparr>"

definition get_or_create :: "string \<Rightarrow> FileMutex \<Rightarrow> nat \<times> FileMutex" where
  "get_or_create path fm =
     (case mutex_map fm path of
        Some e \<Rightarrow>
          (mtx e, fm\<lparr>mutex_map := (mutex_map fm)(path \<mapsto> e\<lparr>active_count := active_count e + 1\<rparr>)\<rparr>)
      | None \<Rightarrow>
          (next_object fm,
           fm\<lparr>mutex_map := (mutex_map fm)(path \<mapsto> \<lparr>mtx = next_object fm, active_count = 1\<rparr>),
              objects := (objects fm)(next_object fm := \<lparr>readers = 0, writer = False\<rparr>),
              next_object := Suc (next_object fm)\<rparr>))"

text \<open>The operations of a mutex object; \<open>None\<close> is a call that has to wait.\<close>

definition lock_shared :: "nat \<Rightarrow> FileMutex \<Rightarrow> FileMutex option" where
  "lock_shared m fm =
     (let s = objects fm m in
      if writer s then None
      else Some (fm\<lparr>objects := (objects fm)(m := s\<lparr>readers := Suc (readers s)\<rparr>)\<rparr>))"

definition lock_exclusive :: "nat \<Rightarrow> FileMutex \<Rightarrow> FileMutex option" where
  "lock_exclusive m fm =
     (let s = objects fm m in
      if writer s \<or> readers s \<noteq> 0 then None
      else Some (fm\<lparr>objects := (objects fm)(m := s\<lparr>writer := True\<rparr>)\<rparr>))"

definition unlock_shared :: "nat \<Rightarrow> FileMutex \<Rightarrow> FileMutex" where
  "unlock_shared m fm =
     fm\<lparr>objects := (objects fm)(m := (objects fm m)\<lparr>readers := readers (objects fm m) - 1\<rparr>)\<rparr>"

definition unlock_exclusive :: "nat \<Rightarrow> FileMutex \<Rightarrow> FileMutex" where
  "unlock_exclusive m fm = fm\<lparr>objects := (objects fm)(m := (objects fm m)\<lparr>writer := False\<rparr>)\<rparr>"

definition acquire_read :: "string \<Rightarrow> FileMutex \<Rightarrow> unit result \<times> FileMutex" where
  "acquire_read path fm =
     (let (m, fm1) = get_or_create path fm in
      case lock_shared m fm1 of
        None \<Rightarrow> (Inl (Waits_for_lock path), fm1)
      | Some fm2 \<Rightarrow> (Inr (), fm2))"

definition acquire_write :: "string \<Rightarrow> FileMutex \<Rightarrow> unit result \<times> FileMutex" where
  "acquire_write path fm =
     (let (m, fm1) = get_or_create path fm in
      case lock_exclusive m fm1 of
        None \<Rightarrow> (Inl (Waits_for_lock path), fm1)
      | Some fm2 \<Rightarrow> (Inr (), fm2))"

definition drop_user :: "string \<Rightarrow> FileMutex \<Rightarrow> FileMutex" where
  "drop_user path fm =
     fm\<lparr>mutex_map := (mutex_map fm)(path :=
       map_option (\<lambda>e. e\<lparr>active_count := active_count e - 1\<rparr>) (mutex_map fm path))\<rparr>"

definition release_read :: "string \<Rightarrow> FileMutex \<Rightarrow> FileMutex" where
  "release_read path fm =
     (case mutex_map fm path of
        None \<Rightarrow> fm
      | Some e \<Rightarrow> drop_user path (unlock_shared (mtx e) fm))"

definition release_write :: "string \<Rightarrow> FileMutex \<Rightarrow> FileMutex" where
  "release_write path fm =
     (case mutex_map fm path of
        None \<Rightarrow> fm
      | Some e \<Rightarrow> drop_user path (unlock_exclusive (mtx e) fm))"

definition cleanup_unused :: "FileMutex \<Rightarrow> FileMutex" where
  "cleanup_unused fm =
     fm\<lparr>mutex_map := (\<lambda>path. case mutex_map fm path of
          Some e \<Rightarrow> if active_count e \<le> 0 then None else Some e
        | None \<Rightarrow> None)\<rparr>"

section \<open>Threads\<close>

text \<open>
  What a worker thread is doing with the lock table.  \<^verbatim>\<open>acquire\<close> is two steps, since the table's own
  mutex is released before the file's mutex is locked; \<^verbatim>\<open>release\<close> and \<^verbatim>\<open>cleanup_unused\<close> run under the
  table's mutex and are one step each.
\<close>

datatype thread =
    Idle
  | Waiting bool string nat
  | Reading string nat
  | Writing string nat

inductive lock_step :: "FileMutex \<times> thread list \<Rightarrow> FileMutex \<times> thread list \<Rightarrow> bool" where
  start_acquire: "i < length ts \<Longrightarrow> ts ! i = Idle \<Longrightarrow> get_or_create path fm = (m, fm') \<Longrightarrow>
     lock_step (fm, ts) (fm', ts[i := Waiting exclusive path m])"
| got_shared: "i < length ts \<Longrightarrow> ts ! i = Waiting False path m \<Longrightarrow> lock_shared m fm = Some fm' \<Longrightarrow>
     lock_step (fm, ts) (fm', ts[i := Reading path m])"
| got_exclusive: "i < length ts \<Longrightarrow> ts ! i = Waiting True path m \<Longrightarrow> lock_exclusive m fm = Some fm' \<Longrightarrow>
     lock_step (fm, ts) (fm', ts[i := Writing path m])"
| finish_read: "i < length ts \<Longrightarrow> ts ! i = Reading path m \<Longrightarrow>
     lock_step (fm, ts) (release_read path fm, ts[i := Idle])"
| finish_write: "i < length ts \<Longrightarrow> ts ! i = Writing path m \<Longrightarrow>
     lock_step (fm, ts) (release_write path fm, ts[i := Idle])"
| clean: "lock_step (fm, ts) (cleanup_unused fm, ts)"

inductive_cases lock_stepE: "lock_step (fm, ts) s"

section \<open>Invariant\<close>

definition users :: "(thread \<Rightarrow> bool) \<Rightarrow> thread list \<Rightarrow> nat" where
  "users P ts = length (filter P ts)"

fun on_path :: "string \<Rightarrow> thread \<Rightarrow> bool" where
  "on_path p Idle = False"
| "on_path p (Waiting _ q _) = (q = p)"
| "on_path p (Reading q _) = (q = p)"
| "on_path p (Writing q _) = (q = p)"

fun on_mutex :: "(string \<Rightarrow> MutexEntry option) \<Rightarrow> thread \<Rightarrow> bool" where
  "on_mutex mm Idle = True"
| "on_mutex mm (Waiting _ q m) = (map_option mtx (mm q) = Some m)"
| "on_mutex mm (Reading q m) = (map_option mtx (mm q) = Some m)"
| "on_mutex mm (Writing q m) = (map_option mtx (mm q) = Some m)"

fun reads :: "nat \<Rightarrow> thread \<Rightarrow> bool" where
  "reads m (Reading _ m') = (m' = m)"
| "reads m _ = False"

fun writes :: "nat \<Rightarrow> thread \<Rightarrow> bool" where
  "writes m (Writing _ m') = (m' = m)"
| "writes m _ = False"

definition active :: "FileMutex \<Rightarrow> string \<Rightarrow> int" where
  "active fm p = (case mutex_map fm p of None \<Rightarrow> 0 | Some e \<Rightarrow> active_count e)"

definition lock_inv :: "FileMutex \<times> thread list \<Rightarrow> bool" where
  "lock_inv s \<longleftrightarrow> (case s of (fm, ts) \<Rightarrow>
     (\<forall>p. active fm p = int (users (on_path p) ts)) \<and>
     (\<forall>t \<in> set ts. on_mutex (mutex_map fm) t) \<and>
     (\<forall>p e. mutex_map fm p = Some e \<longrightarrow> mtx e < next_object fm) \<and>
     (\<forall>p q e e'. mutex_map fm p = Some e \<longrightarrow> mutex_map fm q = Some e' \<longrightarrow> mtx e = mtx e' \<longrightarrow> p = q) \<and>
     (\<forall>m. readers (objects fm m) = users (reads m) ts \<and>
          of_bool (writer (objects fm m)) = users (writes m) ts \<and>
          (writer (objects fm m) \<longrightarrow> readers (objects fm m) = 0)))"

lemma users_update:
  "i < length ts \<Longrightarrow> users P (ts[i := t]) + of_bool (P (ts ! i)) = users P ts + of_bool (P t)"
proof (induction ts arbitrary: i)
  case (Cons x ts)
  then show ?case by (cases i) (auto simp: users_def)
qed simp

lemma users_pos: "i < length ts \<Longrightarrow> P (ts ! i) \<Longrightarrow> 0 < users P ts"
  by (auto simp: users_def filter_empty_conv)

lemma users_zero: "users P ts = 0 \<longleftrightarrow> (\<forall>t \<in> set ts. \<not> P t)"
  by (simp add: users_def filter_empty_conv)

lemma users_after:
  assumes "i < length ts"
  shows "users P (ts[i := t]) = users P ts + of_bool (P t) - of_bool (P (ts ! i))"
  using users_update [OF assms, of P t] by linarith

lemma lock_invI:
  assumes "\<And>p. active fm p = int (users (on_path p) ts)"
    and "\<And>t. t \<in> set ts \<Longrightarrow> on_mutex (mutex_map fm) t"
    and "\<And>p e. mutex_map fm p = Some e \<Longrightarrow> mtx e < next_object fm"
    and "\<And>p q e e'. mutex_map fm p = Some e \<Longrightarrow> mutex_map fm q = Some e' \<Longrightarrow> mtx e = mtx e' \<Longrightarrow> p = q"
    and "\<And>m. readers (objects fm m) = users (reads m) ts"
    and "\<And>m. of_bool (writer (objects fm m)) = users (writes m) ts"
    and "\<And>m. writer (objects fm m) \<Longrightarrow> readers (objects fm m) = 0"
  shows "lock_inv (fm, ts)"
  using assms unfolding lock_inv_def by blast

lemma lock_invD:
  assumes "lock_inv (fm, ts)"
  shows "active fm p = int (users (on_path p) ts)"
    and "t \<in> set ts \<Longrightarrow> on_mutex (mutex_map fm) t"
    and "mutex_map fm p = Some e \<Longrightarrow> mtx e < next_object fm"
    and "mutex_map fm p = Some e \<Longrightarrow> mutex_map fm q = Some e' \<Longrightarrow> mtx e = mtx e' \<Longrightarrow> p = q"
    and "readers (objects fm m) = users (reads m) ts"
    and "of_bool (writer (objects fm m)) = users (writes m) ts"
    and "writer (objects fm m) \<Longrightarrow> readers (objects fm m) = 0"
  using assms unfolding lock_inv_def by blast+

lemma thread_object:
  assumes "lock_inv (fm, ts)" and "t \<in> set ts"
  shows "reads m t \<Longrightarrow> m < next_object fm" and "writes m t \<Longrightarrow> m < next_object fm"
  using lock_invD(2) [OF assms] lock_invD(3) [OF assms(1)] by (cases t; auto)+

lemma on_mutex_cong:
  "on_mutex mm t \<Longrightarrow> (\<And>p. on_path p t \<Longrightarrow> map_option mtx (mm' p) = map_option mtx (mm p)) \<Longrightarrow> on_mutex mm' t"
  by (cases t) auto

lemma set_update_cases: "t \<in> set (ts[i := x]) \<Longrightarrow> t \<in> set ts \<or> t = x"
  using set_update_subset_insert by fastforce

lemma inv_start_acquire:
  assumes inv: "lock_inv (fm, ts)" and i: "i < length ts" "ts ! i = Idle"
    and g: "get_or_create path fm = (m, fm')"
  shows "lock_inv (fm', ts[i := Waiting b path m])"
proof (cases "mutex_map fm path")
  case (Some e)
  then have fm': "fm' = fm\<lparr>mutex_map := (mutex_map fm)(path \<mapsto> e\<lparr>active_count := active_count e + 1\<rparr>)\<rparr>"
    and m: "m = mtx e"
    using g by (auto simp: get_or_create_def)
  show ?thesis
  proof (rule lock_invI)
    show "active fm' p = int (users (on_path p) (ts[i := Waiting b path m]))" for p
      using lock_invD(1) [OF inv, of p] Some i by (auto simp: fm' active_def users_after)
    show "on_mutex (mutex_map fm') t" if "t \<in> set (ts[i := Waiting b path m])" for t
      using set_update_cases [OF that]
    proof
      assume "t \<in> set ts"
      from lock_invD(2) [OF inv this] show ?thesis by (rule on_mutex_cong) (auto simp: fm' Some)
    qed (simp add: fm' m)
  qed (use lock_invD [OF inv] Some i in \<open>auto simp: fm' users_after split: if_splits\<close>)
next
  case None
  then have fm': "fm' = fm\<lparr>mutex_map := (mutex_map fm)(path \<mapsto> \<lparr>mtx = next_object fm, active_count = 1\<rparr>),
              objects := (objects fm)(next_object fm := \<lparr>readers = 0, writer = False\<rparr>),
              next_object := Suc (next_object fm)\<rparr>"
    and m: "m = next_object fm"
    using g by (auto simp: get_or_create_def)
  have none: "users (on_path path) ts = 0"
    using lock_invD(1) [OF inv, of path] None by (simp add: active_def)
  have "users (reads m) ts = 0" "users (writes m) ts = 0"
    using thread_object [OF inv] by (auto simp: m users_zero)
  show ?thesis
  proof (rule lock_invI)
    show "active fm' p = int (users (on_path p) (ts[i := Waiting b path m]))" for p
      using lock_invD(1) [OF inv, of p] None i none by (auto simp: fm' active_def users_after)
    show "on_mutex (mutex_map fm') t" if "t \<in> set (ts[i := Waiting b path m])" for t
      using set_update_cases [OF that]
    proof
      assume t: "t \<in> set ts"
      from lock_invD(2) [OF inv t] show ?thesis
        by (rule on_mutex_cong) (use t none in \<open>auto simp: fm' users_zero\<close>)
    qed (simp add: fm' m)
    show "mtx e < next_object fm'" if "mutex_map fm' p = Some e" for p e
      using that lock_invD(3) [OF inv, of p e] by (auto simp: fm' split: if_splits)
    show "p = q" if "mutex_map fm' p = Some e" "mutex_map fm' q = Some e'" "mtx e = mtx e'" for p q e e'
      using that lock_invD(3) [OF inv, of p e] lock_invD(3) [OF inv, of q e'] lock_invD(4) [OF inv, of p e q e']
      by (auto simp: fm' split: if_splits)
  qed (use lock_invD [OF inv] i \<open>users (reads m) ts = 0\<close> \<open>users (writes m) ts = 0\<close> m in \<open>auto simp: fm' users_after\<close>)
qed

lemma inv_got_lock:
  assumes inv: "lock_inv (fm, ts)" and i: "i < length ts" "ts ! i = Waiting b path m"
    and t: "t = Reading path m \<and> lock_shared m fm = Some fm' \<or>
      t = Writing path m \<and> lock_exclusive m fm = Some fm'"
  shows "lock_inv (fm', ts[i := t])"
proof -
  have same: "mutex_map fm' = mutex_map fm" "next_object fm' = next_object fm"
    using t by (auto simp: lock_shared_def lock_exclusive_def Let_def split: if_splits)
  have wait: "on_mutex (mutex_map fm) (Waiting b path m)"
    using lock_invD(2) [OF inv] i by (metis nth_mem)
  show ?thesis
  proof (rule lock_invI)
    show "active fm' p = int (users (on_path p) (ts[i := t]))" for p
      using lock_invD(1) [OF inv, of p] i t by (auto simp: active_def same users_after)
    show "on_mutex (mutex_map fm') u" if "u \<in> set (ts[i := t])" for u
      using set_update_cases [OF that] lock_invD(2) [OF inv] wait t by (auto simp: same)
    show "readers (objects fm' n) = users (reads n) (ts[i := t])" for n
      using lock_invD(5) [OF inv, of n] i t
      by (auto simp: lock_shared_def lock_exclusive_def Let_def users_after split: if_splits)
    show "of_bool (writer (objects fm' n)) = users (writes n) (ts[i := t])" for n
      using lock_invD(6) [OF inv, of n] i t
      by (auto simp: lock_shared_def lock_exclusive_def Let_def users_after split: if_splits)
    show "readers (objects fm' n) = 0" if "writer (objects fm' n)" for n
      using lock_invD(7) [OF inv, of n] that t
      by (auto simp: lock_shared_def lock_exclusive_def Let_def split: if_splits)
  qed (use lock_invD(3,4) [OF inv] in \<open>auto simp: same\<close>)
qed

lemma inv_finish:
  assumes inv: "lock_inv (fm, ts)" and i: "i < length ts"
    and t: "ts ! i = Reading path m \<and> fm' = release_read path fm \<or>
      ts ! i = Writing path m \<and> fm' = release_write path fm"
  shows "lock_inv (fm', ts[i := Idle])"
proof -
  have "on_mutex (mutex_map fm) (ts ! i)" using lock_invD(2) [OF inv] i by simp
  then obtain e where e: "mutex_map fm path = Some e" "mtx e = m" using t by auto
  have same: "mutex_map fm' = (mutex_map fm)(path \<mapsto> e\<lparr>active_count := active_count e - 1\<rparr>)"
    "next_object fm' = next_object fm"
    using t e by (auto simp: release_read_def release_write_def drop_user_def unlock_shared_def unlock_exclusive_def)
  have obj: "objects fm' = (objects fm)(m := (case ts ! i of
      Reading _ _ \<Rightarrow> (objects fm m)\<lparr>readers := readers (objects fm m) - 1\<rparr>
    | _ \<Rightarrow> (objects fm m)\<lparr>writer := False\<rparr>))"
    using t e by (auto simp: release_read_def release_write_def drop_user_def unlock_shared_def unlock_exclusive_def)
  have user: "0 < users (on_path path) ts" using users_pos [OF i, of "on_path path"] t by auto
  show ?thesis
  proof (rule lock_invI)
    show "active fm' p = int (users (on_path p) (ts[i := Idle]))" for p
      using lock_invD(1) [OF inv, of p] i t e user by (auto simp: active_def same users_after)
    show "on_mutex (mutex_map fm') u" if "u \<in> set (ts[i := Idle])" for u
      using set_update_cases [OF that]
    proof
      assume u: "u \<in> set ts"
      from lock_invD(2) [OF inv u] show ?thesis by (rule on_mutex_cong) (auto simp: same e)
    qed simp
    show "readers (objects fm' n) = users (reads n) (ts[i := Idle])" for n
      using lock_invD(5) [OF inv, of n] i t by (auto simp: obj users_after)
    show "of_bool (writer (objects fm' n)) = users (writes n) (ts[i := Idle])" for n
    proof (cases "n = m \<and> ts ! i = Writing path m")
      case True
      then have "0 < users (writes m) ts" using users_pos [OF i, of "writes m"] by simp
      with True lock_invD(6) [OF inv, of m] i show ?thesis
        by (auto simp: obj users_after of_bool_def split: if_splits)
    next
      case False
      with lock_invD(6) [OF inv, of n] i t show ?thesis by (auto simp: obj users_after)
    qed
    show "readers (objects fm' n) = 0" if "writer (objects fm' n)" for n
      using lock_invD(7) [OF inv, of n] that t by (auto simp: obj split: if_splits)
  qed (use lock_invD(3,4) [OF inv] e in \<open>auto simp: same split: if_splits\<close>)
qed

lemma inv_clean:
  assumes inv: "lock_inv (fm, ts)"
  shows "lock_inv (cleanup_unused fm, ts)"
proof (rule lock_invI)
  have map: "mutex_map (cleanup_unused fm) p = Some e \<Longrightarrow> mutex_map fm p = Some e" for p e
    by (auto simp: cleanup_unused_def split: option.splits if_splits)
  have kept: "mutex_map (cleanup_unused fm) p = mutex_map fm p" if "users (on_path p) ts \<noteq> 0" for p
    using lock_invD(1) [OF inv, of p] that by (auto simp: cleanup_unused_def active_def split: option.splits)
  show "active (cleanup_unused fm) p = int (users (on_path p) ts)" for p
  proof (cases "users (on_path p) ts = 0")
    case True
    with lock_invD(1) [OF inv, of p] show ?thesis
      by (auto simp: cleanup_unused_def active_def split: option.splits)
  next
    case False
    with kept lock_invD(1) [OF inv, of p] show ?thesis by (simp add: active_def)
  qed
  show "on_mutex (mutex_map (cleanup_unused fm)) t" if t: "t \<in> set ts" for t
    using lock_invD(2) [OF inv t]
    by (rule on_mutex_cong) (use t kept users_zero in metis)
  show "mtx e < next_object (cleanup_unused fm)" if "mutex_map (cleanup_unused fm) p = Some e" for p e
    using lock_invD(3) [OF inv map [OF that]] by (simp add: cleanup_unused_def)
  show "p = q" if "mutex_map (cleanup_unused fm) p = Some e" "mutex_map (cleanup_unused fm) q = Some e'"
    "mtx e = mtx e'" for p q e e'
    using lock_invD(4) [OF inv map [OF that(1)] map [OF that(2)] that(3)] .
qed (use lock_invD [OF inv] in \<open>auto simp: cleanup_unused_def\<close>)

lemma lock_inv_step: "lock_inv s \<Longrightarrow> lock_step s s' \<Longrightarrow> lock_inv s'"
  by (cases s, cases s')
    (auto elim!: lock_stepE intro: inv_start_acquire inv_clean inv_got_lock inv_finish)

definition lock_start :: "FileMutex \<times> thread list \<Rightarrow> bool" where
  "lock_start s \<longleftrightarrow> fst s = FileMutex_init \<and> list_all (\<lambda>t. t = Idle) (snd s)"

lemma lock_inv_start: "lock_start s \<Longrightarrow> lock_inv s"
  by (cases s)
    (auto simp: lock_start_def lock_inv_def FileMutex_init_def active_def list_all_iff users_def filter_empty_conv)

interpretation file_locks: transition_system lock_start lock_step lock_inv
  by unfold_locales (auto intro: lock_inv_start lock_inv_step)

lemma users_two:
  assumes "i < length ts" "j < length ts" "i \<noteq> j" "P (ts ! i)" "P (ts ! j)"
  shows "2 \<le> users P ts"
proof -
  have "{i, j} \<subseteq> {k. k < length ts \<and> P (ts ! k)}" using assms by auto
  then have "card {i, j} \<le> card {k. k < length ts \<and> P (ts ! k)}" by (intro card_mono) auto
  with assms(3) show ?thesis by (simp add: users_def length_filter_conv_card)
qed

section \<open>The contract for one session\<close>

text \<open>
  What a handler relies on when no other thread holds a lock: taking the lock returns at once, and
  after the matching release nobody holds a lock again.
\<close>

locale lock_section =
  fixes quiet :: "'m \<Rightarrow> bool"
    and acquire :: "string \<Rightarrow> 'm \<Rightarrow> unit result \<times> 'm"
    and release :: "string \<Rightarrow> 'm \<Rightarrow> 'm"
  assumes acquire_quiet: "quiet s \<Longrightarrow> fst (acquire p s) = Inr ()"
    and release_quiet: "quiet s \<Longrightarrow> quiet (release p (snd (acquire p s)))"
begin

lemma section_returns:
  assumes "quiet s"
  obtains s' where "acquire p s = (Inr (), s')" and "quiet (release p s')"
  using acquire_quiet [OF assms, of p] release_quiet [OF assms, of p] by (metis prod.collapse)

end

definition quiet :: "FileMutex \<Rightarrow> bool" where
  "quiet fm \<longleftrightarrow> (\<forall>m. objects fm m = \<lparr>readers = 0, writer = False\<rparr>)"

lemma get_or_create_quiet:
  assumes "quiet fm"
  obtains fm1 m n where "get_or_create p fm = (m, fm1)" "quiet fm1" "mutex_map fm1 p = Some \<lparr>mtx = m, active_count = n\<rparr>"
proof (cases "mutex_map fm p")
  case None
  then show ?thesis using assms that by (auto simp: get_or_create_def quiet_def)
next
  case (Some e)
  then show ?thesis using assms that by (cases e) (auto simp: get_or_create_def quiet_def)
qed

interpretation read_lock: lock_section quiet acquire_read release_read
proof (unfold_locales, goal_cases)
  case (1 s p)
  then show ?case
    by (rule get_or_create_quiet [of s p]) (auto simp: acquire_read_def lock_shared_def quiet_def)
next
  case (2 s p)
  then show ?case
    by (rule get_or_create_quiet [of s p])
      (auto simp: acquire_read_def lock_shared_def quiet_def release_read_def drop_user_def unlock_shared_def)
qed

interpretation write_lock: lock_section quiet acquire_write release_write
proof (unfold_locales, goal_cases)
  case (1 s p)
  then show ?case
    by (rule get_or_create_quiet [of s p]) (auto simp: acquire_write_def lock_exclusive_def quiet_def)
next
  case (2 s p)
  then show ?case
    by (rule get_or_create_quiet [of s p])
      (auto simp: acquire_write_def lock_exclusive_def quiet_def release_write_def drop_user_def unlock_exclusive_def)
qed

lemma quiet_init [simp]: "quiet FileMutex_init"
  by (simp add: quiet_def FileMutex_init_def)

section \<open>Properties\<close>

text \<open>
  C16. Mutual exclusion: whatever the interleaving of acquisitions, releases and clean-ups by any
  number of threads, while one thread writes a path no other thread reads or writes that path.
\<close>

theorem lock_mutual_exclusion:
  assumes "lock_start s" and "lock_step\<^sup>*\<^sup>* s (fm, ts)"
    and "i < length ts" "j < length ts" "i \<noteq> j" and "ts ! i = Writing p m"
  shows "ts ! j \<noteq> Reading p n \<and> ts ! j \<noteq> Writing p n"
proof -
  have inv: "lock_inv (fm, ts)" using file_locks.reachable_invariant [OF assms(1,2)] .
  have "0 < users (writes m) ts" using users_pos [OF assms(3), of "writes m"] assms(6) by simp
  then have "writer (objects fm m)" and one: "users (writes m) ts \<le> 1"
    using lock_invD(6) [OF inv, of m] by (auto simp: of_bool_def split: if_splits)
  then have none: "users (reads m) ts = 0" using lock_invD(5,7) [OF inv, of m] by simp
  have same: "n = m" if "on_mutex (mutex_map fm) (ts ! j)" "ts ! j = Reading p n \<or> ts ! j = Writing p n"
    using that lock_invD(2) [OF inv nth_mem [OF assms(3)]] assms(6) by auto
  show ?thesis
    using same lock_invD(2) [OF inv, of "ts ! j"] assms(4) none users_two [OF assms(3,4,5), of "writes m"] one assms(6)
      users_pos [OF assms(4), of "reads m"]
    by auto
qed

lemma demo_lock_run:
  "\<exists>fm. lock_step\<^sup>*\<^sup>* (FileMutex_init, [Idle, Idle]) (fm, [Writing ''a'' 0, Waiting False ''a'' 0])"
proof -
  define f1 where "f1 = snd (get_or_create ''a'' FileMutex_init)"
  define f2 where "f2 = the (lock_exclusive 0 f1)"
  define f3 where "f3 = snd (get_or_create ''a'' f2)"
  have g1: "get_or_create ''a'' FileMutex_init = (0, f1)"
    and m1: "mutex_map f1 ''a'' = Some \<lparr>mtx = 0, active_count = 1\<rparr>" "objects f1 0 = \<lparr>readers = 0, writer = False\<rparr>"
    by (simp_all add: f1_def get_or_create_def FileMutex_init_def Let_def)
  have x2: "lock_exclusive 0 f1 = Some f2" and m2: "mutex_map f2 ''a'' = Some \<lparr>mtx = 0, active_count = 1\<rparr>"
    using m1 by (simp_all add: f2_def lock_exclusive_def Let_def)
  have g3: "get_or_create ''a'' f2 = (0, f3)"
    using m2 by (simp add: f3_def get_or_create_def Let_def)
  have 1: "lock_step (FileMutex_init, [Idle, Idle]) (f1, [Waiting True ''a'' 0, Idle])"
    using start_acquire [OF _ _ g1, of 0 "[Idle, Idle]" True] by simp
  have 2: "lock_step (f1, [Waiting True ''a'' 0, Idle]) (f2, [Writing ''a'' 0, Idle])"
    using got_exclusive [OF _ _ x2, of 0 "[Waiting True ''a'' 0, Idle]"] by simp
  have 3: "lock_step (f2, [Writing ''a'' 0, Idle]) (f3, [Writing ''a'' 0, Waiting False ''a'' 0])"
    using start_acquire [OF _ _ g3, of 1 "[Writing ''a'' 0, Idle]" False] by simp
  have "lock_step\<^sup>*\<^sup>* (FileMutex_init, [Idle, Idle]) (f3, [Writing ''a'' 0, Waiting False ''a'' 0])"
    by (rule converse_rtranclp_into_rtranclp [of lock_step, OF 1],
        rule converse_rtranclp_into_rtranclp [of lock_step, OF 2], rule r_into_rtranclp [of lock_step, OF 3])
  then show ?thesis by (rule exI)
qed

theorem lock_mutual_exclusion_witness:
  "\<exists>fm. lock_step\<^sup>*\<^sup>* (FileMutex_init, [Idle, Idle]) (fm, [Writing ''a'' 0, Waiting False ''a'' 0]) \<and>
     [Writing ''a'' 0, Waiting False ''a'' 0] ! 1 \<noteq> Reading ''a'' 0"
proof -
  obtain fm where run: "lock_step\<^sup>*\<^sup>* (FileMutex_init, [Idle, Idle]) (fm, [Writing ''a'' 0, Waiting False ''a'' 0])"
    using demo_lock_run by blast
  have "lock_start (FileMutex_init, [Idle, Idle])" by (simp add: lock_start_def)
  from lock_mutual_exclusion [OF this run, of 0 1 "''a''" 0 0] run show ?thesis by auto
qed

text \<open>
  C24. The table is exact: the active count of a path is the number of threads that wait for or hold
  its lock, every such thread has the mutex that the table names, and so \<^verbatim>\<open>cleanup_unused\<close> never takes
  away an entry in use and a release always finds the mutex its thread holds.
\<close>

theorem lock_table_exact:
  assumes "lock_start s" and "lock_step\<^sup>*\<^sup>* s (fm, ts)"
  shows "active fm p = int (users (on_path p) ts) \<and> (\<forall>t \<in> set ts. on_mutex (mutex_map fm) t) \<and>
    (users (on_path p) ts \<noteq> 0 \<longrightarrow> mutex_map (cleanup_unused fm) p = mutex_map fm p)"
proof -
  have inv: "lock_inv (fm, ts)" using file_locks.reachable_invariant [OF assms] .
  have "mutex_map (cleanup_unused fm) p = mutex_map fm p" if "users (on_path p) ts \<noteq> 0"
    using lock_invD(1) [OF inv, of p] that by (auto simp: cleanup_unused_def active_def split: option.splits)
  with lock_invD(1,2) [OF inv] show ?thesis by blast
qed

theorem lock_table_exact_witness:
  "\<exists>fm. lock_step\<^sup>*\<^sup>* (FileMutex_init, [Idle, Idle]) (fm, [Writing ''a'' 0, Waiting False ''a'' 0]) \<and>
     active fm ''a'' = 2"
proof -
  obtain fm where run: "lock_step\<^sup>*\<^sup>* (FileMutex_init, [Idle, Idle]) (fm, [Writing ''a'' 0, Waiting False ''a'' 0])"
    using demo_lock_run by blast
  have "lock_start (FileMutex_init, [Idle, Idle])" by (simp add: lock_start_def)
  from lock_table_exact [OF this run, of "''a''"] run show ?thesis by (auto simp: users_def)
qed

text \<open>What a thread that holds or waits for a lock does next.\<close>

fun served :: "thread \<Rightarrow> thread" where
  "served (Waiting exclusive p m) = (if exclusive then Writing p m else Reading p m)"
| "served _ = Idle"

lemma waiting_served:
  assumes inv: "lock_inv (fm, ts)" and i: "i < length ts" "ts ! i = Waiting b p m"
    and free: "\<forall>t \<in> set ts. \<forall>n. t \<noteq> Reading p n \<and> t \<noteq> Writing p n"
  shows "\<exists>fm'. lock_step (fm, ts) (fm', ts[i := served (ts ! i)])"
proof -
  obtain e where e: "mutex_map fm p = Some e" "mtx e = m" using lock_invD(2) [OF inv nth_mem [OF i(1)]] i(2) by auto
  have "q = p" if t: "t \<in> set ts" and q: "t = Reading q m \<or> t = Writing q m" for t q
  proof -
    obtain e' where "mutex_map fm q = Some e'" "mtx e' = m" using lock_invD(2) [OF inv t] q by auto
    then show ?thesis using lock_invD(4) [OF inv _ e(1)] e(2) by simp
  qed
  then have "users (reads m) ts = 0" "users (writes m) ts = 0"
    using free by (auto simp: users_zero elim!: reads.elims writes.elims)
  then have "readers (objects fm m) = 0" "\<not> writer (objects fm m)" using lock_invD(5,6) [OF inv, of m] by auto
  then obtain fm1 fm2 where "lock_shared m fm = Some fm1" "lock_exclusive m fm = Some fm2"
    by (simp add: lock_shared_def lock_exclusive_def)
  then show ?thesis using i by (cases b) (auto intro: got_shared got_exclusive)
qed

text \<open>
  C25. No deadlock on the locks: as long as some thread holds or waits for a lock, one of these threads can go
  on, by leaving its section or by getting the lock it waits for; and a thread that waits is only held up by
  threads inside a section of the same path: without one, it gets its lock.
\<close>

theorem lock_progress:
  assumes "lock_start s" and "lock_step\<^sup>*\<^sup>* s (fm, ts)" and "\<not> list_all (\<lambda>t. t = Idle) ts"
  shows "(\<exists>i fm'. i < length ts \<and> ts ! i \<noteq> Idle \<and> lock_step (fm, ts) (fm', ts[i := served (ts ! i)])) \<and>
    (\<forall>i b p m. i < length ts \<and> ts ! i = Waiting b p m \<and> (\<forall>t \<in> set ts. \<forall>n. t \<noteq> Reading p n \<and> t \<noteq> Writing p n) \<longrightarrow>
      (\<exists>fm'. lock_step (fm, ts) (fm', ts[i := served (ts ! i)])))"
proof -
  have inv: "lock_inv (fm, ts)" using file_locks.reachable_invariant [OF assms(1,2)] .
  obtain i where i: "i < length ts" "ts ! i \<noteq> Idle"
    using assms(3) by (auto simp: list_all_length)
  have "\<exists>i fm'. i < length ts \<and> ts ! i \<noteq> Idle \<and> lock_step (fm, ts) (fm', ts[i := served (ts ! i)])"
  proof (cases "\<exists>k < length ts. \<exists>p m. ts ! k = Reading p m \<or> ts ! k = Writing p m")
    case True
    then obtain k p m where k: "k < length ts" "ts ! k = Reading p m \<or> ts ! k = Writing p m" by blast
    then have "\<exists>fm'. lock_step (fm, ts) (fm', ts[k := Idle])" by (blast intro: finish_read finish_write)
    moreover have "served (ts ! k) = Idle" "ts ! k \<noteq> Idle" using k(2) by auto
    ultimately show ?thesis using k(1) by metis
  next
    case False
    then obtain b p m where w: "ts ! i = Waiting b p m" using i by (cases "ts ! i") auto
    have "\<forall>t \<in> set ts. \<forall>n. t \<noteq> Reading p n \<and> t \<noteq> Writing p n" using False by (auto simp: in_set_conv_nth)
    from waiting_served [OF inv i(1) w this] i show ?thesis by blast
  qed
  with waiting_served [OF inv] show ?thesis by blast
qed

text \<open>One thread writes and one waits to read: a reachable state, from which the writer can leave and the reader cannot enter.\<close>

theorem lock_progress_witness:
  "\<exists>fm. lock_step\<^sup>*\<^sup>* (FileMutex_init, [Idle, Idle]) (fm, [Writing ''a'' 0, Waiting False ''a'' 0]) \<and>
     (\<exists>fm'. lock_step (fm, [Writing ''a'' 0, Waiting False ''a'' 0]) (fm', [Idle, Waiting False ''a'' 0])) \<and>
     (\<nexists>fm'. lock_step (fm, [Writing ''a'' 0, Waiting False ''a'' 0]) (fm', [Writing ''a'' 0, Reading ''a'' 0]))"
proof -
  let ?ts = "[Writing ''a'' 0, Waiting False ''a'' 0]"
  obtain fm where run: "lock_step\<^sup>*\<^sup>* (FileMutex_init, [Idle, Idle]) (fm, ?ts)"
    using demo_lock_run by blast
  have start: "lock_start (FileMutex_init, [Idle, Idle])" by (simp add: lock_start_def)
  have no: "\<not> lock_step (fm, ?ts) (fm', [Writing ''a'' 0, Reading ''a'' 0])" for fm'
  proof
    assume "lock_step (fm, ?ts) (fm', [Writing ''a'' 0, Reading ''a'' 0])"
    then have "lock_inv (fm', [Writing ''a'' 0, Reading ''a'' 0])"
      using file_locks.reachable_invariant [OF start] run by (meson rtranclp.rtrancl_into_rtrancl)
    note inv = lock_invD(5-7) [OF this, of 0]
    have "readers (objects fm' 0) = 1" using inv(1) by (simp add: users_def)
    moreover have "(of_bool (writer (objects fm' 0)) :: nat) = 1" using inv(2) by (simp add: users_def)
    ultimately show False using inv(3) by (cases "writer (objects fm' 0)") simp_all
  qed
  have "\<not> list_all (\<lambda>t. t = Idle) ?ts" by simp
  from lock_progress [OF start run this, THEN conjunct1]
  obtain i fm' where i: "i < length ?ts" "lock_step (fm, ?ts) (fm', ?ts[i := served (?ts ! i)])" by blast
  then have "i = 0 \<or> i = 1" by (simp add: less_Suc_eq)
  with i(2) no have "lock_step (fm, ?ts) (fm', [Idle, Waiting False ''a'' 0])" by auto
  with run no show ?thesis by blast
qed

end
