(* ===== verification/Delta_Sync.thy ===== *)
theory Delta_Sync
  imports File_Manager File_Mutex Messages
begin

text \<open>
  The delta synchronisation handler (\<^verbatim>\<open>delta_sync_handler.h\<close>, \<^verbatim>\<open>delta_sync_handler.cpp\<close>): the handler
  compares the block signatures of a client with the file it stores and names the blocks it wants
  (\<^const>\<open>acquire_read\<close> held meanwhile), then takes the blocks one at a time, checks each digest, stages
  the block under the exclusive lock of the file and renames the staging file when the session says
  that the block was the final one.  A handler is a record with the map \<^verbatim>\<open>in_progress_\<close>; the storage
  and the lock table, which all sessions share, are passed in and out.  An exception leaves the
  lock table as it was when it was thrown, because the handler releases its locks by hand.

  The lemmas show which blocks are requested, that a whole file arrives intact, and in which cases the
  final rename does not happen or publishes something else than the client's file.
\<close>

section \<open>State\<close>

record DeltaBlockSignature =
  sig_block_index :: u32
  sig_rolling_hash :: u32
  sig_strong_hash :: string
  sig_block_offset :: u64
  sig_block_size :: u32

record DeltaBlockRequest =
  req_relative_path :: string
  requested_indices :: "u32 list"

record DeltaSyncHandler =
  ds_storage_root :: string
  ds_block_size :: u32
  in_progress :: "string \<Rightarrow> (u32 \<Rightarrow> bool option) option"

definition DeltaSyncHandler_init :: "string \<Rightarrow> u32 \<Rightarrow> DeltaSyncHandler" where
  "DeltaSyncHandler_init storage_root block_size =
     \<lparr>ds_storage_root = storage_root, ds_block_size = block_size, in_progress = (\<lambda>_. None)\<rparr>"

section \<open>Signature requests\<close>

text \<open>
  \<^verbatim>\<open>static_cast<uint32_t>((size + block_size - 1) / block_size)\<close>, in 64-bit arithmetic; a zero block
  size is a division by zero.
\<close>

definition blocks_for :: "u64 \<Rightarrow> u32 \<Rightarrow> u32 result" where
  "blocks_for file_sz block_size =
     (if block_size = 0 then Inl Division_by_zero
      else Inr (ucast ((file_sz + ucast block_size - 1) div ucast block_size)))"

definition index_range :: "u32 \<Rightarrow> u32 \<Rightarrow> u32 list" where
  "index_range a b = map word_of_nat [unat a..<unat b]"

text \<open>\<^verbatim>\<open>client_map[sig.block_index] = &sig\<close> for every signature in turn: the last one counts.\<close>

definition client_map :: "DeltaBlockSignature list \<Rightarrow> u32 \<Rightarrow> DeltaBlockSignature option" where
  "client_map sigs i = find (\<lambda>sig. sig_block_index sig = i) (rev sigs)"

definition block_needed ::
    "DeltaSyncHandler \<Rightarrow> nat \<Rightarrow> storage \<Rightarrow> string \<Rightarrow> u64 \<Rightarrow> u32 \<Rightarrow> DeltaBlockSignature list \<Rightarrow> u32 \<Rightarrow> bool result" where
  "block_needed h grant fs relative_path server_size block_size sigs i =
     (let block_offset = ucast i * ucast block_size :: u64;
          actual_size = ucast (min (ucast block_size) (server_size - block_offset)) in
      bind_result (read_block (ds_storage_root h) grant fs relative_path block_offset actual_size) (\<lambda>block_data.
      if block_data = [] then Inr True
      else case client_map sigs i of
        None \<Rightarrow> Inr True
      | Some client_sig \<Rightarrow>
          Inr (sig_rolling_hash client_sig \<noteq> adler32 block_data \<or>
               sig_strong_hash client_sig \<noteq> sha256_hex block_data)))"

fun needed_blocks ::
    "DeltaSyncHandler \<Rightarrow> nat \<Rightarrow> storage \<Rightarrow> string \<Rightarrow> u64 \<Rightarrow> u32 \<Rightarrow> DeltaBlockSignature list \<Rightarrow> u32 list
      \<Rightarrow> u32 list result" where
  "needed_blocks h grant fs relative_path server_size block_size sigs [] = Inr []"
| "needed_blocks h grant fs relative_path server_size block_size sigs (i # rest_is) =
     bind_result (block_needed h grant fs relative_path server_size block_size sigs i) (\<lambda>needed.
     bind_result (needed_blocks h grant fs relative_path server_size block_size sigs rest_is) (\<lambda>rest.
     Inr (if needed then i # rest else rest)))"

definition handle_signature_request ::
    "DeltaSyncHandler \<Rightarrow> nat \<Rightarrow> storage \<Rightarrow> FileMutex \<Rightarrow> string \<Rightarrow> u64 \<Rightarrow> u32 \<Rightarrow> DeltaBlockSignature list
      \<Rightarrow> DeltaBlockRequest result \<times> FileMutex" where
  "handle_signature_request h grant fs locks relative_path client_file_size block_size client_signatures =
     (let request = (\<lambda>indices. \<lparr>req_relative_path = relative_path, requested_indices = indices\<rparr>) in
      case file_exists (ds_storage_root h) fs relative_path of Inl e \<Rightarrow> (Inl e, locks) | Inr there \<Rightarrow>
      if \<not> there
      then (bind_result (blocks_for client_file_size block_size) (\<lambda>total_blocks.
              Inr (request (index_range 0 total_blocks))), locks)
      else
      case get_file_size (ds_storage_root h) fs relative_path of Inl e \<Rightarrow> (Inl e, locks) | Inr server_size \<Rightarrow>
      case blocks_for server_size block_size of Inl e \<Rightarrow> (Inl e, locks) | Inr server_blocks \<Rightarrow>
      case acquire_read relative_path locks of (Inl e, locks1) \<Rightarrow> (Inl e, locks1) | (Inr _, locks1) \<Rightarrow>
      case needed_blocks h grant fs relative_path server_size block_size client_signatures
             (index_range 0 server_blocks) of
        Inl e \<Rightarrow> (Inl e, locks1)
      | Inr needed \<Rightarrow>
          (bind_result (blocks_for client_file_size block_size) (\<lambda>client_blocks.
             Inr (request (needed @ index_range server_blocks client_blocks))),
           release_read relative_path locks1))"

section \<open>Block data\<close>

text \<open>The tail of \<^verbatim>\<open>handle_block_data\<close> for the final block: check that the staging file opens, rename it.\<close>

definition finalize_file ::
    "DeltaSyncHandler \<Rightarrow> storage \<Rightarrow> string \<Rightarrow> int result \<times> storage \<times> DeltaSyncHandler" where
  "finalize_file h fs relative_path =
     (let erased = h\<lparr>in_progress := (in_progress h)(relative_path := None)\<rparr> in
      case tmp_path_for (ds_storage_root h) relative_path of Inl e \<Rightarrow> (Inl e, fs, h) | Inr tmp_path \<Rightarrow>
      case open_in fs tmp_path of
        None \<Rightarrow> (Inr STATUS_OK, fs, erased)
      | Some n \<Rightarrow>
          (case drain_stream n of Inl e \<Rightarrow> (Inl e, fs, h) | Inr full_data \<Rightarrow>
           case atomic_rename_tmp (ds_storage_root h) fs relative_path of Inl e \<Rightarrow> (Inl e, fs, h) | Inr (renamed, fs1) \<Rightarrow>
           if renamed then (Inr STATUS_OK, fs1, erased) else (Inr STATUS_ERROR, fs1, h)))"

definition handle_block_data ::
    "DeltaSyncHandler \<Rightarrow> storage \<Rightarrow> FileMutex \<Rightarrow> string \<Rightarrow> u32 \<Rightarrow> u64 \<Rightarrow> byte list \<Rightarrow> string \<Rightarrow> bool
      \<Rightarrow> int result \<times> storage \<times> FileMutex \<times> DeltaSyncHandler" where
  "handle_block_data h fs locks relative_path block_index block_offset data strong_hash is_final_block =
     (if sha256_hex data \<noteq> strong_hash then (Inr CHECKSUM_MISMATCH, fs, locks, h)
      else
      case acquire_write relative_path locks of (Inl e, locks1) \<Rightarrow> (Inl e, fs, locks1, h) | (Inr _, locks1) \<Rightarrow>
      case write_block_atomic (ds_storage_root h) fs relative_path block_offset data of
        Inl e \<Rightarrow> (Inl e, fs, locks1, h)
      | Inr (ok, fs1) \<Rightarrow>
          let locks2 = release_write relative_path locks1 in
          if \<not> ok then (Inr STATUS_ERROR, fs1, locks2, h)
          else
            let received = (case in_progress h relative_path of None \<Rightarrow> (\<lambda>_. None) | Some m \<Rightarrow> m);
                h1 = h\<lparr>in_progress := (in_progress h)(relative_path \<mapsto> received(block_index \<mapsto> True))\<rparr> in
            if is_final_block
            then let (status, fs2, h2) = finalize_file h1 fs1 relative_path in (status, fs2, locks2, h2)
            else (Inr STATUS_OK, fs1, locks2, h1))"

section \<open>Block arithmetic\<close>

lemma unat_ucast_u64: "unat (ucast (w :: u32) :: u64) = unat w"
proof -
  have "unat w < 2 ^ 32" using unsigned_less [of w, where ?'a = nat] by simp
  then have "unat w < 2 ^ 64" by (rule order.strict_trans) simp
  then show ?thesis by (simp add: unsigned_ucast_eq take_bit_nat_eq_self)
qed

lemma blocks_for_count:
  assumes "0 < unat bs" and "n + unat bs < 2 ^ 64" and "block_count (unat bs) n < 2 ^ 32"
  shows "\<exists>w. blocks_for (word_of_nat n) bs = Inr w \<and> unat w = block_count (unat bs) n"
proof -
  let ?b = "ucast bs :: u64"
  have b: "unat ?b = unat bs" by (rule unat_ucast_u64)
  have "word_of_nat n + ?b - 1 = (word_of_nat (n + unat bs - 1) :: u64)"
    using assms(1) by (simp add: of_nat_diff)
  moreover have "unat (word_of_nat (n + unat bs - 1) :: u64) = n + unat bs - 1"
    using assms(2) by (simp add: unat_of_nat)
  ultimately have "unat ((word_of_nat n + ?b - 1) div ?b) = block_count (unat bs) n"
    using b by (simp add: unat_div block_count_def)
  moreover from this have "unat (ucast ((word_of_nat n + ?b - 1) div ?b) :: u32) = block_count (unat bs) n"
    using assms(3) by (simp add: unsigned_ucast_eq take_bit_nat_eq_self)
  moreover have "bs \<noteq> 0" using assms(1) by auto
  ultimately show ?thesis by (simp add: blocks_for_def)
qed

lemma set_index_range: "set (index_range 0 b) = {w. unat w < unat b}"
proof -
  have "w \<in> word_of_nat ` {0..<unat b}" if "unat w < unat b" for w :: u32
    using that by (intro image_eqI [of _ _ "unat w"]) simp_all
  moreover have "unat (word_of_nat n :: u32) < unat b" if "n < unat b" for n
    using that unsigned_less [of b, where ?'a = nat] by (simp add: unat_of_nat)
  ultimately show ?thesis by (auto simp: index_range_def)
qed

section \<open>What is requested\<close>

text \<open>The blocks of a byte string, and the signatures a client computes for them.\<close>

definition block_at :: "nat \<Rightarrow> byte list \<Rightarrow> nat \<Rightarrow> byte list" where
  "block_at bs content i = take bs (drop (i * bs) content)"

definition signatures_of :: "u32 \<Rightarrow> byte list \<Rightarrow> DeltaBlockSignature list" where
  "signatures_of bs content =
     map (\<lambda>i. let d = block_at (unat bs) content i in
       \<lparr>sig_block_index = word_of_nat i, sig_rolling_hash = adler32 d, sig_strong_hash = sha256_hex d,
        sig_block_offset = word_of_nat (i * unat bs), sig_block_size = word_of_nat (length d)\<rparr>)
       [0..<block_count (unat bs) (length content)]"

definition block_differs :: "nat \<Rightarrow> byte list \<Rightarrow> DeltaBlockSignature list \<Rightarrow> u32 \<Rightarrow> bool" where
  "block_differs bs content sigs i =
     (case client_map sigs i of
        None \<Rightarrow> True
      | Some sig \<Rightarrow> sig_rolling_hash sig \<noteq> adler32 (block_at bs content (unat i)) \<or>
                    sig_strong_hash sig \<noteq> sha256_hex (block_at bs content (unat i)))"

lemma block_needed_differs:
  assumes p: "plain_path p" "CHR 0x00 \<notin> set (ds_storage_root h)"
    and f: "file_at fs (target_key (ds_storage_root h) fs p) = Some c" "no_read fs = []"
    and bs: "0 < unat bs" "unat bs \<le> grant" and small: "length c < 2 ^ 63"
    and i: "unat i < block_count (unat bs) (length c)"
  shows "block_needed h grant fs p (word_of_nat (length c)) bs sigs i = Inr (block_differs (unat bs) c sigs i)"
proof -
  have off: "unat i * unat bs < length c" using block_count_bounds [OF bs(1)] i by simp
  let ?off = "ucast i * ucast bs :: u64"
  have u: "unat ?off = unat i * unat bs"
    using off small by (simp add: unat_word_ariths unat_ucast_u64)
  have n: "unat (word_of_nat (length c) :: u64) = length c" using small by (simp add: unat_of_nat)
  let ?left = "word_of_nat (length c) - ?off"
  have left: "unat ?left = length c - unat i * unat bs"
    using off u n by (simp add: unat_sub word_le_nat_alt)
  have "unat (min (ucast bs) ?left :: u64) = min (unat bs) (length c - unat i * unat bs)"
    using left by (simp add: min_def word_le_nat_alt unat_ucast_u64)
  moreover have "unat bs < 2 ^ 32" using unsigned_less [of bs, where ?'a = nat] by simp
  ultimately have sz: "unat (ucast (min (ucast bs) ?left :: u64) :: u32) = min (unat bs) (length c - unat i * unat bs)"
    by (simp add: unsigned_ucast_eq take_bit_nat_eq_self)
  let ?sz = "ucast (min (ucast bs) ?left :: u64) :: u32"
  have fits: "min (unat bs) (length c - unat i * unat bs) \<le> grant" using bs(2) by simp
  have whole: "take (min (unat bs) (length c - unat i * unat bs)) (drop (unat i * unat bs) c)
      = take (unat bs) (drop (unat i * unat bs) c)"
    by (simp add: min_def)
  have "read_block (ds_storage_root h) grant fs p ?off ?sz = Inr (block_at (unat bs) c (unat i))"
    using read_block_spec [OF p, of fs ?sz grant ?off] f fits whole u sz off small
    by (simp add: content_or_empty_def block_at_def)
  moreover have "block_at (unat bs) c (unat i) \<noteq> []" using off bs(1) by (simp add: block_at_def)
  ultimately show ?thesis
    by (simp add: block_needed_def Let_def block_differs_def split: option.split)
qed

lemma needed_blocks_filter:
  assumes "\<And>i. i \<in> set ids \<Longrightarrow> block_needed h grant fs p n bs sigs i = Inr (P i)"
  shows "needed_blocks h grant fs p n bs sigs ids = Inr (filter P ids)"
  using assms by (induction ids) simp_all

lemma signature_request_spec:
  assumes p: "plain_path p" "CHR 0x00 \<notin> set (ds_storage_root h)"
    and f: "file_at fs (target_key (ds_storage_root h) fs p) = Some c" "no_read fs = []"
    and bs: "0 < unat bs" "unat bs \<le> grant" and small: "length c < 2 ^ 63" "n < 2 ^ 63"
    and count: "block_count (unat bs) (length c) < 2 ^ 32" "block_count (unat bs) n < 2 ^ 32"
    and locks: "quiet locks"
  obtains sb cb locks' where
    "handle_signature_request h grant fs locks p (word_of_nat n) bs sigs =
       (Inr \<lparr>req_relative_path = p,
             requested_indices = filter (block_differs (unat bs) c sigs) (index_range 0 sb) @ index_range sb cb\<rparr>,
        locks')"
    and "unat sb = block_count (unat bs) (length c)" and "unat cb = block_count (unat bs) n" and "quiet locks'"
proof -
  have lt: "unat bs < 2 ^ 32" using unsigned_less [of bs, where ?'a = nat] by simp
  obtain sb where sb: "blocks_for (word_of_nat (length c)) bs = Inr sb" "unat sb = block_count (unat bs) (length c)"
    using blocks_for_count [OF bs(1), of "length c"] small(1) lt count(1) by auto
  obtain cb where cb: "blocks_for (word_of_nat n) bs = Inr cb" "unat cb = block_count (unat bs) n"
    using blocks_for_count [OF bs(1), of n] small(2) lt count(2) by auto
  obtain t where node: "os_node fs (path_append (ds_storage_root h) p) = Some (File c t)"
    using f(1) os_node_target [OF p] by (auto simp: file_at_def split: option.splits node.splits)
  have "needed_blocks h grant fs p (word_of_nat (length c)) bs sigs (index_range 0 sb)
      = Inr (filter (block_differs (unat bs) c sigs) (index_range 0 sb))"
    using block_needed_differs [OF p f bs small(1)] sb(2) by (intro needed_blocks_filter) (simp add: set_index_range)
  moreover obtain l1 where "acquire_read p locks = (Inr (), l1)" "quiet (release_read p l1)"
    using read_lock.section_returns [OF locks] by blast
  moreover have "file_exists (ds_storage_root h) fs p = Inr True"
    "get_file_size (ds_storage_root h) fs p = Inr (word_of_nat (length c))"
    using node by (simp_all add: file_exists_def get_file_size_def resolve_plain [OF p(1)] fs_exists_def fs_file_size_def)
  ultimately show ?thesis
    using that [of sb cb "release_read p l1"] sb cb by (simp add: handle_signature_request_def)
qed

lemma sha256_hex_inject: "sha256_hex c = sha256_hex d \<longleftrightarrow> fips_sha256 c = fips_sha256 d"
  by (simp add: sha256_hex_eq sha256_raw_eq to_hex_inject)

lemma client_map_signatures:
  assumes "block_count (unat bs) (length d) \<le> 2 ^ 32"
  shows "client_map (signatures_of bs d) i =
    (if unat i < block_count (unat bs) (length d)
     then Some \<lparr>sig_block_index = i, sig_rolling_hash = adler32 (block_at (unat bs) d (unat i)),
       sig_strong_hash = sha256_hex (block_at (unat bs) d (unat i)),
       sig_block_offset = word_of_nat (unat i * unat bs),
       sig_block_size = word_of_nat (length (block_at (unat bs) d (unat i)))\<rparr>
     else None)"
proof -
  have "find (\<lambda>s. sig_block_index s = i) (rev (map f [0..<n])) = (if unat i < n then Some (f (unat i)) else None)"
    if "\<And>k. sig_block_index (f k) = word_of_nat k" "n \<le> 2 ^ 32" for f n
    using that(2)
  proof (induction n)
    case (Suc n)
    then have "unat (word_of_nat n :: u32) = n" by (simp add: unat_of_nat)
    then have "word_of_nat n = i \<longleftrightarrow> unat i = n" by auto
    with Suc that(1) show ?case by (auto simp: less_Suc_eq)
  qed simp
  from this [of "\<lambda>i. let d = block_at (unat bs) d i in
       \<lparr>sig_block_index = word_of_nat i, sig_rolling_hash = adler32 d, sig_strong_hash = sha256_hex d,
        sig_block_offset = word_of_nat (i * unat bs), sig_block_size = word_of_nat (length d)\<rparr>"] assms
  show ?thesis unfolding client_map_def signatures_of_def by (simp add: Let_def)
qed

lemma set_index_range_from: "set (index_range a b) = {w. unat a \<le> unat w \<and> unat w < unat b}"
proof -
  have "w \<in> word_of_nat ` {unat a..<unat b}" if "unat a \<le> unat w" "unat w < unat b" for w :: u32
    using that by (intro image_eqI [of _ _ "unat w"]) simp_all
  moreover have "unat (word_of_nat n :: u32) = n" if "n < unat b" for n
    using that unsigned_less [of b, where ?'a = nat] by (simp add: unat_of_nat)
  ultimately show ?thesis by (auto simp: index_range_def)
qed

text \<open>What a call keeps of the shared state, and that it leaves no lock behind when it returns.\<close>

lemma handle_signature_request_quiet:
  assumes "quiet locks" and "handle_signature_request h grant fs locks p n bs sigs = (Inr req, locks')"
  shows "quiet locks'"
proof -
  obtain l1 where "acquire_read p locks = (Inr (), l1)" "quiet (release_read p l1)"
    using read_lock.section_returns [OF assms(1)] by blast
  with assms show ?thesis
    by (auto simp: handle_signature_request_def Let_def split: sum.splits if_splits)
qed

lemma finalize_file_keeps:
  assumes "finalize_file h fs p = (r, fs', h')"
  shows "(\<forall>m. sound_storage m fs \<longrightarrow> sound_storage m fs') \<and> ds_storage_root h' = ds_storage_root h \<and>
    ds_block_size h' = ds_block_size h"
  using assms sound_rename
  by (fastforce simp: finalize_file_def Let_def split: sum.splits option.splits if_splits)

lemma handle_block_data_keeps:
  assumes "handle_block_data h fs locks p i off data sh fin = (r, fs', locks', h')" and "quiet locks"
  shows "\<forall>m. sound_storage m fs \<longrightarrow> sound_storage m fs'"
    and "ds_storage_root h' = ds_storage_root h" and "ds_block_size h' = ds_block_size h"
    and "r = Inr st \<Longrightarrow> quiet locks'"
proof -
  obtain l1 where l1: "acquire_write p locks = (Inr (), l1)" "quiet (release_write p l1)"
    using write_lock.section_returns [OF assms(2)] by blast
  have "(\<forall>m. sound_storage m fs \<longrightarrow> sound_storage m fs') \<and> ds_storage_root h' = ds_storage_root h \<and>
      ds_block_size h' = ds_block_size h \<and> (r = Inr st \<longrightarrow> quiet locks')"
    using assms l1 sound_write_block [of _ fs] finalize_file_keeps
    by (fastforce simp: handle_block_data_def Let_def split: sum.splits if_splits prod.splits)
  then show "\<forall>m. sound_storage m fs \<longrightarrow> sound_storage m fs'" "ds_storage_root h' = ds_storage_root h"
    "ds_block_size h' = ds_block_size h" "r = Inr st \<Longrightarrow> quiet locks'"
    by simp_all
qed

text \<open>
  C12. Block comparison: for a file the server has and the signatures of a client's file, the call
  returns, leaves no lock behind, and requests a block exactly when it lies within one of the two
  files and either lies outside the other or the two blocks have different checksums.  So a block
  that is equal on both sides is never requested, and one that is not requested has the same
  SHA-256 digest on both sides.
\<close>

theorem delta_request_exact:
  assumes p: "plain_path p" "CHR 0x00 \<notin> set (ds_storage_root h)"
    and f: "file_at fs (target_key (ds_storage_root h) fs p) = Some c" "no_read fs = []"
    and bs: "0 < unat bs" "unat bs \<le> grant" and small: "length c < 2 ^ 63" "length d < 2 ^ 63"
    and count: "block_count (unat bs) (length c) < 2 ^ 32" "block_count (unat bs) (length d) < 2 ^ 32"
    and locks: "quiet locks"
  shows "\<exists>req locks'. handle_signature_request h grant fs locks p (word_of_nat (length d)) bs (signatures_of bs d)
      = (Inr req, locks') \<and> quiet locks' \<and>
    (\<forall>i. i \<in> set (requested_indices req) \<longleftrightarrow>
       unat i < max (block_count (unat bs) (length c)) (block_count (unat bs) (length d)) \<and>
       (unat i < min (block_count (unat bs) (length c)) (block_count (unat bs) (length d)) \<longrightarrow>
         adler32 (block_at (unat bs) c (unat i)) \<noteq> adler32 (block_at (unat bs) d (unat i)) \<or>
         fips_sha256 (block_at (unat bs) c (unat i)) \<noteq> fips_sha256 (block_at (unat bs) d (unat i))))"
proof -
  let ?bc = "block_count (unat bs) (length c)" and ?bd = "block_count (unat bs) (length d)"
  obtain sb cb locks' where
    req: "handle_signature_request h grant fs locks p (word_of_nat (length d)) bs (signatures_of bs d) =
       (Inr \<lparr>req_relative_path = p, requested_indices =
          filter (block_differs (unat bs) c (signatures_of bs d)) (index_range 0 sb) @ index_range sb cb\<rparr>, locks')"
    and n: "unat sb = ?bc" "unat cb = ?bd" and q: "quiet locks'"
    by (rule signature_request_spec [OF p f bs small count locks])
  let ?ids = "filter (block_differs (unat bs) c (signatures_of bs d)) (index_range 0 sb) @ index_range sb cb"
  have differs: "block_differs (unat bs) c (signatures_of bs d) i \<longleftrightarrow>
      (unat i < ?bd \<longrightarrow> adler32 (block_at (unat bs) c (unat i)) \<noteq> adler32 (block_at (unat bs) d (unat i)) \<or>
        fips_sha256 (block_at (unat bs) c (unat i)) \<noteq> fips_sha256 (block_at (unat bs) d (unat i)))" for i
    using client_map_signatures [of bs d i] count(2) by (auto simp: block_differs_def sha256_hex_inject)
  have "i \<in> set ?ids \<longleftrightarrow> unat i < max ?bc ?bd \<and> (unat i < min ?bc ?bd \<longrightarrow>
      adler32 (block_at (unat bs) c (unat i)) \<noteq> adler32 (block_at (unat bs) d (unat i)) \<or>
      fips_sha256 (block_at (unat bs) c (unat i)) \<noteq> fips_sha256 (block_at (unat bs) d (unat i)))" for i
    unfolding set_append set_filter set_index_range set_index_range_from n differs by auto
  then show ?thesis
    unfolding req by (intro exI [of _ "\<lparr>req_relative_path = p, requested_indices = ?ids\<rparr>"] exI [of _ locks'])
      (simp only: DeltaBlockRequest.simps q simp_thms HOL.simp_thms)
qed

text \<open>
  Boundary cases: for a file the server does not have, every block of the client's file is requested, in
  order; a block size of zero ends the worker with a division by zero, whether the server has the file or not.
\<close>

lemma missing_file_request:
  assumes p: "plain_path p" "CHR 0x00 \<notin> set (ds_storage_root h)"
    and node: "node_at fs (target_key (ds_storage_root h) fs p) = None"
    and count: "0 < unat bs" "n < 2 ^ 63" "block_count (unat bs) n < 2 ^ 32"
  shows "handle_signature_request h grant fs locks p (word_of_nat n) bs sigs =
    (Inr \<lparr>req_relative_path = p, requested_indices = map word_of_nat [0..<block_count (unat bs) n]\<rparr>, locks)"
proof -
  have lt: "unat bs < 2 ^ 32" using unsigned_less [of bs, where ?'a = nat] by simp
  obtain w where "blocks_for (word_of_nat n) bs = Inr w" "unat w = block_count (unat bs) n"
    using blocks_for_count [OF count(1), of n] count(2,3) lt by auto
  then show ?thesis
    using node
    by (simp add: handle_signature_request_def file_exists_def get_file_size_def resolve_plain [OF p(1)] fs_exists_def
        fs_file_size_def os_node_target [OF p] index_range_def)
qed

lemma zero_block_request:
  assumes p: "plain_path p" "CHR 0x00 \<notin> set (ds_storage_root h)"
    and node: "node_at fs (target_key (ds_storage_root h) fs p) \<noteq> Some Dir"
  shows "handle_signature_request h grant fs locks p n 0 sigs = (Inl Division_by_zero, locks)"
  using node
  by (auto simp: handle_signature_request_def file_exists_def get_file_size_def resolve_plain [OF p(1)] fs_exists_def
      fs_file_size_def os_node_target [OF p] blocks_for_def split: option.splits node.splits)

section \<open>Receiving blocks\<close>

text \<open>
  The calls a session makes for the block messages of one file, one after the other, as long as they
  are answered with OK: a block shorter than the negotiated block size is taken for the final one.
\<close>

fun receive_blocks ::
    "nat \<Rightarrow> string \<Rightarrow> (u32 \<times> u64 \<times> byte list) list \<Rightarrow> DeltaSyncHandler \<Rightarrow> storage \<Rightarrow> FileMutex
      \<Rightarrow> int result \<times> storage \<times> FileMutex \<times> DeltaSyncHandler" where
  "receive_blocks bs p [] h fs locks = (Inr STATUS_OK, fs, locks, h)"
| "receive_blocks bs p ((i, off, data) # blocks) h fs locks =
     (case handle_block_data h fs locks p i off data (sha256_hex data) (length data < bs) of
        (Inr status, fs', locks', h') \<Rightarrow>
          if status = STATUS_OK then receive_blocks bs p blocks h' fs' locks' else (Inr status, fs', locks', h')
      | r \<Rightarrow> r)"

lemma handle_block_data_staged:
  assumes "quiet locks" and "write_block_atomic (ds_storage_root h) fs p off data = Inr (True, fs1)"
  obtains locks' h' where "quiet locks'" "ds_storage_root h' = ds_storage_root h"
    "handle_block_data h fs locks p i off data (sha256_hex data) fin =
       (if fin then (let (status, fs2, h2) = finalize_file h' fs1 p in (status, fs2, locks', h2))
        else (Inr STATUS_OK, fs1, locks', h'))"
proof -
  obtain l1 where "acquire_write p locks = (Inr (), l1)" "quiet (release_write p l1)"
    using write_lock.section_returns [OF assms(1)] by blast
  moreover define h1 where "h1 = h\<lparr>in_progress := (in_progress h)(p \<mapsto>
      (case in_progress h p of None \<Rightarrow> (\<lambda>_. None) | Some m \<Rightarrow> m)(i \<mapsto> True))\<rparr>"
  ultimately show ?thesis
    using assms(2) by (intro that [of "release_write p l1" h1]) (simp_all add: handle_block_data_def Let_def)
qed

text \<open>Full blocks are only staged.\<close>

lemma receive_full_blocks:
  assumes "quiet locks" and "\<forall>(i, off, data) \<in> set blocks. bs \<le> length data"
    and "stage_all (\<lambda>fs (off, data). write_block_atomic (ds_storage_root h) fs p off data) fs (map snd blocks) = Inr (True, fs1)"
  shows "\<exists>locks' h'. receive_blocks bs p blocks h fs locks = (Inr STATUS_OK, fs1, locks', h') \<and>
    quiet locks' \<and> ds_storage_root h' = ds_storage_root h"
  using assms
proof (induction blocks arbitrary: h fs locks)
  case (Cons b blocks)
  obtain i off data where b: "b = (i, off, data)" by (cases b)
  from Cons.prems(3) b obtain fs' where w: "write_block_atomic (ds_storage_root h) fs p off data = Inr (True, fs')"
    and rest: "stage_all (\<lambda>fs (off, data). write_block_atomic (ds_storage_root h) fs p off data) fs' (map snd blocks) = Inr (True, fs1)"
    by (auto simp: bind_result_Inr_iff split: if_splits)
  obtain l1 h1 where "quiet l1" "ds_storage_root h1 = ds_storage_root h"
    "handle_block_data h fs locks p i off data (sha256_hex data) (length data < bs) = (Inr STATUS_OK, fs', l1, h1)"
    using handle_block_data_staged [OF Cons.prems(1) w, of i "length data < bs"] Cons.prems(2) b by (auto simp: not_less)
  with Cons.IH [of l1 h1 fs'] Cons.prems(2) rest b show ?case by auto
qed simp

text \<open>The final block: on a healthy storage what is staged becomes the file.\<close>

lemma finalize_file_ok:
  assumes p: "plain_path p" "CHR 0x00 \<notin> set (ds_storage_root h)"
    and fs: "healthy fs" "storage_wf fs" "writable_place (ds_storage_root h) fs p"
    and staged: "file_at fs (temp_key (ds_storage_root h) fs p) = Some c"
  shows "\<exists>fs' h'. finalize_file h fs p = (Inr STATUS_OK, fs', h') \<and> storage_wf fs' \<and>
    (\<forall>k. file_at fs' k = (if k = target_key (ds_storage_root h) fs p then Some c
       else if k = temp_key (ds_storage_root h) fs p then None else file_at fs k)) \<and> in_progress h' p = None"
proof -
  let ?r = "ds_storage_root h"
  obtain fs' where mv: "atomic_rename_tmp ?r fs p = Inr (True, fs')"
    using atomic_rename_tmp_ok [OF p fs staged] by blast
  have tmp: "tmp_path_for ?r p = Inr (path_append ?r p @ ''.tmp'')"
    by (simp add: tmp_path_for_def resolve_plain [OF p(1)])
  have "os_key (cwd fs) (path_append ?r p @ ''.tmp'') = temp_key ?r fs p"
    by (simp add: temp_key_def lexically_normal_plain [OF p(1)])
  then obtain t where "open_in fs (path_append ?r p @ ''.tmp'') = Some (File c t)"
    using staged fs(1) staging_tmp_path [OF p]
    by (auto simp: open_in_def os_node_def file_at_def healthy_def split: option.splits node.splits)
  moreover have "temp_key ?r fs p \<noteq> target_key ?r fs p"
    using temp_key_not_target [OF p(2)] p(1) by (simp add: plain_path_def)
  ultimately show ?thesis
    using tmp mv atomic_rename_tmp_effect(2,4) [OF mv fs(2)] staged
    by (simp add: finalize_file_def)
qed

lemma receive_final_block:
  assumes p: "plain_path p" "CHR 0x00 \<notin> set (ds_storage_root h)"
    and fs: "healthy fs" "storage_wf fs" "writable_place (ds_storage_root h) fs p"
    and fits: "0 \<le> sint off" "nat (sint off) + length data \<le> max_file fs"
    and q: "quiet locks" and final: "length data < bs"
  shows "\<exists>fs' locks' h'. receive_blocks bs p [(i, off, data)] h fs locks = (Inr STATUS_OK, fs', locks', h') \<and> quiet locks' \<and>
    (\<forall>k. file_at fs' k = (if k = target_key (ds_storage_root h) fs p
         then Some (overwrite (content_or_empty (file_at fs (temp_key (ds_storage_root h) fs p))) (nat (sint off)) data)
       else if k = temp_key (ds_storage_root h) fs p then None else file_at fs k))"
proof -
  let ?r = "ds_storage_root h"
  obtain fs1 where w: "write_block_atomic ?r fs p off data = Inr (True, fs1)"
    using write_block_atomic_ok [OF p fs fits] by blast
  note e = write_block_atomic_effect [OF w]
  have keys: "temp_key ?r fs1 p = temp_key ?r fs p" "target_key ?r fs1 p = target_key ?r fs p"
    and wf1: "storage_wf fs1"
    using e(1) fs(2) by (simp_all add: touches_def temp_key_def target_key_def)
  have st: "file_at fs1 (temp_key ?r fs1 p) =
      Some (overwrite (content_or_empty (file_at fs (temp_key ?r fs p))) (nat (sint off)) data)"
    using e(2) keys by simp
  have place: "healthy fs1" "writable_place ?r fs1 p"
    using staging_keeps_place [OF p fs(1,3) e(1)] st keys by simp_all
  obtain l1 h1 where h1: "quiet l1" "ds_storage_root h1 = ?r"
    "handle_block_data h fs locks p i off data (sha256_hex data) True =
       (let (status, fs2, h2) = finalize_file h1 fs1 p in (status, fs2, l1, h2))"
    by (rule handle_block_data_staged [OF q w, of i True]) simp
  obtain fs2 h2 where f: "finalize_file h1 fs1 p = (Inr STATUS_OK, fs2, h2)"
    "\<forall>k. file_at fs2 k = (if k = target_key ?r fs1 p
         then Some (overwrite (content_or_empty (file_at fs (temp_key ?r fs p))) (nat (sint off)) data)
       else if k = temp_key ?r fs1 p then None else file_at fs1 k)"
    using finalize_file_ok [of p h1 fs1, unfolded h1(2), OF p place(1) wf1 place(2) st] by auto
  have "file_at fs1 k = file_at fs k" if "k \<noteq> temp_key ?r fs p" for k
    using touches_file_at [OF e(1)] that by simp
  with f(2) have "\<forall>k. file_at fs2 k = (if k = target_key ?r fs p
         then Some (overwrite (content_or_empty (file_at fs (temp_key ?r fs p))) (nat (sint off)) data)
       else if k = temp_key ?r fs p then None else file_at fs k)"
    by (simp add: keys)
  moreover have "receive_blocks bs p [(i, off, data)] h fs locks = (Inr STATUS_OK, fs2, l1, h2)"
    using h1(3) f(1) final by simp
  ultimately show ?thesis using h1(1) by blast
qed

text \<open>All blocks of a file as the client sends them.\<close>

definition blocks_of :: "nat \<Rightarrow> byte list \<Rightarrow> (u32 \<times> u64 \<times> byte list) list" where
  "blocks_of bs content =
     map (\<lambda>i. (word_of_nat i, block_of bs content i)) [0..<block_count bs (length content)]"

lemma stage_all_max_file:
  assumes "stage_all (\<lambda>fs (off, data). write_block_atomic r fs p off data) fs ds = Inr (ok, fs')"
  shows "max_file fs' = max_file fs"
  using assms
proof (induction ds arbitrary: fs)
  case (Cons d ds)
  obtain off data where d: "d = (off, data)" by (cases d)
  obtain ok1 fs1 where w: "write_block_atomic r fs p off data = Inr (ok1, fs1)"
    and rest: "(if ok1 then stage_all (\<lambda>fs (off, data). write_block_atomic r fs p off data) fs1 ds else Inr (False, fs1)) = Inr (ok, fs')"
    using Cons.prems d by (auto simp: bind_result_Inr_iff)
  have "max_file fs1 = max_file fs" using write_block_atomic_effect(1) [OF w] by (simp add: touches_def)
  then show ?case using rest Cons.IH by (cases ok1) auto
qed simp

lemma block_full:
  assumes bs: "0 < bs" and i: "Suc i < block_count bs (length content) \<or> i < block_count bs (length content) \<and> length content mod bs = 0"
  shows "bs \<le> length (snd (block_of bs content i))"
proof -
  have "i * bs + bs \<le> length content"
    using i
  proof
    assume "Suc i < block_count bs (length content)"
    then show ?thesis using block_count_bounds [OF bs, of "Suc i"] by simp
  next
    assume i: "i < block_count bs (length content) \<and> length content mod bs = 0"
    then obtain m where m: "length content = m * bs" by (auto simp: mod_eq_0_iff_dvd dvd_def mult.commute)
    then have "i < m" using block_count_bounds [OF bs, of i] i bs by simp
    then have "Suc i * bs \<le> m * bs" by (intro mult_right_mono) auto
    then show ?thesis using m by simp
  qed
  then show ?thesis by (simp add: block_of_def)
qed

lemma last_block_short:
  assumes bs: "0 < bs" and "length content mod bs \<noteq> 0"
  obtains k where "block_count bs (length content) = Suc k" "length (snd (block_of bs content k)) < bs"
proof -
  let ?n = "length content"
  have "?n \<noteq> 0" using assms(2) by auto
  then have "0 < block_count bs ?n" using block_count_bounds [OF bs, of 0] by simp
  then obtain k where k: "block_count bs ?n = Suc k" by (cases "block_count bs ?n") auto
  have "k * bs < ?n" using block_count_bounds [OF bs, of k ?n] k by simp
  moreover have "?n \<le> Suc k * bs" using block_count_bounds [OF bs, of "Suc k" ?n] k by simp
  moreover have "?n \<noteq> Suc k * bs" using assms(2) by auto
  ultimately have "?n - k * bs < bs" by simp
  then have "length (snd (block_of bs content k)) < bs" by (simp add: block_of_def)
  with k that show ?thesis by blast
qed

text \<open>
  The first \<^verbatim>\<open>k\<close> blocks of a file, all of them full, sent to a server with no staging file: they are
  all accepted and staged one behind the other, and nothing but the staging file changes.
\<close>

lemma receive_first_blocks:
  assumes p: "plain_path p" "CHR 0x00 \<notin> set (ds_storage_root h)"
    and fs: "healthy fs" "storage_wf fs" "writable_place (ds_storage_root h) fs p"
    and fresh: "node_at fs (temp_key (ds_storage_root h) fs p) = None" and q: "quiet locks"
    and bs: "0 < bs" and content: "length content < 2 ^ 63" "length content \<le> max_file fs"
    and k: "k \<le> block_count bs (length content)" "\<And>i. i < k \<Longrightarrow> bs \<le> length (snd (block_of bs content i))"
  obtains fs1 l1 h1 where
    "receive_blocks bs p (map (\<lambda>i. (word_of_nat i, block_of bs content i)) [0..<k]) h fs locks = (Inr STATUS_OK, fs1, l1, h1)"
    "quiet l1" "ds_storage_root h1 = ds_storage_root h"
    "healthy fs1" "storage_wf fs1" "writable_place (ds_storage_root h) fs1 p" "max_file fs1 = max_file fs"
    "temp_key (ds_storage_root h) fs1 p = temp_key (ds_storage_root h) fs p"
    "target_key (ds_storage_root h) fs1 p = target_key (ds_storage_root h) fs p"
    "\<forall>j. j \<noteq> temp_key (ds_storage_root h) fs p \<longrightarrow> file_at fs1 j = file_at fs j"
    "content_or_empty (file_at fs1 (temp_key (ds_storage_root h) fs p)) = fold put_block (map (block_of bs content) [0..<k]) []"
proof -
  let ?r = "ds_storage_root h" and ?first = "map (\<lambda>i. (word_of_nat i :: u32, block_of bs content i)) [0..<k]"
  let ?put = "\<lambda>fs (offset, data). write_block_atomic ?r fs p offset data"
  have snds: "map snd ?first = map (block_of bs content) [0..<k]" by simp
  have "\<forall>(offset, data) \<in> set (map snd ?first). 0 \<le> sint offset \<and> nat (sint offset) + length data \<le> max_file fs"
    unfolding snds by (rule blocks_fit [OF bs content]) (use k(1) in auto)
  from block_stage_all_ok [OF p fs this] obtain fs1 where st: "stage_all ?put fs (map snd ?first) = Inr (True, fs1)"
    and place: "map snd ?first \<noteq> [] \<longrightarrow> healthy fs1 \<and> storage_wf fs1 \<and> writable_place ?r fs1 p"
    by blast
  have st': "stage_all ((\<lambda>n fs (offset, data). write_block_atomic (fst n) fs (snd n) offset data) (?r, p))
      fs (map snd ?first) = Inr (True, fs1)"
    using st by simp
  note frame = block_file.stage_all_frame [OF fs(2) st', simplified]
  have empty: "content_or_empty (file_at fs (temp_key ?r fs p)) = []" using fresh by (simp add: file_at_def content_or_empty_def)
  have staged: "content_or_empty (file_at fs1 (temp_key ?r fs p)) = fold put_block (map (block_of bs content) [0..<k]) []"
    using block_file.stage_all_data [OF st', unfolded snds] st empty
    by (cases "k = 0") (simp_all add: content_or_empty_def)
  have "\<forall>(i, off, data) \<in> set ?first. bs \<le> length data" using k(2) by (auto simp: split_beta)
  from receive_full_blocks [OF q this st] obtain l1 h1 where
    "receive_blocks bs p ?first h fs locks = (Inr STATUS_OK, fs1, l1, h1)" "quiet l1" "ds_storage_root h1 = ?r"
    by blast
  moreover have "healthy fs1" "storage_wf fs1" "writable_place ?r fs1 p"
    using place fs st by (cases "k = 0"; simp)+
  ultimately show ?thesis
    using frame staged stage_all_max_file [OF st] by (intro that [of fs1 l1 h1]) simp_all
qed

text \<open>The blocks of a file are full ones followed by a short one, and all are accepted.\<close>

lemma delta_transfer_split:
  assumes p: "plain_path p" "CHR 0x00 \<notin> set (ds_storage_root h)"
    and fs: "healthy fs" "storage_wf fs" "writable_place (ds_storage_root h) fs p"
    and fresh: "node_at fs (temp_key (ds_storage_root h) fs p) = None" and q: "quiet locks"
    and bs: "0 < bs" and content: "length content mod bs \<noteq> 0" "length content < 2 ^ 63" "length content \<le> max_file fs"
  obtains first i off data fs1 l1 h1 fs2 l2 h2 where "blocks_of bs content = first @ [(i, off, data)]"
    "\<forall>(i, off, data) \<in> set first. bs \<le> length data" "length data < bs"
    "receive_blocks bs p first h fs locks = (Inr STATUS_OK, fs1, l1, h1)"
    "receive_blocks bs p [(i, off, data)] h1 fs1 l1 = (Inr STATUS_OK, fs2, l2, h2)" "quiet l2"
    "\<forall>k. file_at fs2 k = (if k = target_key (ds_storage_root h) fs p then Some content else file_at fs k)"
proof -
  let ?r = "ds_storage_root h"
  obtain k where k: "block_count bs (length content) = Suc k" "length (snd (block_of bs content k)) < bs"
    using last_block_short [OF bs content(1)] .
  obtain fs1 l1 h1 where
    r1: "receive_blocks bs p (map (\<lambda>i. (word_of_nat i, block_of bs content i)) [0..<k]) h fs locks = (Inr STATUS_OK, fs1, l1, h1)"
      "quiet l1" "ds_storage_root h1 = ?r"
    and place1: "healthy fs1" "storage_wf fs1" "writable_place ?r fs1 p" "max_file fs1 = max_file fs"
    and keys: "temp_key ?r fs1 p = temp_key ?r fs p" "target_key ?r fs1 p = target_key ?r fs p"
    and frame: "\<forall>j. j \<noteq> temp_key ?r fs p \<longrightarrow> file_at fs1 j = file_at fs j"
    and staged: "content_or_empty (file_at fs1 (temp_key ?r fs p)) = fold put_block (map (block_of bs content) [0..<k]) []"
    using receive_first_blocks [OF p fs fresh q bs content(2,3), of k] block_full [OF bs, of _ content] k(1) by auto
  obtain off data where b: "block_of bs content k = (off, data)" by (cases "block_of bs content k")
  have fits: "0 \<le> sint off" "nat (sint off) + length data \<le> max_file fs1"
    using blocks_fit [OF bs content(2,3), of "[k]"] k(1) b place1(4) by auto
  obtain fs2 l2 h2 where r2: "receive_blocks bs p [(word_of_nat k, off, data)] h1 fs1 l1 = (Inr STATUS_OK, fs2, l2, h2)" "quiet l2"
    "\<forall>j. file_at fs2 j = (if j = target_key ?r fs p
         then Some (overwrite (content_or_empty (file_at fs1 (temp_key ?r fs p))) (nat (sint off)) data)
       else if j = temp_key ?r fs p then None else file_at fs1 j)"
    using receive_final_block [of p h1 fs1, unfolded r1(3), OF p place1(1-3) fits r1(2), of bs "word_of_nat k"] k(2) b
    unfolding keys by auto
  have "overwrite (content_or_empty (file_at fs1 (temp_key ?r fs p))) (nat (sint off)) data =
      fold put_block (map (block_of bs content) [0..<Suc k]) []"
    using staged b by simp
  also have "\<dots> = content" by (rule put_blocks_all [OF bs content(2)]) (use k(1) in auto)
  finally have "\<forall>j. file_at fs2 j = (if j = target_key ?r fs p then Some content else file_at fs j)"
    using r2(3) frame fresh by (auto simp: file_at_def)
  note fs2 = this
  have "blocks_of bs content = map (\<lambda>i. (word_of_nat i, block_of bs content i)) [0..<k] @ [(word_of_nat k, off, data)]"
    by (simp add: blocks_of_def k(1) b)
  moreover have "\<forall>(i, off, data) \<in> set (map (\<lambda>i. (word_of_nat i :: u32, block_of bs content i)) [0..<k]). bs \<le> length data"
    using block_full [OF bs, of _ content] k(1) by (auto simp: split_beta)
  moreover have "length data < bs" using k(2) b by simp
  ultimately show ?thesis using r1(1) r2(1,2) fs2 by (rule that)
qed

text \<open>
  A file whose length is a multiple of the block size has only full blocks, none of which counts as the
  final one: all are staged, and nothing is published.
\<close>

lemma delta_multiple_staged:
  assumes p: "plain_path p" "CHR 0x00 \<notin> set (ds_storage_root h)"
    and fs: "healthy fs" "storage_wf fs" "writable_place (ds_storage_root h) fs p"
    and fresh: "node_at fs (temp_key (ds_storage_root h) fs p) = None" and q: "quiet locks"
    and bs: "0 < bs" and content: "length content mod bs = 0" "length content < 2 ^ 63" "length content \<le> max_file fs"
  obtains fs1 l1 h1 where "receive_blocks bs p (blocks_of bs content) h fs locks = (Inr STATUS_OK, fs1, l1, h1)"
    "content_or_empty (file_at fs1 (temp_key (ds_storage_root h) fs p)) = content"
    "\<forall>k. k \<noteq> temp_key (ds_storage_root h) fs p \<longrightarrow> file_at fs1 k = file_at fs k"
    "\<forall>(i, off, data) \<in> set (blocks_of bs content). bs \<le> length data"
proof -
  let ?n = "block_count bs (length content)"
  have full: "bs \<le> length (snd (block_of bs content i))" if "i < ?n" for i
    using block_full [OF bs, of i content] that content(1) by simp
  have all: "fold put_block (map (block_of bs content) [0..<?n]) [] = content"
    by (rule put_blocks_all [OF bs content(2)]) auto
  obtain fs1 l1 h1 where r:
    "receive_blocks bs p (map (\<lambda>i. (word_of_nat i, block_of bs content i)) [0..<?n]) h fs locks = (Inr STATUS_OK, fs1, l1, h1)"
    "\<forall>j. j \<noteq> temp_key (ds_storage_root h) fs p \<longrightarrow> file_at fs1 j = file_at fs j"
    "content_or_empty (file_at fs1 (temp_key (ds_storage_root h) fs p)) = fold put_block (map (block_of bs content) [0..<?n]) []"
    by (rule receive_first_blocks [OF p fs fresh q bs content(2,3) order.refl full]) blast
  have "\<forall>(i, off, data) \<in> set (blocks_of bs content). bs \<le> length data" using full by (auto simp: blocks_of_def split_beta)
  with r all show ?thesis by (intro that [of fs1 l1 h1]) (simp_all add: blocks_of_def)
qed

lemma receive_one_block:
  assumes "receive_blocks bs p [(i, off, data)] h fs locks = (Inr STATUS_OK, fs', locks', h')"
  shows "handle_block_data h fs locks p i off data (sha256_hex data) (length data < bs) = (Inr STATUS_OK, fs', locks', h')"
  using assms by (auto split: prod.splits sum.splits if_splits)

text \<open>
  C37. Integrity of a block: when the SHA-256 digest of the data is not the announced one, the block is
  answered with CHECKSUM_MISMATCH and neither the storage, the locks nor the handler change.  A block
  that is answered with OK has the announced digest, and as long as it is not the final one it changes
  no file but the staging file.
\<close>

theorem delta_block_integrity:
  "(to_hex (fips_sha256 data) \<noteq> strong_hash \<longrightarrow>
     handle_block_data h fs locks p i off data strong_hash fin = (Inr CHECKSUM_MISMATCH, fs, locks, h)) \<and>
   (handle_block_data h fs locks p i off data strong_hash fin = (Inr STATUS_OK, fs', locks', h') \<longrightarrow>
      strong_hash = to_hex (fips_sha256 data) \<and>
      (\<not> fin \<longrightarrow> (\<forall>k. k \<noteq> temp_key (ds_storage_root h) fs p \<longrightarrow> file_at fs' k = file_at fs k)))"
proof -
  have hex: "sha256_hex data = to_hex (fips_sha256 data)" by (simp add: sha256_hex_eq sha256_raw_eq)
  have "\<forall>k. k \<noteq> temp_key (ds_storage_root h) fs p \<longrightarrow> file_at fs' k = file_at fs k"
    if run: "handle_block_data h fs locks p i off data (sha256_hex data) False = (Inr STATUS_OK, fs', locks', h')"
  proof -
    obtain r l1 where "acquire_write p locks = (r, l1)" by fastforce
    with run have "\<exists>ok. write_block_atomic (ds_storage_root h) fs p off data = Inr (ok, fs')"
      by (auto simp: handle_block_data_def Let_def split: sum.splits prod.splits if_splits)
    then show ?thesis using touches_file_at [OF write_block_atomic_effect(1)] by auto
  qed
  moreover have mismatch: "handle_block_data h fs locks p i off data strong_hash fin = (Inr CHECKSUM_MISMATCH, fs, locks, h)"
    if "sha256_hex data \<noteq> strong_hash"
    using that by (simp only: handle_block_data_def if_True not_False_eq_True)
  moreover have "strong_hash = sha256_hex data"
    if "handle_block_data h fs locks p i off data strong_hash fin = (Inr STATUS_OK, fs', locks', h')"
  proof (rule ccontr)
    assume "strong_hash \<noteq> sha256_hex data"
    with mismatch that show False by simp
  qed
  ultimately show ?thesis unfolding hex [symmetric] by metis
qed

definition demo_handler :: DeltaSyncHandler where
  "demo_handler = DeltaSyncHandler_init ''./data'' 2"

lemma demo_handler_root [simp]: "ds_storage_root demo_handler = ''./data''"
  by (simp add: demo_handler_def DeltaSyncHandler_init_def)

lemma demo_fresh: "node_at demo_storage (temp_key ''./data'' demo_storage ''sub/new'') = None"
  "node_at demo_storage (temp_key ''./data'' demo_storage ''notes'') = None"
  "target_key ''./data'' demo_storage ''sub/new'' = [''srv'', ''data'', ''sub'', ''new'']"
  "target_key ''./data'' demo_storage ''notes'' = [''srv'', ''data'', ''notes'']"
  "temp_key ''./data'' demo_storage ''sub/new'' \<noteq> [''srv'', ''data'', ''sub'', ''new'']"
  "file_at demo_storage [''srv'', ''data'', ''sub'', ''new''] = None"
  "file_at demo_storage [''srv'', ''data'', ''notes''] = Some [1, 2, 3, 4, 5]"
  by code_simp+

theorem delta_request_exact_witness:
  "\<exists>req. fst (handle_signature_request demo_handler 100 demo_storage FileMutex_init ''notes''
       (word_of_nat 5) 2 (signatures_of 2 [1, 2, 3, 9, 5])) = Inr req \<and>
     2 \<notin> set (requested_indices req) \<and> 1 \<in> set (requested_indices req)"
proof -
  have sz: "length [1, 2, 3, 4, 5 :: byte] < 2 ^ 63" "length [1, 2, 3, 9, 5 :: byte] < 2 ^ 63"
    "block_count (unat (2 :: u32)) (length [1, 2, 3, 4, 5 :: byte]) < 2 ^ 32"
    "block_count (unat (2 :: u32)) (length [1, 2, 3, 9, 5 :: byte]) < 2 ^ 32"
    "0 < unat (2 :: u32)" "unat (2 :: u32) \<le> 100"
    by (simp_all add: block_count_def)
  have len: "length [1, 2, 3, 4, 5 :: byte] = 5" "length [1, 2, 3, 9, 5 :: byte] = 5" by simp_all
  have nr: "no_read demo_storage = []" by code_simp
  have cmp: "unat (2 :: u32) < max (block_count (unat (2 :: u32)) 5) (block_count (unat (2 :: u32)) 5)"
    "unat (1 :: u32) < max (block_count (unat (2 :: u32)) 5) (block_count (unat (2 :: u32)) 5)"
    "unat (2 :: u32) < min (block_count (unat (2 :: u32)) 5) (block_count (unat (2 :: u32)) 5)"
    "block_at (unat (2 :: u32)) [1, 2, 3, 4, 5] (unat (2 :: u32)) = block_at (unat (2 :: u32)) [1, 2, 3, 9, 5] (unat (2 :: u32))"
    "adler32 (block_at (unat (2 :: u32)) [1, 2, 3, 4, 5] (unat (1 :: u32))) \<noteq> adler32 (block_at (unat (2 :: u32)) [1, 2, 3, 9, 5] (unat (1 :: u32)))"
    by code_simp+
  have stored: "file_at demo_storage (target_key (ds_storage_root demo_handler) demo_storage ''notes'') = Some [1, 2, 3, 4, 5]"
    by (simp add: demo_fresh)
  have root: "CHR 0x00 \<notin> set (ds_storage_root demo_handler)" by simp
  obtain req locks' where run: "handle_signature_request demo_handler 100 demo_storage FileMutex_init ''notes''
       (word_of_nat 5) 2 (signatures_of 2 [1, 2, 3, 9, 5]) = (Inr req, locks')"
    and req: "\<forall>i. i \<in> set (requested_indices req) \<longleftrightarrow> unat i < max (block_count (unat (2 :: u32)) 5) (block_count (unat (2 :: u32)) 5) \<and>
       (unat i < min (block_count (unat (2 :: u32)) 5) (block_count (unat (2 :: u32)) 5) \<longrightarrow>
         adler32 (block_at (unat (2 :: u32)) [1, 2, 3, 4, 5] (unat i)) \<noteq> adler32 (block_at (unat (2 :: u32)) [1, 2, 3, 9, 5] (unat i)) \<or>
         fips_sha256 (block_at (unat (2 :: u32)) [1, 2, 3, 4, 5] (unat i)) \<noteq> fips_sha256 (block_at (unat (2 :: u32)) [1, 2, 3, 9, 5] (unat i)))"
    using delta_request_exact [OF demo_storage_facts(2) root stored nr sz(5,6,1-4) quiet_init, unfolded len] by blast
  have "2 \<notin> set (requested_indices req)"
    using spec [OF req, of 2] cmp(3,4) by (simp only: simp_thms)
  moreover have "1 \<in> set (requested_indices req)"
    using spec [OF req, of 1] cmp(2,5) by (simp only: simp_thms)
  ultimately show ?thesis unfolding run fst_conv by blast
qed

theorem delta_block_integrity_witness:
  "handle_block_data demo_handler demo_storage FileMutex_init ''notes'' 2 4 [9] ''bad'' True
      = (Inr CHECKSUM_MISMATCH, demo_storage, FileMutex_init, demo_handler)"
proof -
  have "length (to_hex (fips_sha256 [9])) = 64"
    using length_sha256_raw [of "[9]"] by (simp add: length_to_hex sha256_raw_eq)
  then have "to_hex (fips_sha256 [9]) \<noteq> ''bad''" by auto
  then show ?thesis
    using delta_block_integrity [of "[9]" "''bad''" demo_handler demo_storage FileMutex_init "''notes''" 2 4 True] by blast
qed

end
