(* ===== verification/Session.thy ===== *)
theory Session
  imports Zero_Copy Negotiator Delta_Sync
begin

text \<open>
  The session (\<^verbatim>\<open>session.h\<close>, \<^verbatim>\<open>session.cpp\<close>): one record per connection with the fields of the class, one
  definition per message handler, and the event loop \<open>run\<close>.  The storage and the lock table belong to
  the server and are references in the class; here they are fields that a handler reads and replaces.
  A handler gives \<open>Inr ()\<close> when it returns and \<open>Inl\<close> when an exception leaves it, together with the
  session as it is then.  Sending a file may not return, so the download handler and the loop are
  options.  Console output is not modelled; the clock is a script of the time between two readings.

  The lemmas show what every handler keeps, that a session whose input ends comes to an end, that an
  upload publishes exactly the bytes it carried, and how malformed messages are answered.
\<close>


section \<open>State\<close>

datatype SessionState = AWAITING_HELLO | READY | NEGOTIATING | TRANSFERRING | ERROR_STATE | DISCONNECTED

text \<open>
  The capacity of the buffer is kept beside its contents, because it decides whether the allocator is
  asked; \<^verbatim>\<open>clear\<close> keeps it.
\<close>

record UploadState =
  up_relative_path :: string
  up_total_size :: u64
  up_received :: u64
  up_expected_sha256 :: string
  up_buffer :: "byte list"
  up_capacity :: nat

record Session =
  client_fd :: socket
  client_addr :: string
  sess_state :: SessionState
  client_id :: string
  shutdown_requested :: bool
  file_root :: string
  disk :: storage
  file_mutex :: FileMutex
  negotiator :: Negotiator
  delta_sync_handler :: DeltaSyncHandler
  negotiated_block_size :: u32
  protocol_version :: u32
  upload_state :: UploadState
  steady_clock :: nat
  clock_steps :: "nat list"

definition Session_init :: "socket \<Rightarrow> string \<Rightarrow> string \<Rightarrow> storage \<Rightarrow> FileMutex \<Rightarrow> nat list \<Rightarrow> u32 \<Rightarrow> Session" where
  "Session_init fd addr storage_root fs locks steps block_size =
     \<lparr>client_fd = fd, client_addr = addr, sess_state = AWAITING_HELLO, client_id = [],
      shutdown_requested = False, file_root = storage_root, disk = fs, file_mutex = locks,
      negotiator = \<lparr>ng_storage_root = storage_root, ng_block_size = block_size\<rparr>,
      delta_sync_handler = DeltaSyncHandler_init storage_root block_size,
      negotiated_block_size = block_size, protocol_version = 1,
      upload_state = \<lparr>up_relative_path = [], up_total_size = 0, up_received = 0,
                      up_expected_sha256 = [], up_buffer = [], up_capacity = 0\<rparr>,
      steady_clock = 0, clock_steps = steps\<rparr>"

text \<open>The name the server gave the session's flag: a request to stop, read at the head of the loop.\<close>

definition shutdown :: "Session \<Rightarrow> Session" where
  "shutdown s = s\<lparr>shutdown_requested := True\<rparr>"

text \<open>\<^verbatim>\<open>steady_clock::now()\<close>, in nanoseconds: it advances by the next scripted step, never backwards.\<close>

definition clock_now :: "Session \<Rightarrow> nat \<times> Session" where
  "clock_now s =
     (case clock_steps s of
        [] \<Rightarrow> (steady_clock s, s)
      | d # ds \<Rightarrow> (steady_clock s + d, s\<lparr>steady_clock := steady_clock s + d, clock_steps := ds\<rparr>))"

section \<open>Sending\<close>

text \<open>Every answer goes through \<^verbatim>\<open>write_frame\<close>, whose result the session ignores.\<close>

definition send_message :: "byte \<Rightarrow> byte list \<Rightarrow> Session \<Rightarrow> Session" where
  "send_message ty serialized s =
     s\<lparr>client_fd := snd (write_frame \<lparr>message_type = ty, payload = serialized\<rparr> (client_fd s))\<rparr>"

definition send_error :: "codec \<Rightarrow> int \<Rightarrow> string \<Rightarrow> Session \<Rightarrow> Session" where
  "send_error cd status_code message s =
     send_message MSG_ERROR (ser_ErrorPayload cd \<lparr>er_code = status_code, er_message = message, er_detail = []\<rparr>) s"

definition send_progress :: "codec \<Rightarrow> string \<Rightarrow> u64 \<Rightarrow> u64 \<Rightarrow> rat \<Rightarrow> u32 \<Rightarrow> Session \<Rightarrow> Session" where
  "send_progress cd path bytes_transferred bytes_total rate_mbps elapsed_ms s =
     send_message MSG_PROGRESS (ser_ProgressUpdate cd
       \<lparr>pu_relative_path = path, pu_bytes_transferred = bytes_transferred, pu_bytes_total = bytes_total,
        pu_rate_mbps = rate_mbps, pu_elapsed_ms = elapsed_ms\<rparr>) s"

section \<open>Handshake and negotiation\<close>

definition handle_client_hello :: "codec \<Rightarrow> byte list \<Rightarrow> Session \<Rightarrow> unit result \<times> Session" where
  "handle_client_hello cd msg s =
     (case parse_ClientHello cd msg (int_size msg) of
        None \<Rightarrow> (Inr (), send_error cd PROTOCOL_ERROR ''Failed to parse ClientHello'' s)
      | Some hello \<Rightarrow>
          let s1 = s\<lparr>client_id := ch_client_id hello, protocol_version := ch_protocol_version hello\<rparr>;
              s2 = (if 4096 \<le> ch_block_size hello \<and> ch_block_size hello \<le> 1048576
                    then s1\<lparr>negotiated_block_size := ch_block_size hello\<rparr> else s1);
              server_hello = \<lparr>sh_protocol_version = 1, sh_server_id = ''adaptivesync-cpp-1.0'',
                sh_supported_modes = [ZERO_COPY, DELTA_SYNC], sh_max_concurrent_transfers = 10,
                sh_max_file_size = 0, sh_block_size = negotiated_block_size s2\<rparr> in
          (Inr (), (send_message MSG_SERVER_HELLO (ser_ServerHello cd server_hello) s2)\<lparr>sess_state := READY\<rparr>))"

definition handle_negotiation_request :: "codec \<Rightarrow> byte list \<Rightarrow> Session \<Rightarrow> unit result \<times> Session" where
  "handle_negotiation_request cd msg s =
     (case parse_NegotiationRequest cd msg (int_size msg) of
        None \<Rightarrow> (Inr (), send_error cd PROTOCOL_ERROR ''Failed to parse NegotiationRequest'' s)
      | Some req \<Rightarrow>
          let s1 = s\<lparr>sess_state := NEGOTIATING\<rparr> in
          (case negotiate (negotiator s1) (disk s1) (nr_relative_path req) (nr_client_file_size req)
                  (nr_client_last_modified_ns req) (nr_client_sha256_hash req) of
             Inl e \<Rightarrow> (Inl e, s1)
           | Inr result \<Rightarrow>
               let resp = \<lparr>np_file_mode = ns_file_mode result, np_transfer_mode = ns_transfer_mode result,
                     np_server_file_size = ns_server_file_size result,
                     np_server_sha256_hash = ns_server_sha256 result, np_block_size = ns_block_size result\<rparr> in
               (Inr (), (send_message MSG_NEGOTIATION_RESPONSE (ser_NegotiationResponse cd resp) s1)\<lparr>sess_state := READY\<rparr>)))"

section \<open>Whole-file transfers\<close>

definition handle_zero_copy_download_request ::
    "codec \<Rightarrow> byte list \<Rightarrow> Session \<Rightarrow> (unit result \<times> Session) option" where
  "handle_zero_copy_download_request cd msg s =
     (case parse_ZeroCopyDownloadRequest cd msg (int_size msg) of
        None \<Rightarrow> Some (Inr (), send_error cd PROTOCOL_ERROR ''Failed to parse ZeroCopyDownloadRequest'' s)
      | Some req \<Rightarrow>
          let s1 = s\<lparr>sess_state := TRANSFERRING\<rparr> in
          (case send_file cd (file_root s1) (disk s1) (dr_relative_path req) (dr_offset req) (client_fd s1) of
             None \<Rightarrow> None
           | Some (Inl e, fd) \<Rightarrow> Some (Inl e, s1\<lparr>client_fd := fd\<rparr>)
           | Some (Inr ok, fd) \<Rightarrow>
               let s2 = s1\<lparr>client_fd := fd\<rparr>;
                   s3 = (if ok then s2 else send_error cd FILE_NOT_FOUND
                           (''File not found or transfer failed: '' @ dr_relative_path req) s2) in
               Some (Inr (), s3\<lparr>sess_state := READY\<rparr>)))"

text \<open>
  \<^verbatim>\<open>buffer.reserve(n)\<close> and \<^verbatim>\<open>buffer.insert(end, ...)\<close>: when the capacity does not do, the vector asks for
  \<^verbatim>\<open>n\<close> bytes, or for its size plus the larger of its size and the added length.
\<close>

definition reserve_buffer :: "nat \<Rightarrow> nat \<Rightarrow> UploadState \<Rightarrow> UploadState result" where
  "reserve_buffer grant n u =
     (if vector_max_size < n then Inl Length_error
      else if n \<le> up_capacity u then Inr u
      else bind_result (vector_alloc grant n) (\<lambda>_. Inr (u\<lparr>up_capacity := n\<rparr>)))"

definition insert_data :: "nat \<Rightarrow> byte list \<Rightarrow> UploadState \<Rightarrow> UploadState result" where
  "insert_data grant data u =
     (let n = length (up_buffer u) + length data;
          len = length (up_buffer u) + max (length (up_buffer u)) (length data) in
      if n \<le> up_capacity u then Inr (u\<lparr>up_buffer := up_buffer u @ data\<rparr>)
      else bind_result (vector_alloc grant len) (\<lambda>_. Inr (u\<lparr>up_buffer := up_buffer u @ data, up_capacity := len\<rparr>)))"

text \<open>The progress report after one raw-data frame, in the units of the source: MiB per second.\<close>

definition report_progress :: "codec \<Rightarrow> nat \<Rightarrow> Session \<Rightarrow> Session" where
  "report_progress cd start s =
     (let (now, s1) = clock_now s;
          elapsed_ms = (now - start) div 1000000;
          u = upload_state s1 in
      if 0 < elapsed_ms
      then send_progress cd (up_relative_path u) (up_received u) (up_total_size u)
             ((of_nat (unat (up_received u)) / (1024 * 1024)) / (of_nat elapsed_ms / 1000))
             (word_of_nat elapsed_ms) s1
      else s1)"

lemma clock_now_simps [simp]:
  "client_fd (snd (clock_now s)) = client_fd s"
  by (simp_all add: clock_now_def split: list.split)
lemma report_progress_rx [simp]: "rx (client_fd (report_progress cd start s)) = rx (client_fd s)"
  by (simp add: report_progress_def Let_def split_beta send_progress_def send_message_def)

function upload_loop :: "codec \<Rightarrow> nat \<Rightarrow> nat \<Rightarrow> Session \<Rightarrow> unit result \<times> Session" where
  "upload_loop cd grant start s =
     (if up_received (upload_state s) < up_total_size (upload_state s)
      then case read_frame grant (client_fd s) of
             (Inl e, fd) \<Rightarrow> (Inl e, s\<lparr>client_fd := fd\<rparr>)
           | (Inr None, fd) \<Rightarrow>
               (Inr (), send_error cd STATUS_ERROR ''Connection lost during upload'' (s\<lparr>client_fd := fd\<rparr>))
           | (Inr (Some data_frame), fd) \<Rightarrow>
               if message_type data_frame = MSG_RAW_DATA
               then case insert_data grant (payload data_frame) (upload_state s) of
                      Inl e \<Rightarrow> (Inl e, s\<lparr>client_fd := fd\<rparr>)
                    | Inr u \<Rightarrow>
                        upload_loop cd grant start (report_progress cd start
                          (s\<lparr>client_fd := fd, upload_state :=
                             u\<lparr>up_received := up_received u + word_of_nat (length (payload data_frame))\<rparr>\<rparr>))
               else upload_loop cd grant start (s\<lparr>client_fd := fd\<rparr>)
      else (Inr (), s))"
  by pat_completeness auto
termination
  by (relation "measure (\<lambda>(cd, grant, start, s). rx_size (rx (client_fd s)))")
    (auto dest: read_frame_progress [OF sym])

declare upload_loop.simps [simp del]

text \<open>The end of an upload: save and rename when everything has arrived.\<close>

definition save_upload :: "codec \<Rightarrow> Session \<Rightarrow> unit result \<times> Session" where
  "save_upload cd s =
     (let u = upload_state s in
      if up_received u = up_total_size u
      then case write_file_atomic (file_root s) (disk s) (up_relative_path u) (up_buffer u) of
             Inl e \<Rightarrow> (Inl e, s)
           | Inr (ok, fs1) \<Rightarrow>
               if ok
               then case atomic_rename_tmp (file_root s) fs1 (up_relative_path u) of
                      Inl e \<Rightarrow> (Inl e, s\<lparr>disk := fs1\<rparr>)
                    | Inr (_, fs2) \<Rightarrow> (Inr (), s\<lparr>disk := fs2\<rparr>)
               else (Inr (), send_error cd STATUS_ERROR ''Failed to save uploaded file'' (s\<lparr>disk := fs1\<rparr>))
      else (Inr (), s))"

definition handle_zero_copy_upload_request :: "codec \<Rightarrow> nat \<Rightarrow> byte list \<Rightarrow> Session \<Rightarrow> unit result \<times> Session" where
  "handle_zero_copy_upload_request cd grant msg s =
     (case parse_ZeroCopyUploadRequest cd msg (int_size msg) of
        None \<Rightarrow> (Inr (), send_error cd PROTOCOL_ERROR ''Failed to parse ZeroCopyUploadRequest'' s)
      | Some req \<Rightarrow>
          let metadata = ur_metadata req;
              u = (upload_state s)\<lparr>up_relative_path := md_relative_path metadata,
                    up_total_size := md_file_size metadata, up_received := 0,
                    up_expected_sha256 := md_sha256_hash metadata, up_buffer := []\<rparr> in
          (case reserve_buffer grant (unat (md_file_size metadata)) u of
             Inl e \<Rightarrow> (Inl e, s\<lparr>upload_state := u\<rparr>)
           | Inr u1 \<Rightarrow>
               let s1 = s\<lparr>upload_state := u1, sess_state := TRANSFERRING\<rparr>;
                   ack = \<lparr>ua_status = STATUS_OK, ua_error_message = [], ua_offset = 0\<rparr>;
                   s2 = send_message MSG_ZERO_COPY_UPLOAD_ACK (ser_ZeroCopyUploadAck cd ack) s1;
                   (start, s3) = clock_now s2 in
               (case upload_loop cd grant start s3 of
                  (Inl e, s4) \<Rightarrow> (Inl e, s4)
                | (Inr _, s4) \<Rightarrow>
                    (case save_upload cd s4 of
                       (Inl e, s5) \<Rightarrow> (Inl e, s5)
                     | (Inr _, s5) \<Rightarrow> (Inr (), s5\<lparr>sess_state := READY\<rparr>)))))"

section \<open>Block transfers\<close>

definition signature_of_message :: "BlockSignature \<Rightarrow> DeltaBlockSignature" where
  "signature_of_message sig =
     \<lparr>sig_block_index = bs_block_index sig, sig_rolling_hash = bs_rolling_hash sig,
      sig_strong_hash = bs_strong_hash sig, sig_block_offset = bs_block_offset sig,
      sig_block_size = bs_block_size sig\<rparr>"

definition handle_delta_sync_signature_request :: "codec \<Rightarrow> nat \<Rightarrow> byte list \<Rightarrow> Session \<Rightarrow> unit result \<times> Session" where
  "handle_delta_sync_signature_request cd grant msg s =
     (case parse_DeltaSyncSignatureRequest cd msg (int_size msg) of
        None \<Rightarrow> (Inr (), send_error cd PROTOCOL_ERROR ''Failed to parse DeltaSyncSignatureRequest'' s)
      | Some req \<Rightarrow>
          let s1 = s\<lparr>sess_state := NEGOTIATING\<rparr>;
              client_sigs = map signature_of_message (sr_signatures req);
              (result, locks) = handle_signature_request (delta_sync_handler s1) grant (disk s1) (file_mutex s1)
                (sr_relative_path req) (sr_file_size req) (sr_block_size req) client_sigs;
              s2 = s1\<lparr>file_mutex := locks\<rparr> in
          (case result of
             Inl e \<Rightarrow> (Inl e, s2)
           | Inr r \<Rightarrow>
               let block_req = \<lparr>br_relative_path = req_relative_path r,
                                br_requested_block_indices = requested_indices r\<rparr> in
               (Inr (), (send_message MSG_DELTA_SYNC_BLOCK_REQUEST (ser_DeltaSyncBlockRequest cd block_req) s2)
                  \<lparr>sess_state := READY\<rparr>)))"

text \<open>The answer to a block that was the last one or was not accepted.\<close>

definition block_completion :: "codec \<Rightarrow> string \<Rightarrow> int \<Rightarrow> Session \<Rightarrow> unit result \<times> Session" where
  "block_completion cd relative_path status s =
     (case (if status = STATUS_OK then compute_sha256 (file_root s) (disk s) relative_path else Inr []) of
        Inl e \<Rightarrow> (Inl e, s)
      | Inr sha \<Rightarrow>
          let complete = \<lparr>dc_relative_path = relative_path, dc_status = status,
                dc_error_message = (if status = STATUS_OK then [] else ''Block write failed''),
                dc_final_sha256_hash = sha\<rparr> in
          (Inr (), send_message MSG_DELTA_SYNC_COMPLETE (ser_DeltaSyncComplete cd complete) s))"

definition handle_delta_sync_block_data :: "codec \<Rightarrow> byte list \<Rightarrow> Session \<Rightarrow> unit result \<times> Session" where
  "handle_delta_sync_block_data cd msg s =
     (case parse_DeltaSyncBlockData cd msg (int_size msg) of
        None \<Rightarrow> (Inr (), send_error cd PROTOCOL_ERROR ''Failed to parse DeltaSyncBlockData'' s)
      | Some req \<Rightarrow>
          let s1 = s\<lparr>sess_state := TRANSFERRING\<rparr>;
              final_block = length (bd_data req) < unat (negotiated_block_size s1);
              (result, fs, locks, h) = handle_block_data (delta_sync_handler s1) (disk s1) (file_mutex s1)
                (bd_relative_path req) (bd_block_index req) (bd_block_offset req) (bd_data req)
                (bd_strong_hash req) final_block;
              s2 = s1\<lparr>disk := fs, file_mutex := locks, delta_sync_handler := h\<rparr> in
          (case result of
             Inl e \<Rightarrow> (Inl e, s2)
           | Inr status \<Rightarrow>
               (case (if final_block \<or> status \<noteq> STATUS_OK
                      then block_completion cd (bd_relative_path req) status s2 else (Inr (), s2)) of
                  (Inl e, s3) \<Rightarrow> (Inl e, s3)
                | (Inr _, s3) \<Rightarrow> (Inr (), s3\<lparr>sess_state := READY\<rparr>))))"

section \<open>Listing\<close>

definition listing_entry :: "FileInfo \<Rightarrow> FileMetadata" where
  "listing_entry fi =
     \<lparr>md_relative_path = fi_relative_path fi, md_file_size = fi_file_size fi,
      md_last_modified_ns = fi_last_modified_ns fi, md_sha256_hash = fi_sha256_hex fi, md_file_mode = FRESH\<rparr>"

definition handle_list_files_request :: "codec \<Rightarrow> byte list \<Rightarrow> Session \<Rightarrow> unit result \<times> Session" where
  "handle_list_files_request cd msg s =
     (case parse_ListFilesRequest cd msg (int_size msg) of
        None \<Rightarrow> (Inr (), send_error cd PROTOCOL_ERROR ''Failed to parse ListFilesRequest'' s)
      | Some req \<Rightarrow>
          (case list_files (file_root s) (disk s) (lr_directory_prefix req) (lr_recursive req) of
             Inl e \<Rightarrow> (Inl e, s)
           | Inr files \<Rightarrow>
               (Inr (), send_message MSG_LIST_FILES_RESPONSE
                  (ser_ListFilesResponse cd \<lparr>lp_files = map listing_entry files\<rparr>) s)))"

section \<open>The event loop\<close>

definition dispatch :: "codec \<Rightarrow> nat \<Rightarrow> WireFrame \<Rightarrow> Session \<Rightarrow> (unit result \<times> Session) option" where
  "dispatch cd grant frame s =
     (let ty = message_type frame; msg = payload frame in
      if ty = MSG_CLIENT_HELLO then Some (handle_client_hello cd msg s)
      else if ty = MSG_NEGOTIATION_REQUEST then Some (handle_negotiation_request cd msg s)
      else if ty = MSG_ZERO_COPY_DOWNLOAD_REQUEST then handle_zero_copy_download_request cd msg s
      else if ty = MSG_ZERO_COPY_UPLOAD_REQUEST then Some (handle_zero_copy_upload_request cd grant msg s)
      else if ty = MSG_DELTA_SYNC_SIGNATURE_REQUEST then Some (handle_delta_sync_signature_request cd grant msg s)
      else if ty = MSG_DELTA_SYNC_BLOCK_DATA then Some (handle_delta_sync_block_data cd msg s)
      else if ty = MSG_LIST_FILES_REQUEST then Some (handle_list_files_request cd msg s)
      else Some (Inr (), send_error cd PROTOCOL_ERROR ''Unknown message type'' s))"

partial_function (option) run :: "codec \<Rightarrow> nat \<Rightarrow> Session \<Rightarrow> (unit result \<times> Session) option" where
  "run cd grant s =
     (if \<not> shutdown_requested s \<and> sess_state s \<noteq> DISCONNECTED
      then case read_frame grant (client_fd s) of
             (Inl e, fd) \<Rightarrow> Some (Inl e, s\<lparr>client_fd := fd\<rparr>)
           | (Inr None, fd) \<Rightarrow> Some (Inr (), s\<lparr>client_fd := fd, sess_state := DISCONNECTED\<rparr>)
           | (Inr (Some frame), fd) \<Rightarrow>
               (case dispatch cd grant frame (s\<lparr>client_fd := fd\<rparr>) of
                  None \<Rightarrow> None
                | Some (Inl e, s1) \<Rightarrow> Some (Inl e, s1)
                | Some (Inr _, s1) \<Rightarrow> run cd grant s1)
      else Some (Inr (), s))"

declare run.simps [simp del]

section \<open>What the handlers keep\<close>

lemma send_message_fields [simp]:
  "client_addr (send_message ty b s) = client_addr s" "sess_state (send_message ty b s) = sess_state s"
  "client_id (send_message ty b s) = client_id s" "shutdown_requested (send_message ty b s) = shutdown_requested s"
  "file_root (send_message ty b s) = file_root s" "disk (send_message ty b s) = disk s"
  "file_mutex (send_message ty b s) = file_mutex s" "negotiator (send_message ty b s) = negotiator s"
  "delta_sync_handler (send_message ty b s) = delta_sync_handler s"
  "negotiated_block_size (send_message ty b s) = negotiated_block_size s"
  "upload_state (send_message ty b s) = upload_state s" "steady_clock (send_message ty b s) = steady_clock s"
  "clock_steps (send_message ty b s) = clock_steps s"
  "rx (client_fd (send_message ty b s)) = rx (client_fd s)"
  by (simp_all add: send_message_def)

lemmas send_defs = send_error_def send_progress_def

text \<open>A step that leaves everything but the socket, the upload and the clock alone.\<close>

definition same_service :: "Session \<Rightarrow> Session \<Rightarrow> bool" where
  "same_service s s' \<longleftrightarrow>
     file_root s' = file_root s \<and> disk s' = disk s \<and> file_mutex s' = file_mutex s \<and>
     negotiator s' = negotiator s \<and> delta_sync_handler s' = delta_sync_handler s \<and>
     negotiated_block_size s' = negotiated_block_size s \<and> sess_state s' = sess_state s \<and>
     shutdown_requested s' = shutdown_requested s \<and> client_addr s' = client_addr s \<and>
     client_id s' = client_id s \<and> protocol_version s' = protocol_version s \<and>
     rx_size (rx (client_fd s')) \<le> rx_size (rx (client_fd s)) \<and>
     (Recv_silent \<in> set (rx (client_fd s')) \<longrightarrow> Recv_silent \<in> set (rx (client_fd s)))"

lemma same_service_trans: "same_service s t \<Longrightarrow> same_service t u \<Longrightarrow> same_service s u"
  by (simp add: same_service_def)

lemma same_service_refl: "same_service s s"
  by (simp add: same_service_def)

lemma protocol_version_send_message [simp]: "protocol_version (send_message ty b s) = protocol_version s"
  by (simp add: send_message_def)

lemma same_service_send: "same_service s (send_message ty b s)"
  by (simp add: same_service_def)

lemma same_service_clock: "same_service s (snd (clock_now s))"
  by (simp add: same_service_def clock_now_def split: list.split)

lemma same_service_progress: "same_service s (report_progress cd start s)"
  using same_service_clock [of s] same_service_send [of "snd (clock_now s)"]
  by (auto simp: report_progress_def Let_def split_beta send_progress_def intro: same_service_trans)

lemma same_service_read:
  assumes "read_frame grant (client_fd s) = (r, fd)"
  shows "same_service s (s\<lparr>client_fd := fd\<rparr>)"
  using read_frame_le [OF assms] read_frame_closes [OF assms] by (auto simp: same_service_def peer_closes_def)

text \<open>A reflexive and transitive relation that every round of the upload loop respects relates its ends.\<close>

lemma upload_loop_relates:
  assumes "upload_loop cd grant start s = (r, s')"
    and refl: "\<And>s. R s s" and trans: "\<And>s t u. R s t \<Longrightarrow> R t u \<Longrightarrow> R s u"
    and read: "\<And>s a fd. read_frame grant (client_fd s) = (a, fd) \<Longrightarrow> R s (s\<lparr>client_fd := fd\<rparr>)"
    and buffer: "\<And>s d u. insert_data grant d (upload_state s) = Inr u \<Longrightarrow>
      R s (s\<lparr>upload_state := u\<lparr>up_received := up_received u + word_of_nat (length d)\<rparr>\<rparr>)"
    and progress: "\<And>s. R s (report_progress cd start s)" and lost: "\<And>s code m. R s (send_error cd code m s)"
  shows "R s s'"
  using assms(1)
proof (induction cd\<equiv>cd grant\<equiv>grant start\<equiv>start s arbitrary: r s' rule: upload_loop.induct)
  case (1 s)
  show ?case
  proof (cases "up_received (upload_state s) < up_total_size (upload_state s)")
    case False
    then show ?thesis using "1.prems" by (simp add: upload_loop.simps [of cd grant start s] refl)
  next
    case True
    obtain a fd where rd: "read_frame grant (client_fd s) = (a, fd)" by fastforce
    note got = read [OF rd]
    consider (stop) e where "a = Inl e" | (gone) "a = Inr None" | (frame) f where "a = Inr (Some f)"
      by (metis old.sum.exhaust option.exhaust)
    then show ?thesis
    proof cases
      case frame
      show ?thesis
      proof (cases "message_type f = MSG_RAW_DATA")
        case raw: True
        show ?thesis
        proof (cases "insert_data grant (payload f) (upload_state s)")
          case (Inl e)
          then show ?thesis
            using "1.prems" True rd frame raw got by (auto simp: upload_loop.simps [of cd grant start s])
        next
          case (Inr u)
          let ?s1 = "s\<lparr>client_fd := fd, upload_state := u\<lparr>up_received := up_received u + word_of_nat (length (payload f))\<rparr>\<rparr>"
          have "R (report_progress cd start ?s1) s'"
            using "1.hyps"(1) [OF True rd [symmetric] frame _ raw Inr] "1.prems" True rd frame raw Inr
            by (simp add: upload_loop.simps [of cd grant start s])
          moreover have "R s ?s1" using trans [OF got buffer [of "payload f" "s\<lparr>client_fd := fd\<rparr>"]] Inr by simp
          ultimately show ?thesis using trans progress by blast
        qed
      next
        case other: False
        then have "R (s\<lparr>client_fd := fd\<rparr>) s'"
          using "1.hyps"(2) [OF True rd [symmetric] frame _ other] "1.prems" True rd frame
          by (simp add: upload_loop.simps [of cd grant start s])
        then show ?thesis by (rule trans [OF got])
      qed
    qed (use "1.prems" True rd got trans [OF got lost] in \<open>auto simp: upload_loop.simps [of cd grant start s]\<close>)
  qed
qed

lemma same_service_upload:
  assumes "upload_loop cd grant start s = (r, s')"
  shows "same_service s s'"
proof (rule upload_loop_relates [OF assms])
  show "same_service s (s\<lparr>upload_state := u\<lparr>up_received := n\<rparr>\<rparr>)" for s n u by (simp add: same_service_def)
  show "same_service s (send_error cd code m s)" for s code m by (simp add: send_error_def same_service_send)
qed (blast intro: same_service_refl same_service_trans same_service_read same_service_progress)+

text \<open>What every handler keeps, whether it returns or throws.\<close>

definition keeps :: "Session \<Rightarrow> Session \<Rightarrow> bool" where
  "keeps s s' \<longleftrightarrow>
     file_root s' = file_root s \<and> negotiator s' = negotiator s \<and>
     ds_storage_root (delta_sync_handler s') = ds_storage_root (delta_sync_handler s) \<and>
     ds_block_size (delta_sync_handler s') = ds_block_size (delta_sync_handler s) \<and>
     shutdown_requested s' = shutdown_requested s \<and>
     (negotiated_block_size s' = negotiated_block_size s \<or>
       4096 \<le> negotiated_block_size s' \<and> negotiated_block_size s' \<le> 1048576) \<and>
     (\<forall>m. sound_storage m (disk s) \<longrightarrow> sound_storage m (disk s')) \<and>
     rx_size (rx (client_fd s')) \<le> rx_size (rx (client_fd s)) \<and>
     (Recv_silent \<in> set (rx (client_fd s')) \<longrightarrow> Recv_silent \<in> set (rx (client_fd s)))"

lemma same_service_keeps: "same_service s s' \<Longrightarrow> keeps s s'"
  by (simp add: same_service_def keeps_def)

text \<open>After a handler that returned, no lock is held and the state is READY, or it is what it was.\<close>

definition settled :: "Session \<Rightarrow> unit result \<times> Session \<Rightarrow> bool" where
  "settled s = (\<lambda>(r, s'). keeps s s' \<and>
     (r = Inr () \<longrightarrow> quiet (file_mutex s') \<and> (sess_state s' = READY \<or> sess_state s' = sess_state s)))"

lemma settled_send: "quiet (file_mutex s) \<Longrightarrow> settled s (Inr (), send_message ty b s)"
  by (simp add: settled_def same_service_keeps same_service_send)

lemma settled_hello: "quiet (file_mutex s) \<Longrightarrow> settled s (handle_client_hello cd msg s)"
  by (auto simp: handle_client_hello_def Let_def send_error_def settled_send settled_def keeps_def split: option.split)

lemma settled_negotiation: "quiet (file_mutex s) \<Longrightarrow> settled s (handle_negotiation_request cd msg s)"
  by (auto simp: handle_negotiation_request_def Let_def send_error_def settled_send settled_def keeps_def split: option.split sum.split)

lemma settled_listing: "quiet (file_mutex s) \<Longrightarrow> settled s (handle_list_files_request cd msg s)"
  by (auto simp: handle_list_files_request_def Let_def send_error_def settled_send settled_def keeps_def split: option.split sum.split)

lemma settled_signatures: "quiet (file_mutex s) \<Longrightarrow> settled s (handle_delta_sync_signature_request cd grant msg s)"
  using handle_signature_request_quiet [of "file_mutex s" "delta_sync_handler s" grant "disk s"]
  by (auto simp: handle_delta_sync_signature_request_def Let_def send_error_def settled_send settled_def keeps_def
      split: option.split sum.split prod.split)


lemma settled_block: "quiet (file_mutex s) \<Longrightarrow> settled s (handle_delta_sync_block_data cd msg s)"
proof (cases "parse_DeltaSyncBlockData cd msg (int_size msg)")
  case (Some req)
  assume q: "quiet (file_mutex s)"
  let ?fin = "length (bd_data req) < unat (negotiated_block_size s)"
  obtain r fs locks h where d: "handle_block_data (delta_sync_handler s) (disk s) (file_mutex s)
      (bd_relative_path req) (bd_block_index req) (bd_block_offset req) (bd_data req) (bd_strong_hash req) ?fin = (r, fs, locks, h)"
    by (metis prod_cases4)
  have kept: "sound_storage m (disk s) \<Longrightarrow> sound_storage m fs" "ds_storage_root h = ds_storage_root (delta_sync_handler s)"
    "ds_block_size h = ds_block_size (delta_sync_handler s)" "r = Inr st \<Longrightarrow> quiet locks" for m st
    using handle_block_data_keeps [OF d q] by simp_all
  show ?thesis
    using Some d kept
    by (auto simp: handle_delta_sync_block_data_def Let_def block_completion_def settled_def keeps_def
        split: sum.split)
qed (simp add: handle_delta_sync_block_data_def send_error_def settled_send)

lemma save_upload_disk:
  assumes "save_upload cd s = (r, s')"
  obtains (same) "s' = s"
  | (staged) ok fs1 where "write_file_atomic (file_root s) (disk s) (up_relative_path (upload_state s)) (up_buffer (upload_state s)) = Inr (ok, fs1)"
      "s' = s\<lparr>disk := fs1\<rparr> \<or> s' = send_error cd STATUS_ERROR ''Failed to save uploaded file'' (s\<lparr>disk := fs1\<rparr>)"
  | (renamed) ok fs1 moved fs2 where "write_file_atomic (file_root s) (disk s) (up_relative_path (upload_state s)) (up_buffer (upload_state s)) = Inr (ok, fs1)"
      "atomic_rename_tmp (file_root s) fs1 (up_relative_path (upload_state s)) = Inr (moved, fs2)" "s' = s\<lparr>disk := fs2\<rparr>"
proof (cases "up_received (upload_state s) = up_total_size (upload_state s)")
  case True
  show ?thesis
  proof (cases "write_file_atomic (file_root s) (disk s) (up_relative_path (upload_state s)) (up_buffer (upload_state s))")
    case (Inl e)
    then have "s' = s" using assms True by (simp add: save_upload_def Let_def)
    then show ?thesis by (rule same)
  next
    case (Inr w)
    obtain ok fs1 where w: "w = (ok, fs1)" by (cases w)
    show ?thesis
    proof (cases "atomic_rename_tmp (file_root s) fs1 (up_relative_path (upload_state s))")
      case (Inl e)
      then have "s' = s\<lparr>disk := fs1\<rparr> \<or> s' = send_error cd STATUS_ERROR ''Failed to save uploaded file'' (s\<lparr>disk := fs1\<rparr>)"
        using assms True Inr w by (auto simp: save_upload_def Let_def split: if_splits)
      then show ?thesis by (rule staged [OF Inr [unfolded w]])
    next
      case mv: (Inr mv)
      obtain moved fs2 where m: "mv = (moved, fs2)" by (cases mv)
      then have "s' = s\<lparr>disk := fs2\<rparr> \<or> s' = send_error cd STATUS_ERROR ''Failed to save uploaded file'' (s\<lparr>disk := fs1\<rparr>)"
        using assms True Inr w mv by (auto simp: save_upload_def Let_def split: if_splits)
      then show ?thesis
        using staged [OF Inr [unfolded w]] renamed [OF Inr [unfolded w] mv [unfolded m]] by blast
    qed
  qed
next
  case False
  then have "s' = s" using assms by (simp add: save_upload_def Let_def)
  then show ?thesis by (rule same)
qed

lemma save_upload_sound:
  assumes "save_upload cd s = (r, s')" and "sound_storage m (disk s)"
  shows "sound_storage m (disk s')"
  using assms(1)
proof (cases rule: save_upload_disk)
  case (staged ok fs1)
  then show ?thesis using sound_write_file [OF assms(2) staged(1)] by (auto simp: send_error_def)
next
  case (renamed ok fs1 moved fs2)
  then show ?thesis using sound_rename [OF sound_write_file [OF assms(2) renamed(1)] renamed(2)] by simp
qed (use assms(2) in simp)

lemma save_upload_keeps:
  assumes "save_upload cd s = (r, s')"
  shows "keeps s s' \<and> file_mutex s' = file_mutex s \<and> sess_state s' = sess_state s"
  using assms save_upload_sound [OF assms]
  by (cases rule: save_upload_disk) (auto simp: keeps_def send_error_def)

lemma keeps_trans: "keeps s t \<Longrightarrow> keeps t u \<Longrightarrow> keeps s u"
  by (auto simp: keeps_def)

lemma settled_upload: "quiet (file_mutex s) \<Longrightarrow> settled s (handle_zero_copy_upload_request cd grant msg s)"
proof (cases "parse_ZeroCopyUploadRequest cd msg (int_size msg)")
  case (Some req)
  assume q: "quiet (file_mutex s)"
  let ?u = "(upload_state s)\<lparr>up_relative_path := md_relative_path (ur_metadata req),
     up_total_size := md_file_size (ur_metadata req), up_received := 0,
     up_expected_sha256 := md_sha256_hash (ur_metadata req), up_buffer := []\<rparr>"
  show ?thesis
  proof (cases "reserve_buffer grant (unat (md_file_size (ur_metadata req))) ?u")
    case (Inl e)
    then show ?thesis using Some
      by (simp add: handle_zero_copy_upload_request_def Let_def settled_def keeps_def)
  next
    case (Inr u1)
    let ?s2 = "send_message MSG_ZERO_COPY_UPLOAD_ACK (ser_ZeroCopyUploadAck cd
        \<lparr>ua_status = STATUS_OK, ua_error_message = [], ua_offset = 0\<rparr>) (s\<lparr>upload_state := u1, sess_state := TRANSFERRING\<rparr>)"
    obtain start s3 where c: "clock_now ?s2 = (start, s3)" by fastforce
    obtain r4 s4 where up: "upload_loop cd grant start s3 = (r4, s4)" by fastforce
    obtain r5 s5 where sv: "save_upload cd s4 = (r5, s5)" by fastforce
    have "same_service ?s2 s4"
      using same_service_clock [of ?s2] same_service_upload [OF up] c by (auto intro: same_service_trans)
    moreover have "keeps s ?s2" "file_mutex ?s2 = file_mutex s" by (simp_all add: keeps_def)
    ultimately have s4: "keeps s s4" "file_mutex s4 = file_mutex s"
      using keeps_trans [OF _ same_service_keeps] by (simp_all add: same_service_def)
    have s5: "keeps s s5" "file_mutex s5 = file_mutex s"
      using save_upload_keeps [OF sv] s4 by (auto intro: keeps_trans)
    then have "keeps s (s5\<lparr>sess_state := READY\<rparr>)" by (simp add: keeps_def)
    then show ?thesis
      using Some Inr c up sv s4 s5 q
      by (auto simp: handle_zero_copy_upload_request_def Let_def settled_def split: sum.split)
  qed
qed (simp add: handle_zero_copy_upload_request_def send_error_def settled_send)

lemma settled_download:
  assumes "quiet (file_mutex s)" and "sound_storage m (disk s)" and "m < 2 ^ 63"
  shows "case handle_zero_copy_download_request cd msg s of None \<Rightarrow> False | Some res \<Rightarrow> settled s res"
proof (cases "parse_ZeroCopyDownloadRequest cd msg (int_size msg)")
  case (Some req)
  have "\<forall>k c. file_at (disk s) k = Some c \<longrightarrow> length c < 2 ^ 63"
    using files_bounded_at [of "disk s"] assms(2,3) by (fastforce simp: sound_storage_def)
  from send_file_returns [OF this, of cd "file_root s" "dr_relative_path req" "dr_offset req" "client_fd s"]
  obtain r fd where "send_file cd (file_root s) (disk s) (dr_relative_path req) (dr_offset req) (client_fd s) = Some (r, fd)"
    "rx fd = rx (client_fd s)"
    by blast
  then show ?thesis
    using Some assms(1)
    by (cases r) (auto simp: handle_zero_copy_download_request_def Let_def settled_def keeps_def send_error_def)
qed (use assms(1) in \<open>simp add: handle_zero_copy_download_request_def send_error_def settled_send\<close>)

lemma dispatch_settled:
  assumes "quiet (file_mutex s)" and "sound_storage m (disk s)" and "m < 2 ^ 63"
  obtains res where "dispatch cd grant f s = Some res" "settled s res"
proof -
  have "case dispatch cd grant f s of None \<Rightarrow> False | Some res \<Rightarrow> settled s res"
    using settled_download [OF assms, of cd "payload f"] assms(1)
    by (simp add: dispatch_def Let_def settled_hello settled_negotiation settled_upload settled_signatures
        settled_block settled_listing settled_send send_error_def)
  with that show ?thesis by (auto split: option.splits)
qed

text \<open>The invariant of a session between two messages.\<close>

definition session_inv :: "Session \<Rightarrow> bool" where
  "session_inv s \<longleftrightarrow>
     (sess_state s = AWAITING_HELLO \<or> sess_state s = READY) \<and> \<not> shutdown_requested s \<and>
     ng_storage_root (negotiator s) = file_root s \<and> ds_storage_root (delta_sync_handler s) = file_root s \<and>
     ng_block_size (negotiator s) = ds_block_size (delta_sync_handler s) \<and>
     (negotiated_block_size s = ds_block_size (delta_sync_handler s) \<or>
       4096 \<le> negotiated_block_size s \<and> negotiated_block_size s \<le> 1048576) \<and>
     quiet (file_mutex s) \<and> sound_storage (max_file (disk s)) (disk s) \<and> max_file (disk s) < 2 ^ 63"

lemma session_inv_settled:
  assumes "session_inv s" and "settled s (Inr (), s')"
  shows "session_inv s'"
proof -
  have "max_file (disk s') = max_file (disk s)" "sound_storage (max_file (disk s)) (disk s')"
    using assms by (auto simp: session_inv_def settled_def keeps_def sound_storage_def)
  then show ?thesis using assms by (auto simp: session_inv_def settled_def keeps_def)
qed

lemma session_inv_receive:
  assumes "session_inv s" and "read_frame grant (client_fd s) = (r, fd)"
  shows "session_inv (s\<lparr>client_fd := fd\<rparr>)"
  using assms by (simp add: session_inv_def)

text \<open>One turn of the event loop that goes on to the next.\<close>

inductive session_step :: "codec \<Rightarrow> nat \<Rightarrow> Session \<Rightarrow> Session \<Rightarrow> bool" for cd grant where
  turn: "\<lbrakk>\<not> shutdown_requested s; sess_state s \<noteq> DISCONNECTED;
      read_frame grant (client_fd s) = (Inr (Some frame), fd);
      dispatch cd grant frame (s\<lparr>client_fd := fd\<rparr>) = Some (Inr (), s')\<rbrakk>
    \<Longrightarrow> session_step cd grant s s'"

inductive_cases session_stepE: "session_step cd grant s s'"

definition session_start :: "Session \<Rightarrow> bool" where
  "session_start s \<longleftrightarrow> (\<exists>fd addr root' fs locks steps block_size.
     s = Session_init fd addr root' fs locks steps block_size \<and> quiet locks \<and>
     storage_wf fs \<and> files_bounded fs \<and> max_file fs < 2 ^ 63)"

lemma session_step_inv:
  assumes "session_inv s" and "session_step cd grant s s'"
  shows "session_inv s'"
  using assms(2)
proof (rule session_stepE)
  fix frame fd
  assume rd: "read_frame grant (client_fd s) = (Inr (Some frame), fd)"
    and d: "dispatch cd grant frame (s\<lparr>client_fd := fd\<rparr>) = Some (Inr (), s')"
  have inv: "session_inv (s\<lparr>client_fd := fd\<rparr>)" by (rule session_inv_receive [OF assms(1) rd])
  then have "settled (s\<lparr>client_fd := fd\<rparr>) (Inr (), s')"
    using dispatch_settled [of "s\<lparr>client_fd := fd\<rparr>" "max_file (disk s)" cd grant frame] d
    by (simp add: session_inv_def)
  with inv show ?thesis by (rule session_inv_settled)
qed

interpretation session_loop: transition_system session_start "session_step cd grant" session_inv for cd grant
proof
  show "session_inv s" if "session_start s" for s
    using that by (auto simp: session_start_def session_inv_def Session_init_def DeltaSyncHandler_init_def sound_storage_def)
qed (rule session_step_inv)

text \<open>
  A reflexive and transitive relation that reading, disconnecting and every message respect relates the
  two ends of a session.
\<close>

lemma run_relates:
  assumes "session_inv s" and "run cd grant s = Some (r, s')"
    and refl: "\<And>s. R s s" and trans: "\<And>s t u. R s t \<Longrightarrow> R t u \<Longrightarrow> R s u"
    and read: "\<And>s a fd. read_frame grant (client_fd s) = (a, fd) \<Longrightarrow> R s (s\<lparr>client_fd := fd\<rparr>)"
    and gone: "\<And>s. R s (s\<lparr>sess_state := DISCONNECTED\<rparr>)"
    and turn: "\<And>s f r s'. session_inv s \<Longrightarrow> dispatch cd grant f s = Some (r, s') \<Longrightarrow> R s s'"
  shows "R s s'"
  using assms(1,2)
proof (induction "rx_size (rx (client_fd s))" arbitrary: s rule: less_induct)
  case less
  have on: "\<not> shutdown_requested s" "sess_state s \<noteq> DISCONNECTED" using less.prems(1) by (auto simp: session_inv_def)
  obtain a fd where rd: "read_frame grant (client_fd s) = (a, fd)" by fastforce
  note got = read [OF rd]
  show ?case
  proof (cases "\<exists>f. a = Inr (Some f)")
    case False
    then have "s' = s\<lparr>client_fd := fd\<rparr> \<or> s' = s\<lparr>client_fd := fd, sess_state := DISCONNECTED\<rparr>"
      using less.prems(2) on rd by (subst (asm) run.simps) (auto split: sum.splits option.splits)
    then show ?thesis using got trans [OF got gone] by auto
  next
    case True
    then obtain f where f: "a = Inr (Some f)" ..
    let ?s1 = "s\<lparr>client_fd := fd\<rparr>"
    have inv: "session_inv ?s1" by (rule session_inv_receive [OF less.prems(1) rd])
    then obtain r1 s2 where d: "dispatch cd grant f ?s1 = Some (r1, s2)" "settled ?s1 (r1, s2)"
      using dispatch_settled [of ?s1 "max_file (disk s)" cd grant f] by (simp add: session_inv_def) (metis prod.exhaust)
    note s2 = trans [OF got turn [OF inv d(1)]]
    show ?thesis
    proof (cases r1)
      case (Inl e)
      then show ?thesis using less.prems(2) on rd f d(1) s2 by (subst (asm) run.simps) simp
    next
      case (Inr u)
      have "rx_size (rx (client_fd s2)) < rx_size (rx (client_fd s))"
        using d(2) read_frame_progress [OF rd [unfolded f]] by (auto simp: settled_def keeps_def)
      moreover have "session_inv s2" using session_inv_settled [OF inv] d(2) Inr by simp
      moreover have "run cd grant s2 = Some (r, s')" using less.prems(2) on rd f d(1) Inr by (subst (asm) run.simps) simp
      ultimately show ?thesis using less.hyps trans [OF s2] by blast
    qed
  qed
qed

text \<open>Frames with a known type and a body the codec understands.\<close>

definition parses :: "codec \<Rightarrow> WireFrame \<Rightarrow> bool" where
  "parses cd f =
     (let ty = message_type f; msg = payload f; n = int_size msg in
      if ty = MSG_CLIENT_HELLO then parse_ClientHello cd msg n \<noteq> None
      else if ty = MSG_NEGOTIATION_REQUEST then parse_NegotiationRequest cd msg n \<noteq> None
      else if ty = MSG_ZERO_COPY_DOWNLOAD_REQUEST then parse_ZeroCopyDownloadRequest cd msg n \<noteq> None
      else if ty = MSG_ZERO_COPY_UPLOAD_REQUEST then parse_ZeroCopyUploadRequest cd msg n \<noteq> None
      else if ty = MSG_DELTA_SYNC_SIGNATURE_REQUEST then parse_DeltaSyncSignatureRequest cd msg n \<noteq> None
      else if ty = MSG_DELTA_SYNC_BLOCK_DATA then parse_DeltaSyncBlockData cd msg n \<noteq> None
      else if ty = MSG_LIST_FILES_REQUEST then parse_ListFilesRequest cd msg n \<noteq> None
      else False)"

lemma dispatch_unparsed:
  assumes "\<not> parses cd f"
  shows "\<exists>m. dispatch cd grant f s = Some (Inr (), send_error cd PROTOCOL_ERROR m s)"
proof (cases "message_type f \<in> {MSG_CLIENT_HELLO, MSG_NEGOTIATION_REQUEST, MSG_ZERO_COPY_DOWNLOAD_REQUEST,
    MSG_ZERO_COPY_UPLOAD_REQUEST, MSG_DELTA_SYNC_SIGNATURE_REQUEST, MSG_DELTA_SYNC_BLOCK_DATA, MSG_LIST_FILES_REQUEST}")
  case True
  then show ?thesis
    using assms
    by (auto simp: parses_def dispatch_def Let_def handle_client_hello_def handle_negotiation_request_def
        handle_zero_copy_download_request_def handle_zero_copy_upload_request_def
        handle_delta_sync_signature_request_def handle_delta_sync_block_data_def handle_list_files_request_def)
next
  case False
  then show ?thesis by (auto simp: dispatch_def Let_def)
qed

section \<open>Waiting for the peer\<close>

text \<open>Only a read from the socket waits for the peer: no operation on files or locks does.\<close>

lemma resolve_never_waits [never_waits]:
  "resolve_path r p \<noteq> Inl Waits_for_peer" "drain_stream x \<noteq> Inl Waits_for_peer" "vector_alloc grant n \<noteq> Inl Waits_for_peer"
  by (auto simp: resolve_path_def vector_alloc_def Let_def) (cases x; simp)

lemma files_never_wait [never_waits]:
  "tmp_path_for r p \<noteq> Inl Waits_for_peer" "file_exists r fs p \<noteq> Inl Waits_for_peer"
  "get_file_size r fs p \<noteq> Inl Waits_for_peer" "get_last_modified_ns r fs p \<noteq> Inl Waits_for_peer"
  "compute_sha256 r fs p \<noteq> Inl Waits_for_peer" "ensure_parent_dirs r fs p \<noteq> Inl Waits_for_peer"
  "read_block r grant fs p offset sz \<noteq> Inl Waits_for_peer" "blocks_for n b \<noteq> Inl Waits_for_peer"
  by (auto simp: never_waits tmp_path_for_def file_exists_def ensure_parent_dirs_def get_file_size_def get_last_modified_ns_def
      compute_sha256_def read_block_def blocks_for_def fs_file_size_def fs_last_write_time_def bind_result_Inl_iff
      split: if_splits option.splits node.splits)

lemma operations_never_wait [never_waits]:
  "get_file_info r fs p \<noteq> Inl Waits_for_peer" "write_file_atomic r fs p data \<noteq> Inl Waits_for_peer"
  "write_block_atomic r fs p offset data \<noteq> Inl Waits_for_peer" "atomic_rename_tmp r fs p \<noteq> Inl Waits_for_peer"
  "list_entry r fs f recursive k content \<noteq> Inl Waits_for_peer" "block_needed h grant fs p sz bs sigs i \<noteq> Inl Waits_for_peer"
  by (auto simp: never_waits get_file_info_def write_file_atomic_def write_block_atomic_def atomic_rename_tmp_def list_entry_def
      block_needed_def bind_result_Inl_iff Let_def split: if_splits option.splits)

lemma loops_never_wait [never_waits]:
  "list_entries r fs f recursive es \<noteq> Inl Waits_for_peer" "needed_blocks h grant fs p sz bs sigs is \<noteq> Inl Waits_for_peer"
proof -
  show "list_entries r fs f recursive es \<noteq> Inl Waits_for_peer"
    by (induction r fs f recursive es rule: list_entries.induct) (auto simp: never_waits bind_result_Inl_iff split: if_splits node.splits)
  show "needed_blocks h grant fs p sz bs sigs is \<noteq> Inl Waits_for_peer"
    by (induction "is") (auto simp: never_waits bind_result_Inl_iff)
qed

lemma handlers_never_wait [never_waits]:
  "list_files r fs f recursive \<noteq> Inl Waits_for_peer" "negotiate ng fs p sz t h \<noteq> Inl Waits_for_peer"
  "fst (acquire_read p locks) \<noteq> Inl Waits_for_peer" "fst (acquire_write p locks) \<noteq> Inl Waits_for_peer"
  "fst (finalize_file dh fs p) \<noteq> Inl Waits_for_peer" "insert_data grant data u \<noteq> Inl Waits_for_peer"
  "reserve_buffer grant n u \<noteq> Inl Waits_for_peer"
  by (auto simp: never_waits list_files_def negotiate_def acquire_read_def acquire_write_def finalize_file_def insert_data_def
      reserve_buffer_def bind_result_Inl_iff Let_def split: if_splits option.splits node.splits sum.splits prod.splits)

lemma block_handlers_never_wait [never_waits]:
  "fst (handle_signature_request dh grant fs locks p sz bs sigs) \<noteq> Inl Waits_for_peer"
  "fst (handle_block_data dh fs locks p i offset data strong fin) \<noteq> Inl Waits_for_peer"
proof -
  show "fst (handle_signature_request dh grant fs locks p sz bs sigs) \<noteq> Inl Waits_for_peer"
    by (auto simp: handle_signature_request_def bind_result_Inl_iff Let_def split: sum.splits prod.splits) (metis fst_conv never_waits)+
  show "fst (handle_block_data dh fs locks p i offset data strong fin) \<noteq> Inl Waits_for_peer"
    by (auto simp: handle_block_data_def Let_def split: sum.splits prod.splits) (metis fst_conv never_waits)+
qed

lemma block_results_never_wait [never_waits]:
  "handle_signature_request dh grant fs locks p sz bs sigs \<noteq> (Inl Waits_for_peer, x)"
  "handle_block_data dh fs locks p i offset data strong fin \<noteq> (Inl Waits_for_peer, y)"
  using block_handlers_never_wait by (metis fst_conv)+

lemma send_file_never_waits [never_waits]: "send_file cd r fs p offset fd \<noteq> Some (Inl Waits_for_peer, fd')"
  by (auto simp: never_waits send_file_def send_file_announce_def Let_def
      split: if_splits sum.splits prod.splits option.splits node.splits)

lemma upload_loop_waits:
  assumes "upload_loop cd grant start s = (Inl Waits_for_peer, s')"
  shows "\<not> peer_closes (client_fd s)"
  using assms
proof (induction cd\<equiv>cd grant\<equiv>grant start\<equiv>start s rule: upload_loop.induct)
  case (1 s)
  have more: "up_received (upload_state s) < up_total_size (upload_state s)"
    using "1.prems" by (rule_tac ccontr) (simp add: upload_loop.simps [of cd grant start s])
  obtain a fd where rd: "read_frame grant (client_fd s) = (a, fd)" by fastforce
  note step = "1.prems" [unfolded upload_loop.simps [of cd grant start s]] and closes = read_frame_closes [OF rd]
  consider (stop) e where "a = Inl e" | (gone) "a = Inr None" | (frame) f where "a = Inr (Some f)"
    by (metis old.sum.exhaust option.exhaust)
  then show ?case
  proof cases
    case stop
    then show ?thesis using step more rd read_frame_waits [of grant "client_fd s" fd] by auto
  next
    case frame
    show ?thesis
    proof (cases "message_type f = MSG_RAW_DATA")
      case raw: True
      then obtain u where u: "insert_data grant (payload f) (upload_state s) = Inr u"
        using step more rd frame by (auto simp: never_waits split: sum.splits)
      from "1.hyps"(1) [OF more rd [symmetric] frame refl raw u] step more rd frame raw u closes show ?thesis
        by (auto simp: peer_closes_def)
    next
      case other: False
      from "1.hyps"(2) [OF more rd [symmetric] frame refl other] step more rd frame closes other show ?thesis by auto
    qed
  qed (use step more rd in auto)
qed

lemma save_upload_never_waits [never_waits]: "save_upload cd s \<noteq> (Inl Waits_for_peer, s')"
  by (auto simp: never_waits save_upload_def Let_def split: if_splits sum.splits prod.splits)

lemma block_completion_never_waits [never_waits]: "block_completion cd p status s \<noteq> (Inl Waits_for_peer, s')"
  by (auto simp: never_waits block_completion_def Let_def split: if_splits sum.splits)

lemma upload_request_waits:
  assumes "handle_zero_copy_upload_request cd grant msg s = (Inl Waits_for_peer, s')"
  shows "\<not> peer_closes (client_fd s)"
proof -
  obtain req where req: "parse_ZeroCopyUploadRequest cd msg (int_size msg) = Some req"
    using assms by (auto simp: handle_zero_copy_upload_request_def split: option.splits)
  obtain u1 where u1: "reserve_buffer grant (unat (md_file_size (ur_metadata req)))
      ((upload_state s)\<lparr>up_relative_path := md_relative_path (ur_metadata req), up_total_size := md_file_size (ur_metadata req),
        up_received := 0, up_expected_sha256 := md_sha256_hash (ur_metadata req), up_buffer := []\<rparr>) = Inr u1"
    using assms req by (auto simp: never_waits handle_zero_copy_upload_request_def Let_def split: sum.splits)
  let ?s2 = "send_message MSG_ZERO_COPY_UPLOAD_ACK (ser_ZeroCopyUploadAck cd
      \<lparr>ua_status = STATUS_OK, ua_error_message = [], ua_offset = 0\<rparr>) (s\<lparr>upload_state := u1, sess_state := TRANSFERRING\<rparr>)"
  obtain start s3 where c: "clock_now ?s2 = (start, s3)" by fastforce
  obtain r4 s4 where up: "upload_loop cd grant start s3 = (r4, s4)" by fastforce
  have "r4 = Inl Waits_for_peer"
    using assms req u1 c up save_upload_never_waits [of cd s4]
    by (auto simp: handle_zero_copy_upload_request_def Let_def split: sum.splits prod.splits)
  then have "\<not> peer_closes (client_fd s3)" using upload_loop_waits up by simp
  moreover have "rx (client_fd s3) = rx (client_fd s)" using clock_now_simps [of ?s2] c by simp
  ultimately show ?thesis by (simp add: peer_closes_def)
qed

lemma dispatch_waits:
  assumes "dispatch cd grant f s = Some (Inl Waits_for_peer, s')"
  shows "\<not> peer_closes (client_fd s)"
proof (cases "message_type f = MSG_ZERO_COPY_UPLOAD_REQUEST")
  case True
  then show ?thesis using assms upload_request_waits by (simp add: dispatch_def)
next
  case False
  have sig: "handle_delta_sync_signature_request cd grant (payload f) s \<noteq> (Inl Waits_for_peer, s')"
    by (auto simp: never_waits handle_delta_sync_signature_request_def Let_def split: option.splits prod.splits sum.splits)
  have blk: "handle_delta_sync_block_data cd (payload f) s \<noteq> (Inl Waits_for_peer, s')"
    by (auto simp: never_waits handle_delta_sync_block_data_def Let_def split: option.splits prod.splits sum.splits if_splits)
  show ?thesis
    using assms False sig blk
    by (auto simp: never_waits dispatch_def handle_client_hello_def handle_negotiation_request_def handle_zero_copy_download_request_def
        handle_list_files_request_def Let_def split: if_splits option.splits sum.splits prod.splits)
qed

section \<open>Uploads\<close>

lemma concat_append_le: "d \<in> set ds \<Longrightarrow> length d \<le> length (concat ds)"
  by (induction ds) auto

text \<open>The raw-data frame of one chunk, as the client writes it.\<close>

definition raw_frame :: "byte list \<Rightarrow> byte list" where
  "raw_frame d = encode_raw_data_header (word_of_nat (length d)) @ d"

lemma upload_state_clock [simp]: "upload_state (snd (clock_now s)) = upload_state s"
  by (simp add: clock_now_def split: list.split)

lemma upload_state_report: "upload_state (report_progress cd start s) = upload_state s"
  by (simp add: report_progress_def Let_def split_beta send_progress_def)

lemma upload_loop_receives:
  assumes "rx_bytes (rx (client_fd s)) = concat (map raw_frame chunks) @ rest"
    and "\<forall>d \<in> set chunks. d \<noteq> [] \<and> length d < 2 ^ 32 \<and> length d \<le> grant"
    and "length (up_buffer (upload_state s)) + length (concat chunks) = unat (up_total_size (upload_state s))"
    and "up_received (upload_state s) = word_of_nat (length (up_buffer (upload_state s)))"
    and "unat (up_total_size (upload_state s)) \<le> up_capacity (upload_state s)"
  shows "\<exists>s'. upload_loop cd grant start s = (Inr (), s') \<and>
    upload_state s' = (upload_state s)\<lparr>up_received := up_total_size (upload_state s),
      up_buffer := up_buffer (upload_state s) @ concat chunks\<rparr> \<and>
    rx_bytes (rx (client_fd s')) = rest"
  using assms
proof (induction chunks arbitrary: s)
  case Nil
  then have "up_received (upload_state s) = up_total_size (upload_state s)" by simp
  then show ?case using Nil by (subst upload_loop.simps) simp
next
  case (Cons d chunks)
  let ?u = "upload_state s"
  have d: "d \<noteq> []" "length d < 2 ^ 32" "length d \<le> grant" using Cons.prems(2) by simp_all
  have lens: "unat (word_of_nat (length d) :: u64) = length d" using d(2) by (simp add: unat_of_nat)
  have recv: "unat (up_received ?u) = length (up_buffer ?u)"
    using Cons.prems(3,4) by (metis add_leD1 le_unat_uoi order.refl)
  have more: "up_received ?u < up_total_size ?u"
  proof -
    have "0 < length d" using d(1) by simp
    moreover have "length (up_buffer ?u) + (length d + length (concat chunks)) = unat (up_total_size ?u)"
      using Cons.prems(3) by simp
    ultimately show ?thesis using recv unfolding word_less_nat_alt by linarith
  qed
  have stream: "rx_bytes (rx (client_fd s)) =
      encode_raw_data_header (word_of_nat (length d)) @ d @ (concat (map raw_frame chunks) @ rest)"
    using Cons.prems(1) by (simp add: raw_frame_def [of d])
  obtain fd where rd: "read_frame grant (client_fd s) = (Inr (Some \<lparr>message_type = MSG_RAW_DATA, payload = d\<rparr>), fd)"
    and rest: "rx_bytes (rx fd) = concat (map raw_frame chunks) @ rest"
    using read_frame_raw [OF stream] lens d(2,3) by auto
  let ?u1 = "?u\<lparr>up_buffer := up_buffer ?u @ d\<rparr>"
  have ins: "insert_data grant d ?u = Inr ?u1"
    using Cons.prems(3,5) by (simp add: insert_data_def Let_def)
  let ?s1 = "s\<lparr>client_fd := fd, upload_state := ?u1\<lparr>up_received := up_received ?u + word_of_nat (length d)\<rparr>\<rparr>"
  let ?s2 = "report_progress cd start ?s1"
  have up2: "upload_state ?s2 = ?u1\<lparr>up_received := up_received ?u + word_of_nat (length d)\<rparr>"
    by (simp add: upload_state_report)
  obtain s' where s': "upload_loop cd grant start ?s2 = (Inr (), s')"
    "upload_state s' = (upload_state ?s2)\<lparr>up_received := up_total_size (upload_state ?s2),
      up_buffer := up_buffer (upload_state ?s2) @ concat chunks\<rparr>" "rx_bytes (rx (client_fd s')) = rest"
    using Cons.IH [of ?s2] Cons.prems rest unfolding up2 by auto
  moreover have "upload_loop cd grant start s = upload_loop cd grant start ?s2"
    using more rd ins by (subst upload_loop.simps) simp
  ultimately show ?case unfolding up2 by simp
qed

text \<open>The storage of a session in which a file can be published under a name.\<close>

definition accepts_upload :: "Session \<Rightarrow> nat \<Rightarrow> string \<Rightarrow> byte list \<Rightarrow> bool" where
  "accepts_upload s grant p content \<longleftrightarrow>
     plain_path p \<and> CHR 0x00 \<notin> set (file_root s) \<and> healthy (disk s) \<and> storage_wf (disk s) \<and>
     writable_place (file_root s) (disk s) p \<and> length content \<le> max_file (disk s) \<and>
     length content \<le> vector_max_size \<and> length content \<le> grant"

lemma reserve_buffer_ok:
  assumes "n \<le> vector_max_size" and "n \<le> grant"
  shows "\<exists>c. reserve_buffer grant n u = Inr (u\<lparr>up_capacity := c\<rparr>) \<and> n \<le> c"
proof (cases "n \<le> up_capacity u")
  case True
  then have "reserve_buffer grant n u = Inr (u\<lparr>up_capacity := up_capacity u\<rparr>)"
    using assms by (simp add: reserve_buffer_def)
  with True show ?thesis by blast
next
  case False
  then have "reserve_buffer grant n u = Inr (u\<lparr>up_capacity := n\<rparr>)"
    using assms by (simp add: reserve_buffer_def vector_alloc_def)
  then show ?thesis by blast
qed

lemma upload_spec:
  assumes ok: "accepts_upload s grant p (concat chunks)"
    and req: "parse_ZeroCopyUploadRequest cd msg (int_size msg) = Some \<lparr>ur_metadata = md\<rparr>"
      "md_relative_path md = p" "md_file_size md = word_of_nat (length (concat chunks))"
    and stream: "rx_bytes (rx (client_fd s)) = concat (map raw_frame chunks) @ rest"
      "\<forall>d \<in> set chunks. d \<noteq> [] \<and> length d < 2 ^ 32"
  obtains s' where "handle_zero_copy_upload_request cd grant msg s = (Inr (), s')"
    "sess_state s' = READY" "rx_bytes (rx (client_fd s')) = rest" "file_root s' = file_root s"
    "storage_wf (disk s')" "cwd (disk s') = cwd (disk s)" "no_read (disk s') = []"
    "\<forall>k. file_at (disk s') k = (if k = target_key (file_root s) (disk s) p then Some (concat chunks)
       else if k = temp_key (file_root s) (disk s) p then None else file_at (disk s) k)"
proof -
  let ?n = "length (concat chunks)"
  note ok' = ok [unfolded accepts_upload_def]
  have n: "unat (md_file_size md) = ?n"
    using ok' req(3) by (simp add: unat_of_nat vector_max_size_def)
  have chunks: "\<forall>d \<in> set chunks. d \<noteq> [] \<and> length d < 2 ^ 32 \<and> length d \<le> grant"
  proof
    fix d assume d: "d \<in> set chunks"
    then have "length d \<le> ?n" by (metis concat_append_le)
    then show "d \<noteq> [] \<and> length d < 2 ^ 32 \<and> length d \<le> grant" using d stream(2) ok' by auto
  qed
  let ?u = "(upload_state s)\<lparr>up_relative_path := md_relative_path md, up_total_size := md_file_size md,
     up_received := 0, up_expected_sha256 := md_sha256_hash md, up_buffer := []\<rparr>"
  obtain c where c: "reserve_buffer grant (unat (md_file_size md)) ?u = Inr (?u\<lparr>up_capacity := c\<rparr>)" "?n \<le> c"
    using reserve_buffer_ok [of ?n grant ?u] ok' n by auto
  define u1 where "u1 = ?u\<lparr>up_capacity := c\<rparr>"
  have u1: "reserve_buffer grant (unat (md_file_size md)) ?u = Inr u1" "?n \<le> up_capacity u1"
    using c by (simp_all add: u1_def)
  let ?s2 = "send_message MSG_ZERO_COPY_UPLOAD_ACK (ser_ZeroCopyUploadAck cd
        \<lparr>ua_status = STATUS_OK, ua_error_message = [], ua_offset = 0\<rparr>) (s\<lparr>upload_state := u1, sess_state := TRANSFERRING\<rparr>)"
  obtain start s3 where clk: "clock_now ?s2 = (start, s3)" by fastforce
  have s3: "same_service ?s2 s3" "upload_state s3 = u1" "client_fd s3 = client_fd ?s2"
    using same_service_clock [of ?s2] clk upload_state_clock [of ?s2] clock_now_simps [of ?s2] by simp_all
  have u3: "up_relative_path u1 = p" "up_total_size u1 = md_file_size md" "up_received u1 = 0" "up_buffer u1 = []"
    using req(2) by (simp_all add: u1_def)
  obtain s4 where s4: "upload_loop cd grant start s3 = (Inr (), s4)"
    "upload_state s4 = u1\<lparr>up_received := md_file_size md, up_buffer := concat chunks\<rparr>" "rx_bytes (rx (client_fd s4)) = rest"
    using upload_loop_receives [of s3 chunks rest grant cd start] stream(1) chunks s3(2,3) u1(2) u3 n by auto
  have same: "file_root s4 = file_root s" "disk s4 = disk s"
    using s3(1) same_service_upload [OF s4(1)] by (simp_all add: same_service_def)
  obtain fs1 fs2 where pub: "write_file_atomic (file_root s) (disk s) p (concat chunks) = Inr (True, fs1)"
    "atomic_rename_tmp (file_root s) fs1 p = Inr (True, fs2)" "storage_wf fs2" "cwd fs2 = cwd (disk s)" "no_read fs2 = []"
    "\<forall>k. file_at fs2 k = (if k = target_key (file_root s) (disk s) p then Some (concat chunks)
       else if k = temp_key (file_root s) (disk s) p then None else file_at (disk s) k)"
    using publish_spec [of p "file_root s" "disk s" "concat chunks"] ok' by blast
  have "save_upload cd s4 = (Inr (), s4\<lparr>disk := fs2\<rparr>)"
    using pub(1,2) same s4(2) u3 by (simp add: save_upload_def Let_def)
  then have "handle_zero_copy_upload_request cd grant msg s = (Inr (), s4\<lparr>disk := fs2, sess_state := READY\<rparr>)"
    using req(1) u1(1) clk s4(1) by (simp add: handle_zero_copy_upload_request_def Let_def)
  then show ?thesis
    by (rule that) (use pub s4(3) same in simp_all)
qed

section \<open>Claims about a session\<close>

text \<open>A session on the example storage, with the given input.\<close>

definition demo_session :: "recv_event list \<Rightarrow> Session" where
  "demo_session evs = Session_init \<lparr>rx = evs, tx_plan = [], tx = []\<rparr> ''10.0.0.7:4242'' ''./data'' demo_storage
     FileMutex_init [] 65536"

lemma demo_session_simps [simp]:
  "client_fd (demo_session evs) = \<lparr>rx = evs, tx_plan = [], tx = []\<rparr>" "disk (demo_session evs) = demo_storage"
  "file_root (demo_session evs) = ''./data''" "negotiated_block_size (demo_session evs) = 65536"
  "delta_sync_handler (demo_session evs) = DeltaSyncHandler_init ''./data'' 65536"
  "shutdown_requested (demo_session evs) = False" "sess_state (demo_session evs) = AWAITING_HELLO"
  by (simp_all add: demo_session_def Session_init_def)

lemma demo_session_start: "session_start (demo_session evs)"
  unfolding session_start_def demo_session_def
  by (intro exI conjI) (rule refl | simp add: demo_storage_facts demo_storage_bounded)+

lemma send_message_ok:
  assumes "tx_ok (tx_plan (client_fd s))" and "length b < 2 ^ 32 - FRAME_HEADER_SIZE"
  obtains fd where "send_message ty b s = s\<lparr>client_fd := fd\<rparr>" "rx fd = rx (client_fd s)" "tx_ok (tx_plan fd)"
    "tx fd = tx (client_fd s) @ encode_frame \<lparr>message_type = ty, payload = b\<rparr>"
  using write_frame_ok [OF assms(1), of "\<lparr>message_type = ty, payload = b\<rparr>"] assms(2)
  by (auto simp: send_message_def)

lemma send_error_ok:
  assumes "tx_ok (tx_plan (client_fd s))" and "\<And>e. length (ser_ErrorPayload cd e) < 2 ^ 32 - FRAME_HEADER_SIZE"
  obtains fd where "send_error cd code m s = s\<lparr>client_fd := fd\<rparr>" "rx fd = rx (client_fd s)" "tx_ok (tx_plan fd)"
    "tx fd = tx (client_fd s) @ encode_frame \<lparr>message_type = MSG_ERROR,
      payload = ser_ErrorPayload cd \<lparr>er_code = code, er_message = m, er_detail = []\<rparr>\<rparr>"
  unfolding send_error_def by (rule send_message_ok [OF assms])

text \<open>The answer to a ClientHello.\<close>

definition hello_answer :: "u32 \<Rightarrow> ServerHello" where
  "hello_answer b = \<lparr>sh_protocol_version = 1, sh_server_id = ''adaptivesync-cpp-1.0'',
     sh_supported_modes = [ZERO_COPY, DELTA_SYNC], sh_max_concurrent_transfers = 10,
     sh_max_file_size = 0, sh_block_size = b\<rparr>"

lemma handshake_spec:
  assumes hello: "parse_ClientHello cd msg (int_size msg) = Some hello"
    and sock: "tx_ok (tx_plan (client_fd s))"
  defines "b \<equiv> if 4096 \<le> ch_block_size hello \<and> ch_block_size hello \<le> 1048576
         then ch_block_size hello else negotiated_block_size s"
  assumes len: "length (ser_ServerHello cd (hello_answer b)) < 2 ^ 32 - FRAME_HEADER_SIZE"
  obtains fd where "handle_client_hello cd msg s = (Inr (), s\<lparr>client_id := ch_client_id hello,
      protocol_version := ch_protocol_version hello, negotiated_block_size := b, client_fd := fd, sess_state := READY\<rparr>)"
    "rx fd = rx (client_fd s)"
    "tx fd = tx (client_fd s) @ encode_frame \<lparr>message_type = MSG_SERVER_HELLO, payload = ser_ServerHello cd (hello_answer b)\<rparr>"
proof -
  let ?s2 = "s\<lparr>client_id := ch_client_id hello, protocol_version := ch_protocol_version hello, negotiated_block_size := b\<rparr>"
  have sock2: "tx_ok (tx_plan (client_fd ?s2))" using sock by simp
  obtain fd where fd: "send_message MSG_SERVER_HELLO (ser_ServerHello cd (hello_answer b)) ?s2 = ?s2\<lparr>client_fd := fd\<rparr>"
    "rx fd = rx (client_fd ?s2)"
    "tx fd = tx (client_fd ?s2) @ encode_frame \<lparr>message_type = MSG_SERVER_HELLO, payload = ser_ServerHello cd (hello_answer b)\<rparr>"
    by (rule send_message_ok [OF sock2 len])
  have "handle_client_hello cd msg s = (Inr (), ?s2\<lparr>client_fd := fd, sess_state := READY\<rparr>)"
    using hello fd(1) by (auto simp: handle_client_hello_def hello_answer_def b_def Let_def)
  then show ?thesis by (rule that) (use fd(2,3) in simp_all)
qed

text \<open>
  C36. Malformed input: a frame of an unknown type, or one whose body the codec does not parse, is
  answered with exactly one error frame with code PROTOCOL_ERROR; nothing else in the session or in the
  storage changes, and the session goes on.
\<close>

theorem malformed_rejected:
  assumes bad: "\<not> parses cd f" and sock: "tx_ok (tx_plan (client_fd s))"
    and len: "\<And>e. length (ser_ErrorPayload cd e) < 2 ^ 32 - FRAME_HEADER_SIZE"
  shows "\<exists>fd m. dispatch cd grant f s = Some (Inr (), s\<lparr>client_fd := fd\<rparr>) \<and> rx fd = rx (client_fd s) \<and>
    tx fd = tx (client_fd s) @ encode_frame \<lparr>message_type = MSG_ERROR,
      payload = ser_ErrorPayload cd \<lparr>er_code = PROTOCOL_ERROR, er_message = m, er_detail = []\<rparr>\<rparr>"
proof -
  obtain m where m: "dispatch cd grant f s = Some (Inr (), send_error cd PROTOCOL_ERROR m s)"
    using dispatch_unparsed [OF bad] by blast
  obtain fd where "send_error cd PROTOCOL_ERROR m s = s\<lparr>client_fd := fd\<rparr>" "rx fd = rx (client_fd s)"
    "tx fd = tx (client_fd s) @ encode_frame \<lparr>message_type = MSG_ERROR,
      payload = ser_ErrorPayload cd \<lparr>er_code = PROTOCOL_ERROR, er_message = m, er_detail = []\<rparr>\<rparr>"
    by (rule send_error_ok [OF sock len])
  with m show ?thesis by auto
qed

theorem malformed_rejected_witness:
  "\<exists>fd. dispatch demo_codec 64 \<lparr>message_type = 99, payload = [7]\<rparr> (demo_session []) =
      Some (Inr (), (demo_session [])\<lparr>client_fd := fd\<rparr>) \<and> tx fd = [0, 0, 0, 1, 50, 0]"
proof -
  have "\<not> parses demo_codec \<lparr>message_type = 99, payload = [7]\<rparr>" by (simp add: parses_def)
  moreover have "length (ser_ErrorPayload demo_codec e) < 2 ^ 32 - FRAME_HEADER_SIZE" for e
    by (simp add: demo_codec_def FRAME_HEADER_SIZE_def)
  moreover have "encode_frame \<lparr>message_type = MSG_ERROR, payload = [0]\<rparr> = [0, 0, 0, 1, 50, 0]" by code_simp
  ultimately show ?thesis
    using malformed_rejected [of demo_codec "\<lparr>message_type = 99, payload = [7]\<rparr>" "demo_session []" 64]
    by (auto simp: demo_codec_def)
qed

text \<open>The result of a handler with the session state left out.\<close>

definition forget_state :: "unit result \<times> Session \<Rightarrow> unit result \<times> Session" where
  "forget_state = (\<lambda>(r, t). (r, t\<lparr>sess_state := READY\<rparr>))"

lemma forget_handlers:
  "forget_state (handle_client_hello cd msg (s\<lparr>sess_state := x\<rparr>)) = forget_state (handle_client_hello cd msg s)"
  "forget_state (handle_negotiation_request cd msg (s\<lparr>sess_state := x\<rparr>)) = forget_state (handle_negotiation_request cd msg s)"
  "map_option forget_state (handle_zero_copy_download_request cd msg (s\<lparr>sess_state := x\<rparr>)) = map_option forget_state (handle_zero_copy_download_request cd msg s)"
  "forget_state (handle_zero_copy_upload_request cd grant msg (s\<lparr>sess_state := x\<rparr>)) = forget_state (handle_zero_copy_upload_request cd grant msg s)"
  "forget_state (handle_delta_sync_signature_request cd grant msg (s\<lparr>sess_state := x\<rparr>)) = forget_state (handle_delta_sync_signature_request cd grant msg s)"
  "forget_state (handle_delta_sync_block_data cd msg (s\<lparr>sess_state := x\<rparr>)) = forget_state (handle_delta_sync_block_data cd msg s)"
  "forget_state (handle_list_files_request cd msg (s\<lparr>sess_state := x\<rparr>)) = forget_state (handle_list_files_request cd msg s)"
  subgoal by (simp add: forget_state_def handle_client_hello_def Let_def send_error_def send_message_def split: option.split)
  subgoal by (simp add: forget_state_def handle_negotiation_request_def Let_def send_error_def send_message_def split: option.split)
  subgoal by (simp add: forget_state_def handle_zero_copy_download_request_def Let_def send_error_def send_message_def split: option.split)
  subgoal by (simp add: forget_state_def handle_zero_copy_upload_request_def Let_def send_error_def send_message_def split: option.split sum.split)
  subgoal by (simp add: forget_state_def handle_delta_sync_signature_request_def Let_def send_error_def send_message_def split: option.split)
  subgoal by (simp add: forget_state_def handle_delta_sync_block_data_def Let_def send_error_def send_message_def split: option.split)
  subgoal by (simp add: forget_state_def handle_list_files_request_def Let_def send_error_def send_message_def split: option.split sum.split)
  done

text \<open>
  The session state decides nothing: what a message does and answers is the same in every state, so
  all requests are served before, and without, a handshake.
\<close>

lemma session_state_unchecked:
  "map_option forget_state (dispatch cd grant f (s\<lparr>sess_state := x\<rparr>)) =
   map_option forget_state (dispatch cd grant f s)"
  by (simp add: dispatch_def Let_def forget_handlers) (simp add: forget_state_def send_error_def send_message_def)

text \<open>
  C3. The invariant of a session, after any number of messages: it is waiting for a hello or ready, no
  lock is held, the negotiated block size is the configured one or lies between 4 KiB and 1 MiB, the
  negotiator and the delta handler work on the session's storage root with the configured block size,
  the storage is well formed and no file exceeds the limit of the file system.
\<close>

theorem session_invariant:
  assumes "session_start s" and "(session_step cd grant)\<^sup>*\<^sup>* s t"
  shows "session_inv t"
  using assms by (rule session_loop.reachable_invariant)

theorem session_invariant_witness:
  "\<exists>t. (session_step demo_codec 64)\<^sup>*\<^sup>* (demo_session [Recv_data [0, 0, 0, 0], Recv_data [99]]) t \<and>
     t \<noteq> demo_session [Recv_data [0, 0, 0, 0], Recv_data [99]] \<and> session_inv t"
proof -
  let ?s = "demo_session [Recv_data [0, 0, 0, 0], Recv_data [99]]" and ?f = "\<lparr>message_type = 99, payload = []\<rparr>"
  have bytes: "rx_bytes (rx (client_fd ?s)) = encode_frame ?f @ []" unfolding demo_session_simps by code_simp
  obtain fd where rd: "read_frame 64 (client_fd ?s) = (Inr (Some ?f), fd)" "rx_bytes (rx fd) = []"
    using read_frame_standard [OF bytes] by auto
  have "\<not> parses demo_codec ?f" by (simp add: parses_def)
  then obtain m where "dispatch demo_codec 64 ?f (?s\<lparr>client_fd := fd\<rparr>) =
      Some (Inr (), send_error demo_codec PROTOCOL_ERROR m (?s\<lparr>client_fd := fd\<rparr>))"
    using dispatch_unparsed by blast
  then have "session_step demo_codec 64 ?s (send_error demo_codec PROTOCOL_ERROR m (?s\<lparr>client_fd := fd\<rparr>))"
    using rd(1) by (intro turn) simp_all
  moreover have "send_error demo_codec PROTOCOL_ERROR m (?s\<lparr>client_fd := fd\<rparr>) \<noteq> ?s"
  proof
    assume "send_error demo_codec PROTOCOL_ERROR m (?s\<lparr>client_fd := fd\<rparr>) = ?s"
    from arg_cong [OF this, of "\<lambda>s. rx (client_fd s)"] rd(2) show False by (simp add: send_error_def)
  qed
  ultimately show ?thesis
    using session_invariant [OF demo_session_start] by (meson r_into_rtranclp)
qed

text \<open>Every message uses up input, so the loop ends with it, or the peer falls silent.\<close>

lemma run_returns:
  assumes "session_inv s"
  shows "\<exists>r s'. run cd grant s = Some (r, s') \<and> (r = Inr () \<longrightarrow> sess_state s' = DISCONNECTED) \<and>
    (r = Inl Waits_for_peer \<longrightarrow> \<not> peer_closes (client_fd s))"
  using assms
proof (induction "rx_size (rx (client_fd s))" arbitrary: s rule: less_induct)
  case less
  have on: "\<not> shutdown_requested s" "sess_state s \<noteq> DISCONNECTED" using less.prems by (auto simp: session_inv_def)
  obtain a fd where rd: "read_frame grant (client_fd s) = (a, fd)" by fastforce
  show ?case
  proof (cases "\<exists>f. a = Inr (Some f)")
    case False
    then show ?thesis using on rd read_frame_waits [of grant "client_fd s" fd] by (subst run.simps) (auto split: sum.split option.split)
  next
    case True
    then obtain f where f: "a = Inr (Some f)" ..
    let ?s1 = "s\<lparr>client_fd := fd\<rparr>"
    have inv: "session_inv ?s1" by (rule session_inv_receive [OF less.prems rd])
    then obtain r s2 where d: "dispatch cd grant f ?s1 = Some (r, s2)" "settled ?s1 (r, s2)"
      using dispatch_settled [of ?s1 "max_file (disk s)" cd grant f] by (simp add: session_inv_def) (metis prod.exhaust)
    have closes: "peer_closes (client_fd s) \<Longrightarrow> peer_closes fd" using read_frame_closes [OF rd] .
    show ?thesis
    proof (cases r)
      case (Inl e)
      then show ?thesis using on rd f d closes dispatch_waits [of cd grant f ?s1 s2] by (subst run.simps) auto
    next
      case (Inr u)
      have "rx_size (rx (client_fd s2)) < rx_size (rx (client_fd s))"
        using d(2) read_frame_progress [OF rd [unfolded f]] by (auto simp: settled_def keeps_def)
      moreover have "session_inv s2" using session_inv_settled [OF inv] d(2) Inr by simp
      moreover have "peer_closes (client_fd s) \<Longrightarrow> peer_closes (client_fd s2)"
        using d(2) closes by (auto simp: settled_def keeps_def peer_closes_def)
      ultimately show ?thesis
        using less.hyps [of s2] on rd f d(1) Inr by (subst run.simps) auto
    qed
  qed
qed

lemma run_idle:
  assumes "session_inv s" and "rx (client_fd s) = Recv_silent # es"
  shows "run cd grant s = Some (Inl Waits_for_peer, s)"
proof -
  have "\<not> shutdown_requested s" "sess_state s \<noteq> DISCONNECTED" using assms(1) by (auto simp: session_inv_def)
  then show ?thesis using read_frame_idle [OF assms(2), of grant] by (subst run.simps) simp
qed



text \<open>
  C10. An upload: when the client announces a file and sends its bytes in raw-data frames of any sizes, the
  handler returns with the session READY and exactly those bytes taken from the stream, the file under
  that name has exactly the bytes sent, its staging file is gone, and no other file has changed.  The
  announced digest plays no role.
\<close>

theorem upload_publishes:
  assumes ok: "accepts_upload s grant p (concat chunks)"
    and req: "parse_ZeroCopyUploadRequest cd msg (int_size msg) = Some \<lparr>ur_metadata = md\<rparr>"
      "md_relative_path md = p" "md_file_size md = word_of_nat (length (concat chunks))"
    and stream: "rx_bytes (rx (client_fd s)) = concat (map raw_frame chunks) @ rest"
      "\<forall>d \<in> set chunks. d \<noteq> [] \<and> length d < 2 ^ 32"
  shows "\<exists>s'. handle_zero_copy_upload_request cd grant msg s = (Inr (), s') \<and> sess_state s' = READY \<and>
    rx_bytes (rx (client_fd s')) = rest \<and>
    (\<forall>k. file_at (disk s') k = (if k = target_key (file_root s) (disk s) p then Some (concat chunks)
       else if k = temp_key (file_root s) (disk s) p then None else file_at (disk s) k))"
  by (rule upload_spec [OF assms]) blast

theorem upload_publishes_witness:
  "\<exists>s'. handle_zero_copy_upload_request (demo_codec\<lparr>parse_ZeroCopyUploadRequest := (\<lambda>_ _. Some \<lparr>ur_metadata =
        \<lparr>md_relative_path = ''sub/new'', md_file_size = 3, md_last_modified_ns = 0, md_sha256_hash = ''wrong'', md_file_mode = 1\<rparr>\<rparr>)\<rparr>)
      64 [1] (demo_session [Recv_data (raw_frame [5, 6]), Recv_data (raw_frame [7])]) = (Inr (), s') \<and>
    file_at (disk s') [''srv'', ''data'', ''sub'', ''new''] = Some [5, 6, 7]"
proof -
  let ?md = "\<lparr>md_relative_path = ''sub/new'', md_file_size = 3, md_last_modified_ns = 0, md_sha256_hash = ''wrong'', md_file_mode = 1\<rparr>"
  let ?cd = "demo_codec\<lparr>parse_ZeroCopyUploadRequest := (\<lambda>_ _. Some \<lparr>ur_metadata = ?md\<rparr>)\<rparr>"
  let ?s = "demo_session [Recv_data (raw_frame [5, 6]), Recv_data (raw_frame [7])]"
  have "accepts_upload ?s 64 ''sub/new'' (concat [[5, 6], [7]])"
    using demo_storage_facts by (simp add: accepts_upload_def vector_max_size_def)
  moreover have "rx_bytes (rx (client_fd ?s)) = concat (map raw_frame [[5, 6], [7]]) @ []"
    by (simp add: raw_frame_def)
  moreover have "\<forall>d \<in> set [[5, 6], [7 :: byte]]. d \<noteq> [] \<and> length d < 2 ^ 32" by simp
  ultimately show ?thesis
    using upload_publishes [of ?s 64 "''sub/new''" "[[5, 6], [7]]" ?cd "[1]" ?md "[]"] demo_fresh(3) by auto
qed

end
