(* ===== verification/Session_Storage.thy ===== *)
theory Session_Storage
  imports Session
begin

text \<open>
  What messages do to the stored files.  The abstract store is the map from names to contents; a served
  file has a target name and a staging name, and the only changes are writing the staging file and
  publishing it under the target name.  Every message of every session refines a sequence of such steps
  on the one file it names.  More exactly, a request to upload or to write a block has a few permitted
  outcomes (\<open>serves\<close>): nothing, something staged, or the complete upload respectively the staging file with
  the block in it published; and the names are inside the storage root or the request names an absolute path.
\<close>

section \<open>The abstract store\<close>

type_synonym store = "key \<Rightarrow> byte list option"

inductive store_step :: "key \<Rightarrow> key \<Rightarrow> store \<Rightarrow> store \<Rightarrow> bool" for target temp where
  stage: "store_step target temp M (M(temp \<mapsto> c))"
| publish: "M temp = Some c \<Longrightarrow> temp \<noteq> target \<Longrightarrow> store_step target temp M (M(target \<mapsto> c, temp := None))"

inductive_cases store_stepE: "store_step target temp M M'"

text \<open>A store can only differ in the two names of the file.\<close>

lemma store_steps_frame:
  assumes "(store_step target temp)\<^sup>*\<^sup>* M M'" and "k \<noteq> target" "k \<noteq> temp"
  shows "M' k = M k"
  using assms(1)
proof (induction rule: rtranclp_induct)
  case (step M1 M2)
  from step(2,3) assms(2,3) show ?case by (auto elim: store_stepE)
qed simp

text \<open>
  The storage \<open>fs'\<close> comes from \<open>fs\<close> by steps on the served file \<open>p\<close>; the environment is the same.
\<close>

definition evolves :: "string \<Rightarrow> string \<Rightarrow> storage \<Rightarrow> storage \<Rightarrow> bool" where
  "evolves storage_root p fs fs' \<longleftrightarrow>
     cwd fs' = cwd fs \<and> no_read fs' = no_read fs \<and> no_write fs' = no_write fs \<and> max_file fs' = max_file fs \<and>
     (store_step (target_key storage_root fs p) (temp_key storage_root fs p))\<^sup>*\<^sup>* (file_at fs) (file_at fs')"

lemma evolves_keys:
  "evolves storage_root p fs fs' \<Longrightarrow>
     target_key storage_root fs' p = target_key storage_root fs p \<and> temp_key storage_root fs' p = temp_key storage_root fs p"
  by (simp add: evolves_def target_key_def temp_key_def)

lemma evolves_refl [simp]: "evolves storage_root p fs fs"
  by (simp add: evolves_def)

lemma evolves_trans:
  assumes "evolves storage_root p fs fs1" and "evolves storage_root p fs1 fs2"
  shows "evolves storage_root p fs fs2"
  using assms evolves_keys [OF assms(1)] by (auto simp: evolves_def)

text \<open>Only the staging file of \<open>p\<close> may have been written.\<close>

definition stages :: "string \<Rightarrow> string \<Rightarrow> storage \<Rightarrow> storage \<Rightarrow> bool" where
  "stages storage_root p fs fs' \<longleftrightarrow>
     cwd fs' = cwd fs \<and> no_read fs' = no_read fs \<and> no_write fs' = no_write fs \<and> max_file fs' = max_file fs \<and>
     (file_at fs' = file_at fs \<or> (\<exists>c. file_at fs' = (file_at fs)(temp_key storage_root fs p \<mapsto> c)))"

lemma stages_refl [simp]: "stages storage_root p fs fs"
  by (simp add: stages_def)

lemma stages_trans:
  assumes "stages storage_root p fs fs1" and "stages storage_root p fs1 fs2"
  shows "stages storage_root p fs fs2"
  using assms by (auto simp: stages_def temp_key_def)

lemma stages_evolves:
  assumes "stages storage_root p fs fs'"
  shows "evolves storage_root p fs fs'"
  using assms stage [of "target_key storage_root fs p" "temp_key storage_root fs p" "file_at fs"]
  by (auto simp: stages_def evolves_def)

lemma stages_ensure_parent_dirs:
  assumes "ensure_parent_dirs r fs q = Inr (b, fs1)"
  shows "stages r p fs fs1"
proof -
  note t = touches_ensure_parent_dirs [OF assms]
  have "file_at fs1 = file_at fs" using touches_file_at [OF t] by (intro ext) simp
  with t show ?thesis by (simp add: stages_def touches_def)
qed

lemma stages_put:
  assumes "k = temp_key r fs p" "k \<noteq> []"
  shows "stages r p fs (put_node k (File c t) fs)"
proof -
  have "file_at (put_node k (File c t) fs) = (file_at fs)(k \<mapsto> c)" using assms(2) by (auto simp: file_at_put)
  then show ?thesis using assms by (auto simp: stages_def)
qed

lemma stages_open_trunc:
  assumes "open_trunc fs (path_append r (lexically_normal p) @ ''.tmp'') = Some fs'"
  shows "stages r p fs fs'"
  using open_trunc_node [OF assms] by (auto simp: temp_key_def intro!: stages_put)

lemma stages_seek_write:
  assumes "seek_write fs k off data = (ok, fs')" and "k = temp_key r fs p"
  shows "stages r p fs fs'"
  using assms(1) by (rule seek_write_cases) (auto intro: stages_put [OF assms(2)])

lemma stages_write_file:
  assumes "write_file_atomic r fs p data = Inr (ok, fs')"
  shows "stages r p fs fs'"
proof -
  let ?tmp = "path_append r (lexically_normal p) @ ''.tmp''"
  obtain b fs1 where e: "ensure_parent_dirs r fs p = Inr (b, fs1)"
    and rest: "(case open_trunc fs1 ?tmp of None \<Rightarrow> (False, fs1)
        | Some fs2 \<Rightarrow> seek_write fs2 (os_key (cwd fs2) ?tmp) 0 data) = (ok, fs')"
    using assms by (auto simp: write_file_atomic_def tmp_path_for_def resolve_path_Inr_iff bind_result_Inr_iff
        split: option.splits)
  note e1 = stages_ensure_parent_dirs [OF e, of p]
  show ?thesis
  proof (cases "open_trunc fs1 ?tmp")
    case (Some fs2)
    then have "stages r p fs2 fs'"
      using rest by (intro stages_seek_write [of fs2 "os_key (cwd fs2) ?tmp" 0 data ok]) (simp_all add: temp_key_def)
    then show ?thesis using e1 stages_open_trunc [OF Some] stages_trans by blast
  qed (use rest e1 in simp)
qed

lemma stages_write_block:
  assumes "write_block_atomic r fs p offset data = Inr (ok, fs')"
  shows "stages r p fs fs'"
  using assms refl
proof (cases rule: write_block_atomic_cases)
  case (existing b fs1)
  then have "stages r p fs1 fs'" by (intro stages_seek_write [OF existing(3)]) (simp add: temp_key_def)
  then show ?thesis using stages_ensure_parent_dirs [OF existing(1)] stages_trans by blast
next
  case (created b fs1 fs2)
  note two = stages_open_trunc [OF created(3)]
  then have "cwd fs2 = cwd fs1" by (simp add: stages_def)
  then have "stages r p fs2 fs'" by (intro stages_seek_write [OF created(5)]) (simp add: temp_key_def)
  then show ?thesis using stages_ensure_parent_dirs [OF created(1)] two stages_trans by blast
next
  case (refused b fs1)
  then show ?thesis
    using stages_ensure_parent_dirs [OF refused(1)] stages_open_trunc [of fs1 r p fs'] stages_trans by blast
qed

lemmas evolves_write_file = stages_evolves [OF stages_write_file]
lemmas evolves_write_block = stages_evolves [OF stages_write_block]

text \<open>Renaming publishes what is staged, when something is.\<close>

lemma rename_tmp_cases:
  assumes "atomic_rename_tmp r fs p = Inr (ok, fs')"
  shows "(\<not> ok \<and> fs' = fs) \<or> rename_key (temp_key r fs p) (target_key r fs p) fs = (ok, fs')"
    and "temp_key r fs p = target_key r fs p \<Longrightarrow> fs' = fs"
proof -
  show *: "(\<not> ok \<and> fs' = fs) \<or> rename_key (temp_key r fs p) (target_key r fs p) fs = (ok, fs')"
    using assms by (auto simp: atomic_rename_tmp_def tmp_path_for_def resolve_path_Inr_iff bind_result_Inr_iff
        fs_rename_def temp_key_def target_key_def split: if_splits)
  then show "fs' = fs" if "temp_key r fs p = target_key r fs p"
    using that by (auto simp: rename_key_def split: if_splits)
qed

lemma evolves_rename:
  assumes mv: "atomic_rename_tmp r fs p = Inr (ok, fs')" and wf: "storage_wf fs"
    and staged: "file_at fs (temp_key r fs p) = Some c"
  shows "evolves r p fs fs'"
proof -
  let ?t = "temp_key r fs p" and ?d = "target_key r fs p"
  note same = rename_tmp_cases(2) [OF mv]
  have env: "cwd fs' = cwd fs \<and> no_read fs' = no_read fs \<and> no_write fs' = no_write fs \<and> max_file fs' = max_file fs"
    using rename_tmp_cases(1) [OF mv] by (auto simp: rename_key_def split: if_splits)
  show ?thesis
  proof (cases "ok \<and> ?t \<noteq> ?d")
    case True
    then have "file_at fs' = (file_at fs)(?d \<mapsto> c, ?t := None)"
      using atomic_rename_tmp_effect(4) [OF mv wf _ staged] by (intro ext) simp
    with env publish [of "file_at fs" ?t c ?d] True staged show ?thesis by (auto simp: evolves_def)
  next
    case False
    then have "fs' = fs" using same atomic_rename_tmp_effect(1) [OF mv wf] by blast
    then show ?thesis by simp
  qed
qed

section \<open>Messages\<close>

lemma evolves_block_data:
  assumes d: "handle_block_data h fs locks p i off data sh fin = (res, fs', locks', h')" and wf: "storage_wf fs"
  shows "evolves (ds_storage_root h) p fs fs'"
proof (cases "write_block_atomic (ds_storage_root h) fs p off data")
  case (Inl e)
  then show ?thesis using d by (auto simp: handle_block_data_def Let_def split: sum.splits if_splits prod.splits)
next
  case (Inr w)
  obtain ok fs1 where w: "write_block_atomic (ds_storage_root h) fs p off data = Inr (ok, fs1)" using Inr by (cases w) auto
  note ev = evolves_write_block [OF w]
  have wf1: "storage_wf fs1" using write_block_atomic_effect(1) [OF w] wf by (simp add: touches_def)
  have fin: "evolves (ds_storage_root h) p fs fs2"
    if "ok" "finalize_file h1 fs1 p = (a, fs2, h2)" "ds_storage_root h1 = ds_storage_root h" for h1 a fs2 h2
  proof -
    obtain c where "file_at fs1 (temp_key (ds_storage_root h) fs1 p) = Some c"
      using write_block_atomic_effect(2) [OF w \<open>ok\<close>] evolves_keys [OF ev] by auto
    then have "evolves (ds_storage_root h) p fs1 fs2"
      using that(2,3) evolves_rename [OF _ wf1]
      by (fastforce simp: finalize_file_def Let_def split: sum.splits option.splits if_splits)
    then show ?thesis using ev evolves_trans by blast
  qed
  show ?thesis
    using d w ev by (auto simp: handle_block_data_def Let_def split: sum.splits if_splits prod.splits intro!: fin)
qed

lemma evolves_save:
  assumes "save_upload cd s = (r, s')" and wf: "storage_wf (disk s)"
  shows "evolves (file_root s) (up_relative_path (upload_state s)) (disk s) (disk s')"
  using assms(1)
proof (cases rule: save_upload_disk)
  case (staged ok fs1)
  then show ?thesis using evolves_write_file [OF staged(1)] by (auto simp: send_error_def)
next
  case (renamed ok fs1 moved fs2)
  note ev = evolves_write_file [OF renamed(1)]
  have wf1: "storage_wf fs1" using write_file_atomic_effect(1) [OF renamed(1)] wf by (simp add: touches_def)
  show ?thesis
  proof (cases ok)
    case True
    then have "file_at fs1 (temp_key (file_root s) fs1 (up_relative_path (upload_state s))) = Some (up_buffer (upload_state s))"
      using write_file_atomic_effect(2) [OF renamed(1)] evolves_keys [OF ev] by simp
    then show ?thesis using evolves_trans [OF ev evolves_rename [OF renamed(2) wf1]] renamed(3) by simp
  next
    case False
    then have "disk s' = fs1 \<or> disk s' = disk s"
      using assms(1) renamed(1) by (auto simp: save_upload_def Let_def send_error_def split: if_splits)
    then show ?thesis using ev by auto
  qed
qed simp

lemma upload_keeps_path:
  assumes "upload_loop cd grant start s = (r, s')"
  shows "up_relative_path (upload_state s') = up_relative_path (upload_state s)"
  by (rule upload_loop_relates [OF assms, of "\<lambda>s s'. up_relative_path (upload_state s') = up_relative_path (upload_state s)"])
    (auto simp: upload_state_report send_error_def insert_data_def Let_def vector_alloc_def split: if_splits)

text \<open>The path a message writes to.\<close>

definition written_path :: "codec \<Rightarrow> WireFrame \<Rightarrow> string option" where
  "written_path cd f =
     (let ty = message_type f; msg = payload f in
      if ty = MSG_ZERO_COPY_UPLOAD_REQUEST
      then map_option (\<lambda>req. md_relative_path (ur_metadata req)) (parse_ZeroCopyUploadRequest cd msg (int_size msg))
      else if ty = MSG_DELTA_SYNC_BLOCK_DATA
      then map_option bd_relative_path (parse_DeltaSyncBlockData cd msg (int_size msg))
      else None)"

lemma evolves_upload_request:
  assumes h: "handle_zero_copy_upload_request cd grant msg s = (r, s')" and wf: "storage_wf (disk s)"
    and req: "parse_ZeroCopyUploadRequest cd msg (int_size msg) = Some req"
  shows "evolves (file_root s) (md_relative_path (ur_metadata req)) (disk s) (disk s')"
proof -
  let ?p = "md_relative_path (ur_metadata req)"
  let ?u = "(upload_state s)\<lparr>up_relative_path := ?p,
     up_total_size := md_file_size (ur_metadata req), up_received := 0,
     up_expected_sha256 := md_sha256_hash (ur_metadata req), up_buffer := []\<rparr>"
  show ?thesis
  proof (cases "reserve_buffer grant (unat (md_file_size (ur_metadata req))) ?u")
    case (Inl e)
    then show ?thesis using req h by (auto simp: handle_zero_copy_upload_request_def Let_def)
  next
    case (Inr u1)
    then have u1: "up_relative_path u1 = ?p"
      by (auto simp: reserve_buffer_def bind_result_Inr_iff split: if_splits)
    let ?s2 = "send_message MSG_ZERO_COPY_UPLOAD_ACK (ser_ZeroCopyUploadAck cd
        \<lparr>ua_status = STATUS_OK, ua_error_message = [], ua_offset = 0\<rparr>) (s\<lparr>upload_state := u1, sess_state := TRANSFERRING\<rparr>)"
    obtain start s3 where c: "clock_now ?s2 = (start, s3)" by fastforce
    obtain r4 s4 where up: "upload_loop cd grant start s3 = (r4, s4)" by fastforce
    obtain r5 s5 where sv: "save_upload cd s4 = (r5, s5)" by fastforce
    have "same_service ?s2 s4"
      using same_service_clock [of ?s2] same_service_upload [OF up] c by (auto intro: same_service_trans)
    then have s4: "disk s4 = disk s" "file_root s4 = file_root s" by (simp_all add: same_service_def)
    have "up_relative_path (upload_state s4) = ?p"
      using upload_keeps_path [OF up] upload_state_clock [of ?s2] c u1 by simp
    then have "evolves (file_root s) ?p (disk s) (disk s5)" using evolves_save [OF sv] s4 wf by simp
    moreover have "disk s' = disk s4 \<or> disk s' = disk s5"
      using req Inr c up sv h by (auto simp: handle_zero_copy_upload_request_def Let_def split: sum.splits)
    ultimately show ?thesis using s4(1) by auto
  qed
qed

lemma evolves_block_message:
  assumes h: "handle_delta_sync_block_data cd msg s = (r, s')" and wf: "storage_wf (disk s)"
    and req: "parse_DeltaSyncBlockData cd msg (int_size msg) = Some req"
  shows "evolves (ds_storage_root (delta_sync_handler s)) (bd_relative_path req) (disk s) (disk s')"
proof -
  let ?fin = "length (bd_data req) < unat (negotiated_block_size s)"
  obtain a fs locks h' where d: "handle_block_data (delta_sync_handler s) (disk s) (file_mutex s)
      (bd_relative_path req) (bd_block_index req) (bd_block_offset req) (bd_data req) (bd_strong_hash req) ?fin = (a, fs, locks, h')"
    by (metis prod_cases4)
  then have "disk s' = fs"
    using h req by (auto simp: handle_delta_sync_block_data_def block_completion_def Let_def split: sum.splits if_splits)
  then show ?thesis using evolves_block_data [OF d wf] by simp
qed

lemma dispatch_evolves:
  assumes d: "dispatch cd grant f s = Some (r, s')" and wf: "storage_wf (disk s)"
    and root: "ds_storage_root (delta_sync_handler s) = file_root s"
  shows "case written_path cd f of None \<Rightarrow> disk s' = disk s | Some p \<Rightarrow> evolves (file_root s) p (disk s) (disk s')"
proof -
  consider (upload) "message_type f = MSG_ZERO_COPY_UPLOAD_REQUEST" | (block) "message_type f = MSG_DELTA_SYNC_BLOCK_DATA"
    | (other) "message_type f \<noteq> MSG_ZERO_COPY_UPLOAD_REQUEST" "message_type f \<noteq> MSG_DELTA_SYNC_BLOCK_DATA"
    by blast
  then show ?thesis
  proof cases
    case upload
    then have "handle_zero_copy_upload_request cd grant (payload f) s = (r, s')" using d by (simp add: dispatch_def)
    then show ?thesis
      using upload evolves_upload_request [OF _ wf]
      by (auto simp: written_path_def Let_def handle_zero_copy_upload_request_def send_error_def split: option.split)
  next
    case block
    then have "handle_delta_sync_block_data cd (payload f) s = (r, s')" using d by (simp add: dispatch_def)
    then show ?thesis
      using block evolves_block_message [OF _ wf] root
      by (auto simp: written_path_def Let_def handle_delta_sync_block_data_def send_error_def split: option.split)
  next
    case other
    then have "disk s' = disk s"
      using d by (auto simp: dispatch_def handle_client_hello_def handle_negotiation_request_def
          handle_zero_copy_download_request_def handle_delta_sync_signature_request_def handle_list_files_request_def
          send_error_def Let_def split: if_splits option.splits sum.splits prod.splits)
    then show ?thesis using other by (simp add: written_path_def Let_def)
  qed
qed

text \<open>Any number of turns of a session: the environment of the storage stays the same.\<close>

lemma session_step_env:
  assumes "session_inv s" and "session_step cd grant s s'"
  shows "file_root s' = file_root s \<and> cwd (disk s') = cwd (disk s) \<and> no_read (disk s') = no_read (disk s)"
  using assms(2)
proof (rule session_stepE)
  fix frame fd
  assume rd: "read_frame grant (client_fd s) = (Inr (Some frame), fd)"
    and d: "dispatch cd grant frame (s\<lparr>client_fd := fd\<rparr>) = Some (Inr (), s')"
  have inv: "session_inv (s\<lparr>client_fd := fd\<rparr>)" by (rule session_inv_receive [OF assms(1) rd])
  then have "case written_path cd frame of None \<Rightarrow> disk s' = disk s | Some p \<Rightarrow> evolves (file_root s) p (disk s) (disk s')"
    using dispatch_evolves [OF d] by (auto simp: session_inv_def sound_storage_def split: option.splits)
  moreover have "settled (s\<lparr>client_fd := fd\<rparr>) (Inr (), s')"
    using dispatch_settled [of "s\<lparr>client_fd := fd\<rparr>" "max_file (disk s)" cd grant frame] d inv by (simp add: session_inv_def)
  ultimately show ?thesis by (auto simp: evolves_def settled_def keeps_def split: option.splits)
qed

lemma session_steps_env:
  assumes "(session_step cd grant)\<^sup>*\<^sup>* s t" and "session_inv s"
  shows "session_inv t \<and> file_root t = file_root s \<and> cwd (disk t) = cwd (disk s) \<and> no_read (disk t) = no_read (disk s)"
  using assms(1)
proof (induction rule: rtranclp_induct)
  case (step t u)
  then show ?case using session_step_env [of t cd grant u] session_loop.step_invariant [of t cd grant u] by auto
qed (simp add: assms(2))

section \<open>The permitted outcomes of a request\<close>

datatype request = Upload string u64 | Block string u64 "byte list"

primrec request_path :: "request \<Rightarrow> string" where
  "request_path (Upload p n) = p"
| "request_path (Block p offset data) = p"

definition requested :: "codec \<Rightarrow> WireFrame \<Rightarrow> request option" where
  "requested cd f =
     (let ty = message_type f; msg = payload f in
      if ty = MSG_ZERO_COPY_UPLOAD_REQUEST
      then map_option (\<lambda>req. Upload (md_relative_path (ur_metadata req)) (md_file_size (ur_metadata req)))
             (parse_ZeroCopyUploadRequest cd msg (int_size msg))
      else if ty = MSG_DELTA_SYNC_BLOCK_DATA
      then map_option (\<lambda>req. Block (bd_relative_path req) (bd_block_offset req) (bd_data req))
             (parse_DeltaSyncBlockData cd msg (int_size msg))
      else None)"

text \<open>
  A pair of names for the target and the staging file of \<open>p\<close>, seen from the directory \<open>dir\<close>: inside the storage root unless
  the path is absolute, and different unless the path contains a NUL character.
\<close>

definition names :: "string \<Rightarrow> key \<Rightarrow> string \<Rightarrow> key \<Rightarrow> key \<Rightarrow> bool" where
  "names storage_root dir p target temp \<longleftrightarrow>
     target = os_key dir (path_append storage_root (lexically_normal p)) \<and>
     temp = os_key dir (path_append storage_root (lexically_normal p) @ ''.tmp'') \<and>
     (is_absolute p \<or> prefix (os_key dir storage_root) target \<and> prefix (os_key dir storage_root) temp) \<and>
     (CHR 0x00 \<in> set p \<or> target \<noteq> temp)"

text \<open>
  What a request may do to the store.  An upload publishes exactly as many bytes as were announced; the last block of a
  transfer publishes what was staged with this block in it.  Everything else leaves the target alone.
\<close>

inductive serves :: "string \<Rightarrow> key \<Rightarrow> request \<Rightarrow> store \<Rightarrow> store \<Rightarrow> bool" for storage_root dir where
  nothing: "serves storage_root dir q M M"
| staged: "names storage_root dir (request_path q) target temp \<Longrightarrow> serves storage_root dir q M (M(temp \<mapsto> c))"
| uploaded: "names storage_root dir p target temp \<Longrightarrow> target \<noteq> temp \<Longrightarrow> length c = unat n \<Longrightarrow>
    serves storage_root dir (Upload p n) M (M(target \<mapsto> c, temp := None))"
| completed: "names storage_root dir p target temp \<Longrightarrow> target \<noteq> temp \<Longrightarrow> 0 \<le> sint offset \<Longrightarrow>
    serves storage_root dir (Block p offset data) M
      (M(target \<mapsto> overwrite (content_or_empty (M temp)) (nat (sint offset)) data, temp := None))"

inductive_cases servesE: "serves storage_root dir q M M'"

text \<open>A request changes no file outside the root, unless it names an absolute path.\<close>

lemma serves_inside:
  assumes "serves storage_root dir q M M'" and "\<not> is_absolute (request_path q)" and "\<not> prefix (os_key dir storage_root) k"
  shows "M' k = M k"
  using assms by (auto elim!: servesE simp: names_def)

lemma resolved_names:
  assumes "CHR 0x00 \<notin> set storage_root" and "take 2 (lexically_normal p) \<noteq> ''..''"
  shows "names storage_root (cwd fs) p (target_key storage_root fs p) (temp_key storage_root fs p)"
proof -
  have "target_key storage_root fs p \<noteq> temp_key storage_root fs p" if "CHR 0x00 \<notin> set p"
  proof -
    have "CHR 0x00 \<notin> set (path_append storage_root (lexically_normal p))"
      using assms(1) that set_lexically_normal [of p] by (auto simp: path_append_def)
    from os_key_tmp_differs [OF this] show ?thesis unfolding target_key_def temp_key_def by metis
  qed
  then show ?thesis
    using key_contained [OF assms(1) _ assms(2)] tmp_contained [OF assms(1) _ assms(2)]
    by (auto simp: names_def target_key_def temp_key_def)
qed

lemma write_resolved:
  "write_file_atomic r fs p data = Inr w \<Longrightarrow> take 2 (lexically_normal p) \<noteq> ''..''"
  "write_block_atomic r fs p offset data = Inr w \<Longrightarrow> take 2 (lexically_normal p) \<noteq> ''..''"
  by (auto simp: write_file_atomic_def write_block_atomic_def tmp_path_for_def resolve_path_def Let_def)

lemma stages_serves:
  assumes "stages r (request_path q) fs fs'" and "CHR 0x00 \<notin> set r" "take 2 (lexically_normal (request_path q)) \<noteq> ''..''"
  shows "serves r (cwd fs) q (file_at fs) (file_at fs')"
  using assms(1) serves.nothing [of r "cwd fs" q "file_at fs"] serves.staged [OF resolved_names [OF assms(2,3)]]
  by (auto simp: stages_def)

text \<open>Staging followed by a rename: what was staged is published, or it stays where it is.\<close>

lemma stage_rename:
  assumes st: "stages r p fs fs1" and mv: "atomic_rename_tmp r fs1 p = Inr (ok, fs2)" and wf: "storage_wf fs1"
    and c: "file_at fs1 (temp_key r fs p) = Some c"
  shows "file_at fs2 = file_at fs1 \<or> target_key r fs p \<noteq> temp_key r fs p \<and>
    file_at fs2 = (file_at fs)(target_key r fs p \<mapsto> c, temp_key r fs p := None)"
proof -
  have keys: "temp_key r fs1 p = temp_key r fs p" "target_key r fs1 p = target_key r fs p"
    using st by (simp_all add: stages_def temp_key_def target_key_def)
  show ?thesis
  proof (cases "ok \<and> temp_key r fs p \<noteq> target_key r fs p")
    case True
    then have "file_at fs2 k = (if k = target_key r fs p then Some c else if k = temp_key r fs p then None else file_at fs1 k)" for k
      using atomic_rename_tmp_effect(4) [OF mv wf] c keys by simp
    moreover have "file_at fs1 k = file_at fs k" if "k \<noteq> temp_key r fs p" for k using st that by (auto simp: stages_def)
    ultimately have eq: "file_at fs2 = (file_at fs)(target_key r fs p \<mapsto> c, temp_key r fs p := None)"
      using True by (intro ext) simp
    have "target_key r fs p \<noteq> temp_key r fs p" using True by metis
    with eq show ?thesis by blast
  next
    case False
    then have "fs2 = fs1" using atomic_rename_tmp_effect(1) [OF mv wf] rename_tmp_cases(2) [OF mv] keys by metis
    then show ?thesis by simp
  qed
qed

lemma serves_block_data:
  assumes d: "handle_block_data h fs locks p i off data sh fin = (res, fs', locks', h')" and wf: "storage_wf fs"
    and nul: "CHR 0x00 \<notin> set (ds_storage_root h)"
  shows "serves (ds_storage_root h) (cwd fs) (Block p off data) (file_at fs) (file_at fs')"
proof (cases "fs' = fs")
  case False
  let ?r = "ds_storage_root h"
  obtain ok fs1 where w: "write_block_atomic ?r fs p off data = Inr (ok, fs1)"
    using d False by (auto simp: handle_block_data_def Let_def split: sum.splits if_splits prod.splits)
  have st: "stages ?r p fs fs1" and up: "take 2 (lexically_normal p) \<noteq> ''..''"
    using stages_write_block [OF w] write_resolved(2) [OF w] by simp_all
  then have staged1: "serves ?r (cwd fs) (Block p off data) (file_at fs) (file_at fs1)"
    using stages_serves [of ?r "Block p off data" fs fs1] nul by simp
  have wf1: "storage_wf fs1" using write_block_atomic_effect(1) [OF w] wf by (simp add: touches_def)
  consider (stay) "fs' = fs1" | (move) moved where "ok" "atomic_rename_tmp ?r fs1 p = Inr (moved, fs')"
    using d w False by (fastforce simp: handle_block_data_def finalize_file_def Let_def split: sum.splits option.splits if_splits prod.splits)
  then show ?thesis
  proof cases
    case move
    let ?c = "overwrite (content_or_empty (file_at fs (temp_key ?r fs p))) (nat (sint off)) data"
    have c: "0 \<le> sint off" "file_at fs1 (temp_key ?r fs p) = Some ?c" using write_block_atomic_effect(2) [OF w move(1)] by simp_all
    from stage_rename [OF st move(2) wf1 c(2)] show ?thesis
      using staged1 completed [OF resolved_names [OF nul up] _ c(1)] by auto
  qed (use staged1 in simp)
qed (simp add: serves.nothing)

text \<open>What the upload buffer holds is what was counted.\<close>

definition counted :: "UploadState \<Rightarrow> bool" where
  "counted u \<longleftrightarrow> up_received u = word_of_nat (length (up_buffer u))"

lemma counted_insert:
  assumes "insert_data grant d u = Inr u'" and "counted u"
  shows "counted (u'\<lparr>up_received := up_received u' + word_of_nat (length d)\<rparr>)"
  using assms by (auto simp: counted_def insert_data_def Let_def bind_result_Inr_iff split: if_splits)

lemma upload_counts:
  assumes "upload_loop cd grant start s = (r, s')"
  shows "(counted (upload_state s) \<longrightarrow> counted (upload_state s')) \<and> up_total_size (upload_state s') = up_total_size (upload_state s)"
    (is "?R s s'")
proof (rule upload_loop_relates [OF assms, where R = ?R])
  show "?R s (s\<lparr>upload_state := u\<lparr>up_received := up_received u + word_of_nat (length d)\<rparr>\<rparr>)"
    if "insert_data grant d (upload_state s) = Inr u" for s d u
    using counted_insert [OF that] that by (auto simp: insert_data_def Let_def bind_result_Inr_iff split: if_splits)
qed (simp_all add: upload_state_report send_error_def)

lemma serves_save:
  assumes sv: "save_upload cd s = (r, s')" and fs: "sound_storage (max_file (disk s)) (disk s)" "max_file (disk s) < 2 ^ 63"
    and nul: "CHR 0x00 \<notin> set (file_root s)"
    and count: "counted (upload_state s)"
  shows "serves (file_root s) (cwd (disk s)) (Upload (up_relative_path (upload_state s)) (up_total_size (upload_state s)))
    (file_at (disk s)) (file_at (disk s'))"
proof (cases "disk s' = disk s")
  case False
  let ?r = "file_root s" and ?u = "upload_state s" and ?fs = "disk s"
  obtain ok fs1 where total: "up_received ?u = up_total_size ?u"
    and w: "write_file_atomic ?r ?fs (up_relative_path ?u) (up_buffer ?u) = Inr (ok, fs1)"
    using sv False by (auto simp: save_upload_def Let_def split: sum.splits if_splits prod.splits)
  have st: "stages ?r (up_relative_path ?u) ?fs fs1" and up: "take 2 (lexically_normal (up_relative_path ?u)) \<noteq> ''..''"
    using stages_write_file [OF w] write_resolved(1) [OF w] by simp_all
  then have staged1: "serves ?r (cwd ?fs) (Upload (up_relative_path ?u) (up_total_size ?u)) (file_at ?fs) (file_at fs1)"
    using stages_serves [of ?r "Upload (up_relative_path ?u) (up_total_size ?u)" ?fs fs1] nul by simp
  note sound1 = sound_write_file [OF fs(1) w]
  consider (stay) "disk s' = fs1" | (move) moved where "ok" "atomic_rename_tmp ?r fs1 (up_relative_path ?u) = Inr (moved, disk s')"
    using sv w total by (auto simp: save_upload_def Let_def send_error_def split: sum.splits if_splits prod.splits)
  then show ?thesis
  proof cases
    case move
    have c: "file_at fs1 (temp_key ?r ?fs (up_relative_path ?u)) = Some (up_buffer ?u)"
      using write_file_atomic_effect(2) [OF w move(1)] .
    then have "length (up_buffer ?u) < 2 ^ 63"
      using files_bounded_at [of fs1] sound1 fs(2) by (fastforce simp: sound_storage_def)
    then have "length (up_buffer ?u) = unat (up_total_size ?u)" using count total by (simp add: counted_def unat_of_nat)
    from uploaded [OF resolved_names [OF nul up] _ this] stage_rename [OF st move(2) _ c] staged1 sound1 show ?thesis
      by (auto simp: sound_storage_def)
  qed (use staged1 in simp)
qed (simp add: serves.nothing)

lemma serves_upload_request:
  assumes h: "handle_zero_copy_upload_request cd grant msg s = (r, s')" and inv: "session_inv s"
    and nul: "CHR 0x00 \<notin> set (file_root s)" and req: "parse_ZeroCopyUploadRequest cd msg (int_size msg) = Some req"
  shows "serves (file_root s) (cwd (disk s)) (Upload (md_relative_path (ur_metadata req)) (md_file_size (ur_metadata req)))
    (file_at (disk s)) (file_at (disk s'))"
proof -
  let ?p = "md_relative_path (ur_metadata req)" and ?n = "md_file_size (ur_metadata req)"
  let ?u = "(upload_state s)\<lparr>up_relative_path := ?p, up_total_size := ?n, up_received := 0,
     up_expected_sha256 := md_sha256_hash (ur_metadata req), up_buffer := []\<rparr>"
  show ?thesis
  proof (cases "reserve_buffer grant (unat ?n) ?u")
    case (Inl e)
    then show ?thesis using req h by (auto simp: handle_zero_copy_upload_request_def Let_def intro: serves.nothing)
  next
    case (Inr u1)
    then have u1: "up_relative_path u1 = ?p" "up_total_size u1 = ?n" "up_received u1 = 0" "up_buffer u1 = []"
      by (auto simp: reserve_buffer_def bind_result_Inr_iff split: if_splits)
    let ?s2 = "send_message MSG_ZERO_COPY_UPLOAD_ACK (ser_ZeroCopyUploadAck cd
        \<lparr>ua_status = STATUS_OK, ua_error_message = [], ua_offset = 0\<rparr>) (s\<lparr>upload_state := u1, sess_state := TRANSFERRING\<rparr>)"
    obtain start s3 where c: "clock_now ?s2 = (start, s3)" by fastforce
    obtain r4 s4 where l: "upload_loop cd grant start s3 = (r4, s4)" by fastforce
    obtain r5 s5 where sv: "save_upload cd s4 = (r5, s5)" by fastforce
    have "same_service ?s2 s4"
      using same_service_clock [of ?s2] same_service_upload [OF l] c by (auto intro: same_service_trans)
    then have s4: "disk s4 = disk s" "file_root s4 = file_root s" by (simp_all add: same_service_def)
    have u3: "upload_state s3 = u1" using upload_state_clock [of ?s2] c by simp
    then have u4: "up_relative_path (upload_state s4) = ?p" "up_total_size (upload_state s4) = ?n"
      "counted (upload_state s4)"
      using upload_keeps_path [OF l] upload_counts [OF l] u1 by (simp_all add: counted_def)
    have "serves (file_root s) (cwd (disk s)) (Upload ?p ?n) (file_at (disk s)) (file_at (disk s5))"
      using serves_save [OF sv _ _ _ u4(3)] u4(1,2) s4 inv nul by (simp add: session_inv_def)
    moreover have "disk s' = disk s4 \<or> disk s' = disk s5"
      using req Inr c l sv h by (auto simp: handle_zero_copy_upload_request_def Let_def split: sum.splits)
    ultimately show ?thesis using s4(1) serves.nothing by metis
  qed
qed

text \<open>Every message has a permitted outcome, whether it is answered, fails or throws.\<close>

lemma dispatch_serves:
  assumes d: "dispatch cd grant f s = Some (r, s')" and inv: "session_inv s" and nul: "CHR 0x00 \<notin> set (file_root s)"
  shows "case requested cd f of None \<Rightarrow> disk s' = disk s
    | Some q \<Rightarrow> serves (file_root s) (cwd (disk s)) q (file_at (disk s)) (file_at (disk s'))"
proof (cases "written_path cd f")
  case None
  then have "requested cd f = None" by (auto simp: written_path_def requested_def Let_def split: if_splits)
  moreover have "disk s' = disk s"
    using dispatch_evolves [OF d] None inv by (simp add: session_inv_def sound_storage_def)
  ultimately show ?thesis by simp
next
  case (Some p)
  show ?thesis
  proof (cases "message_type f = MSG_ZERO_COPY_UPLOAD_REQUEST")
    case True
    then show ?thesis
      using d Some serves_upload_request [OF _ inv nul]
      by (auto simp: dispatch_def written_path_def requested_def Let_def)
  next
    case False
    then have ty: "message_type f = MSG_DELTA_SYNC_BLOCK_DATA" using Some by (auto simp: written_path_def Let_def split: if_splits)
    then obtain req where req: "parse_DeltaSyncBlockData cd (payload f) (int_size (payload f)) = Some req"
      using Some by (auto simp: written_path_def Let_def split: if_splits)
    have root: "ds_storage_root (delta_sync_handler s) = file_root s" "storage_wf (disk s)"
      using inv by (simp_all add: session_inv_def sound_storage_def)
    let ?fin = "length (bd_data req) < unat (negotiated_block_size s)"
    obtain a fs locks h' where h: "handle_block_data (delta_sync_handler s) (disk s) (file_mutex s)
        (bd_relative_path req) (bd_block_index req) (bd_block_offset req) (bd_data req) (bd_strong_hash req) ?fin = (a, fs, locks, h')"
      by (metis prod_cases4)
    have "disk s' = fs"
      using d ty req h by (auto simp: dispatch_def handle_delta_sync_block_data_def block_completion_def Let_def split: sum.splits if_splits)
    then show ?thesis
      using serves_block_data [OF h root(2)] nul req ty root(1) by (simp add: requested_def)
  qed
qed

section \<open>Claims about the store\<close>

text \<open>
  C6. Messages refine the abstract store: whatever a message is and whether it is answered, fails or
  throws, it leaves the disk alone unless it is an upload request or block data; then the files change
  only by writing the staging file of the path it names and by publishing what is staged there under
  the target name, and every other file keeps its contents.
\<close>

theorem message_refines_store:
  assumes "session_inv s" and "dispatch cd grant f s = Some (r, s')"
  shows "case written_path cd f of None \<Rightarrow> disk s' = disk s
    | Some p \<Rightarrow>
        (store_step (target_key (file_root s) (disk s) p) (temp_key (file_root s) (disk s) p))\<^sup>*\<^sup>*
          (file_at (disk s)) (file_at (disk s')) \<and>
        (\<forall>k. k \<noteq> target_key (file_root s) (disk s) p \<and> k \<noteq> temp_key (file_root s) (disk s) p \<longrightarrow>
          file_at (disk s') k = file_at (disk s) k)"
proof -
  have "storage_wf (disk s)" "ds_storage_root (delta_sync_handler s) = file_root s"
    using assms(1) by (simp_all add: session_inv_def sound_storage_def)
  from dispatch_evolves [OF assms(2) this] show ?thesis
    by (auto simp: evolves_def split: option.split dest: store_steps_frame)
qed

text \<open>A block message whose digest does not fit its data, for a file that is not there.\<close>

theorem message_refines_store_witness:
  "\<exists>r s'. dispatch (demo_codec\<lparr>parse_DeltaSyncBlockData := (\<lambda>_ _. Some \<lparr>bd_relative_path = ''sub/new'',
        bd_block_index = 0, bd_block_offset = 0, bd_data = [7], bd_strong_hash = ''wrong''\<rparr>)\<rparr>) 64
        \<lparr>message_type = MSG_DELTA_SYNC_BLOCK_DATA, payload = [1]\<rparr> (demo_session []) = Some (r, s') \<and>
     file_at (disk s') [''srv'', ''data'', ''notes''] = Some [1, 2, 3, 4, 5]"
proof -
  let ?cd = "demo_codec\<lparr>parse_DeltaSyncBlockData := (\<lambda>_ _. Some \<lparr>bd_relative_path = ''sub/new'',
        bd_block_index = 0, bd_block_offset = 0, bd_data = [7], bd_strong_hash = ''wrong''\<rparr>)\<rparr>"
  let ?f = "\<lparr>message_type = MSG_DELTA_SYNC_BLOCK_DATA, payload = [1]\<rparr>" and ?s = "demo_session []"
  obtain r s' where d: "dispatch ?cd 64 ?f ?s = Some (r, s')" by (simp add: dispatch_def) (metis prod.exhaust)
  have "written_path ?cd ?f = Some ''sub/new''" by (simp add: written_path_def)
  moreover have "file_at demo_storage [''srv'', ''data'', ''notes''] = Some [1, 2, 3, 4, 5]"
    "target_key ''./data'' demo_storage ''sub/new'' = [''srv'', ''data'', ''sub'', ''new'']"
    "temp_key ''./data'' demo_storage ''sub/new'' = [''srv'', ''data'', ''sub'', ''new.tmp'']" by code_simp+
  ultimately have "file_at (disk s') [''srv'', ''data'', ''notes''] = Some [1, 2, 3, 4, 5]"
    using message_refines_store [OF session_loop.start_invariant [OF demo_session_start] d] by simp
  with d show ?thesis by blast
qed

end
