(* ===== verification/Server.thy ===== *)
theory Server
  imports Session_Storage
begin

text \<open>
  The server (\<^verbatim>\<open>server.h\<close>, \<^verbatim>\<open>server.cpp\<close>): the constructor, the accept loops over a script of what the
  kernel answers, the worker threads, shutdown and the destructor.  A worker is the session it serves; the
  threads of the server interleave message by message, which is the step relation \<open>server_step\<close>.  An
  exception that leaves a worker ends the whole process (\<^verbatim>\<open>std::terminate\<close>), so it has no next state.  The
  banner and console output are not modelled.
\<close>

section \<open>Configuration\<close>

record ServerConfig =
  cfg_port :: u16
  cfg_storage_root :: string
  cfg_thread_count :: u32
  cfg_block_size :: u32
  cfg_max_connections :: u32

definition ServerConfig_init :: ServerConfig where
  "ServerConfig_init = \<lparr>cfg_port = 9090, cfg_storage_root = ''./storage'', cfg_thread_count = 0,
     cfg_block_size = 65536, cfg_max_connections = 100\<rparr>"

section \<open>The server\<close>

text \<open>
  A worker thread runs \<^verbatim>\<open>handle_client\<close> on a session of its own.  The storage and the lock table are
  the server's; a session works on them when it is its turn.
\<close>

datatype worker = Serving Session | Finished

record AdaptiveSyncServer =
  config :: ServerConfig
  srv_disk :: storage
  srv_mutex :: FileMutex
  running :: bool
  server_fd :: int
  worker_threads :: "worker list"
  total_connections :: u64
  active_connections :: u64

definition AdaptiveSyncServer_init :: "u32 \<Rightarrow> ServerConfig \<Rightarrow> storage \<Rightarrow> AdaptiveSyncServer result" where
  "AdaptiveSyncServer_init hardware_concurrency cfg fs =
     (case FileManager_init (cfg_storage_root cfg) fs of
        (Inl e, _) \<Rightarrow> Inl e
      | (Inr _, fs1) \<Rightarrow>
          let threads = (if cfg_thread_count cfg = 0
                         then if hardware_concurrency = 0 then 4 else hardware_concurrency
                         else cfg_thread_count cfg) in
          Inr \<lparr>config = cfg\<lparr>cfg_thread_count := threads\<rparr>, srv_disk = fs1, srv_mutex = FileMutex_init,
               running = False, server_fd = -1, worker_threads = [], total_connections = 0, active_connections = 0\<rparr>)"

text \<open>\<^verbatim>\<open>shutdown\<close>, which the signal handler and the destructor call: the listening socket is closed once.\<close>

definition srv_shutdown :: "AdaptiveSyncServer \<Rightarrow> AdaptiveSyncServer" where
  "srv_shutdown srv =
     (let srv1 = srv\<lparr>running := False\<rparr> in
      if server_fd srv1 \<noteq> -1 then srv1\<lparr>server_fd := -1\<rparr> else srv1)"

text \<open>The signal handler; \<^verbatim>\<open>run\<close> has set \<^verbatim>\<open>g_server\<close> to the server before it is installed.\<close>

definition signal_handler :: "AdaptiveSyncServer option \<Rightarrow> AdaptiveSyncServer option" where
  "signal_handler g_server = (case g_server of None \<Rightarrow> None | Some srv \<Rightarrow> Some (srv_shutdown srv))"

definition init_storage :: "AdaptiveSyncServer \<Rightarrow> AdaptiveSyncServer result" where
  "init_storage srv =
     (let (ok, fs) = create_directories (srv_disk srv) (cfg_storage_root (config srv)) in
      if ok then Inr (srv\<lparr>srv_disk := fs\<rparr>) else Inl Filesystem_error)"

text \<open>
  The tail of an accept: count the connection and start a worker on a new session.  When the system has
  no thread to give, \<^verbatim>\<open>std::system_error\<close> leaves the loop with the connection already counted.
\<close>

definition count_client :: "AdaptiveSyncServer \<Rightarrow> AdaptiveSyncServer" where
  "count_client srv =
     srv\<lparr>total_connections := total_connections srv + 1, active_connections := active_connections srv + 1\<rparr>"

definition spawn_client :: "nat list \<Rightarrow> socket \<Rightarrow> string \<Rightarrow> AdaptiveSyncServer \<Rightarrow> AdaptiveSyncServer" where
  "spawn_client steps fd addr srv =
     (let session = Session_init fd addr (cfg_storage_root (config srv)) (srv_disk srv) (srv_mutex srv) steps
            (cfg_block_size (config srv)) in
      (count_client srv)\<lparr>worker_threads := worker_threads srv @ [Serving session]\<rparr>)"

section \<open>The accept loops\<close>

text \<open>
  What one \<^verbatim>\<open>accept\<close> leads to: a connection (with the script of its socket and of its clock) with or
  without a thread for it, a failure, or a failure because a signal came in and its handler shut the
  server down.  One \<^verbatim>\<open>epoll_wait\<close> or \<^verbatim>\<open>select\<close> reports ready events (none at a timeout), fails, or is
  interrupted by the signal handler.
\<close>

datatype accept_event = Accepted "nat list" socket string | Accepted_no_thread | Accept_failed errno | Accept_signal

datatype wait_event = Wait_ready "accept_event list" | Wait_failed errno | Wait_signal

definition accept_client :: "accept_event \<Rightarrow> AdaptiveSyncServer \<Rightarrow> unit result \<times> AdaptiveSyncServer" where
  "accept_client ev srv =
     (case ev of
        Accepted steps fd addr \<Rightarrow> (Inr (), spawn_client steps fd addr srv)
      | Accepted_no_thread \<Rightarrow> (Inl System_error, count_client srv)
      | Accept_failed _ \<Rightarrow> (Inr (), srv)
      | Accept_signal \<Rightarrow> (Inr (), the (signal_handler (Some srv))))"

text \<open>The events of one wait all carry the descriptor that was registered; it is compared with the current one.\<close>

fun accept_events :: "int \<Rightarrow> accept_event list \<Rightarrow> AdaptiveSyncServer \<Rightarrow> unit result \<times> AdaptiveSyncServer" where
  "accept_events event_fd [] srv = (Inr (), srv)"
| "accept_events event_fd (ev # evs) srv =
     (if event_fd = server_fd srv
      then case accept_client ev srv of
             (Inl e, srv1) \<Rightarrow> (Inl e, srv1)
           | (Inr _, srv1) \<Rightarrow> accept_events event_fd evs srv1
      else accept_events event_fd evs srv)"

text \<open>\<open>None\<close>: the script is used up and the server still waits.\<close>

fun epoll_loop :: "int \<Rightarrow> wait_event list \<Rightarrow> AdaptiveSyncServer \<Rightarrow> (unit result \<times> AdaptiveSyncServer) option" where
  "epoll_loop event_fd [] srv = (if running srv then None else Some (Inr (), srv))"
| "epoll_loop event_fd (w # ws) srv =
     (if \<not> running srv then Some (Inr (), srv)
      else case w of
        Wait_failed e \<Rightarrow> if e = EINTR then epoll_loop event_fd ws srv else Some (Inr (), srv)
      | Wait_signal \<Rightarrow> epoll_loop event_fd ws (the (signal_handler (Some srv)))
      | Wait_ready evs \<Rightarrow>
          (case accept_events event_fd evs srv of
             (Inl e, srv1) \<Rightarrow> Some (Inl e, srv1)
           | (Inr _, srv1) \<Rightarrow> epoll_loop event_fd ws srv1))"

definition run_epoll :: "bool \<Rightarrow> wait_event list \<Rightarrow> AdaptiveSyncServer \<Rightarrow> (unit result \<times> AdaptiveSyncServer) option" where
  "run_epoll epoll_created script srv =
     (if epoll_created then epoll_loop (server_fd srv) script srv else Some (Inr (), srv))"

fun run_select :: "wait_event list \<Rightarrow> AdaptiveSyncServer \<Rightarrow> (unit result \<times> AdaptiveSyncServer) option" where
  "run_select [] srv = (if running srv then None else Some (Inr (), srv))"
| "run_select (w # ws) srv =
     (if \<not> running srv then Some (Inr (), srv)
      else case w of
        Wait_failed e \<Rightarrow> if e = EINTR then run_select ws srv else Some (Inr (), srv)
      | Wait_signal \<Rightarrow> run_select ws (the (signal_handler (Some srv)))
      | Wait_ready [] \<Rightarrow> run_select ws srv
      | Wait_ready (ev # _) \<Rightarrow>
          (case accept_client ev srv of
             (Inl e, srv1) \<Rightarrow> Some (Inl e, srv1)
           | (Inr _, srv1) \<Rightarrow> run_select ws srv1))"

definition run_iocp :: "wait_event list \<Rightarrow> AdaptiveSyncServer \<Rightarrow> (unit result \<times> AdaptiveSyncServer) option" where
  "run_iocp script srv = run_select script srv"

text \<open>The answers of the operating system while the server starts to listen.\<close>

record net_answers =
  socket_fd :: int
  bind_ok :: bool
  listen_ok :: bool
  epoll_ok :: bool

definition srv_run :: "net_answers \<Rightarrow> wait_event list \<Rightarrow> AdaptiveSyncServer \<Rightarrow> (unit result \<times> AdaptiveSyncServer) option" where
  "srv_run net script srv =
     (case init_storage (srv\<lparr>running := True\<rparr>) of
        Inl e \<Rightarrow> Some (Inl e, srv\<lparr>running := True\<rparr>)
      | Inr srv1 \<Rightarrow>
          let srv2 = srv1\<lparr>server_fd := socket_fd net\<rparr> in
          if server_fd srv2 = -1 then Some (Inr (), srv2)
          else if \<not> bind_ok net then Some (Inr (), srv2)
          else if \<not> listen_ok net then Some (Inr (), srv2)
          else run_epoll (epoll_ok net) script srv2)"

section \<open>Worker threads\<close>

definition attach :: "AdaptiveSyncServer \<Rightarrow> Session \<Rightarrow> Session" where
  "attach srv s = s\<lparr>disk := srv_disk srv, file_mutex := srv_mutex srv\<rparr>"

text \<open>One message of worker \<open>i\<close>, and the end of \<^verbatim>\<open>handle_client\<close> when the session's loop ends.\<close>

definition store_turn :: "nat \<Rightarrow> Session \<Rightarrow> AdaptiveSyncServer \<Rightarrow> AdaptiveSyncServer" where
  "store_turn i s srv =
     srv\<lparr>srv_disk := disk s, srv_mutex := file_mutex s, worker_threads := (worker_threads srv)[i := Serving s]\<rparr>"

definition finish_client :: "nat \<Rightarrow> AdaptiveSyncServer \<Rightarrow> AdaptiveSyncServer" where
  "finish_client i srv =
     srv\<lparr>active_connections := active_connections srv - 1, worker_threads := (worker_threads srv)[i := Finished]\<rparr>"

definition handle_client ::
    "codec \<Rightarrow> nat \<Rightarrow> nat \<Rightarrow> AdaptiveSyncServer \<Rightarrow> (unit result \<times> AdaptiveSyncServer) option" where
  "handle_client cd grant i srv =
     (case worker_threads srv ! i of
        Finished \<Rightarrow> Some (Inr (), srv)
      | Serving s \<Rightarrow>
          (case run cd grant (attach srv s) of
             None \<Rightarrow> None
           | Some (Inl e, s') \<Rightarrow> Some (Inl e, store_turn i s' srv)
           | Some (Inr _, s') \<Rightarrow> Some (Inr (), finish_client i (store_turn i s' srv))))"

text \<open>
  The destructor: shut down, then wait for the workers in the order they were started.  Nothing asks a
  session to stop, so each worker goes on until its client closes the connection; here it does so when it is
  waited for.  A worker whose client stays connected and falls silent is waited for in vain (\<open>None\<close>), unless an
  exception in another worker ends the process (\<open>Inl\<close>).
\<close>

fun join_workers :: "codec \<Rightarrow> nat \<Rightarrow> nat list \<Rightarrow> AdaptiveSyncServer \<Rightarrow> AdaptiveSyncServer result option" where
  "join_workers cd grant [] srv = Some (Inr srv)"
| "join_workers cd grant (i # threads) srv =
     (case handle_client cd grant i srv of
        None \<Rightarrow> None
      | Some (Inr _, srv1) \<Rightarrow> join_workers cd grant threads srv1
      | Some (Inl e, srv1) \<Rightarrow>
          if e = Waits_for_peer
          then (case join_workers cd grant threads srv1 of Some (Inl e') \<Rightarrow> Some (Inl e') | _ \<Rightarrow> None)
          else Some (Inl e))"

definition AdaptiveSyncServer_destroy :: "codec \<Rightarrow> nat \<Rightarrow> AdaptiveSyncServer \<Rightarrow> AdaptiveSyncServer result option" where
  "AdaptiveSyncServer_destroy cd grant srv =
     (let srv1 = srv_shutdown srv;
          srv2 = (if server_fd srv1 \<noteq> -1 then srv1\<lparr>server_fd := -1\<rparr> else srv1) in
      join_workers cd grant [0..<length (worker_threads srv2)] srv2)"

section \<open>Steps\<close>

text \<open>
  The steps of the whole server: a connection is accepted, a worker serves one message, a worker whose
  client is gone ends, a signal arrives.  The messages of different sessions interleave freely.  What ends the
  serving of clients is not a step: an exception in a worker, and a thread that cannot be started, with which
  \<^verbatim>\<open>run\<close> is left (\<open>accept_client\<close>).
\<close>

inductive server_step :: "codec \<Rightarrow> nat \<Rightarrow> AdaptiveSyncServer \<Rightarrow> AdaptiveSyncServer \<Rightarrow> bool" for cd grant where
  accepting: "running srv \<Longrightarrow> server_step cd grant srv (spawn_client steps fd addr srv)"
| serving: "\<lbrakk>i < length (worker_threads srv); worker_threads srv ! i = Serving s;
      session_step cd grant (attach srv s) s'\<rbrakk> \<Longrightarrow> server_step cd grant srv (store_turn i s' srv)"
| leaving: "\<lbrakk>i < length (worker_threads srv); worker_threads srv ! i = Serving s;
      read_frame grant (client_fd s) = (Inr None, fd)\<rbrakk> \<Longrightarrow> server_step cd grant srv (finish_client i srv)"
| signalled: "server_step cd grant srv (srv_shutdown srv)"

inductive_cases server_stepE: "server_step cd grant srv srv'"

section \<open>The invariant of the server\<close>

definition is_serving :: "worker \<Rightarrow> bool" where
  "is_serving w = (case w of Serving _ \<Rightarrow> True | Finished \<Rightarrow> False)"

definition serving :: "AdaptiveSyncServer \<Rightarrow> nat" where
  "serving srv = length (filter is_serving (worker_threads srv))"

definition shared_inv :: "storage \<Rightarrow> FileMutex \<Rightarrow> bool" where
  "shared_inv fs locks \<longleftrightarrow> quiet locks \<and> sound_storage (max_file fs) fs \<and> max_file fs < 2 ^ 63"

definition worker_inv :: "AdaptiveSyncServer \<Rightarrow> worker \<Rightarrow> bool" where
  "worker_inv srv w = (case w of Finished \<Rightarrow> True
     | Serving s \<Rightarrow> session_inv (attach srv s) \<and> file_root s = cfg_storage_root (config srv) \<and>
         ds_block_size (delta_sync_handler s) = cfg_block_size (config srv))"

definition workers_inv :: "AdaptiveSyncServer \<Rightarrow> bool" where
  "workers_inv srv \<longleftrightarrow> shared_inv (srv_disk srv) (srv_mutex srv) \<and> list_all (worker_inv srv) (worker_threads srv)"

definition server_inv :: "AdaptiveSyncServer \<Rightarrow> bool" where
  "server_inv srv \<longleftrightarrow>
     total_connections srv = word_of_nat (length (worker_threads srv)) \<and>
     active_connections srv = word_of_nat (serving srv) \<and> workers_inv srv"

lemma session_inv_attach:
  assumes "session_inv s" and "shared_inv fs locks"
  shows "session_inv (s\<lparr>disk := fs, file_mutex := locks\<rparr>)"
  using assms by (simp add: session_inv_def shared_inv_def)

lemma session_inv_shared: "session_inv s \<Longrightarrow> shared_inv (disk s) (file_mutex s)"
  by (simp add: session_inv_def shared_inv_def)

lemma session_inv_init: "shared_inv fs locks \<Longrightarrow> session_inv (Session_init fd addr r fs locks steps bs)"
  by (simp add: session_inv_def shared_inv_def Session_init_def DeltaSyncHandler_init_def)

lemma worker_inv_shared:
  assumes "worker_inv srv w" and "shared_inv (srv_disk srv') (srv_mutex srv')" and "config srv' = config srv"
  shows "worker_inv srv' w"
  using assms session_inv_attach [OF _ assms(2)]
  by (fastforce simp: worker_inv_def attach_def split: worker.splits)

lemma serving_update:
  assumes "i < length ws" and "is_serving (ws ! i)"
  shows "length (filter is_serving (ws[i := Serving s])) = length (filter is_serving ws)"
    and "length (filter is_serving ws) = Suc (length (filter is_serving (ws[i := Finished])))"
proof -
  have "ws = take i ws @ ws ! i # drop (Suc i) ws" using assms(1) by (simp add: id_take_nth_drop)
  then have *: "length (filter is_serving ws) = length (filter is_serving (take i ws)) +
      Suc (length (filter is_serving (drop (Suc i) ws)))"
    using assms(2) by (metis filter.simps(2) filter_append length_Cons length_append)
  show "length (filter is_serving (ws[i := Serving s])) = length (filter is_serving ws)"
    "length (filter is_serving ws) = Suc (length (filter is_serving (ws[i := Finished])))"
    using assms(1) * by (simp_all add: upd_conv_take_nth_drop is_serving_def)
qed

lemma session_step_keeps:
  assumes "session_inv s" and "session_step cd grant s s'"
  shows "keeps s s'"
  using assms(2)
proof (rule session_stepE)
  fix frame fd
  assume rd: "read_frame grant (client_fd s) = (Inr (Some frame), fd)"
    and d: "dispatch cd grant frame (s\<lparr>client_fd := fd\<rparr>) = Some (Inr (), s')"
  have "settled (s\<lparr>client_fd := fd\<rparr>) (Inr (), s')"
    using dispatch_settled [of "s\<lparr>client_fd := fd\<rparr>" "max_file (disk s)" cd grant frame] d assms(1)
    by (simp add: session_inv_def)
  then have "keeps (s\<lparr>client_fd := fd\<rparr>) s'" by (simp add: settled_def)
  with same_service_keeps [OF same_service_read [OF rd]] show ?thesis by (rule keeps_trans)
qed

lemma workers_inv_spawn: "workers_inv srv \<Longrightarrow> workers_inv (spawn_client steps fd addr srv)"
  using session_inv_init [of "srv_disk srv" "srv_mutex srv"] worker_inv_shared [of srv _ "spawn_client steps fd addr srv"]
  by (auto simp: workers_inv_def spawn_client_def count_client_def Let_def worker_inv_def list_all_iff
      attach_def Session_init_def DeltaSyncHandler_init_def)

lemma workers_inv_same:
  assumes "workers_inv srv" and "config srv' = config srv" "srv_disk srv' = srv_disk srv" "srv_mutex srv' = srv_mutex srv"
    "worker_threads srv' = worker_threads srv"
  shows "workers_inv srv'"
  using assms worker_inv_shared [of srv _ srv'] by (auto simp: workers_inv_def list_all_iff)

lemma workers_inv_shutdown: "workers_inv srv \<Longrightarrow> workers_inv (srv_shutdown srv)"
  by (rule workers_inv_same [of srv]) (simp_all add: srv_shutdown_def Let_def)

lemma server_inv_spawn: "server_inv srv \<Longrightarrow> server_inv (spawn_client steps fd addr srv)"
  using workers_inv_spawn [of srv steps fd addr]
  by (auto simp: server_inv_def spawn_client_def count_client_def Let_def serving_def is_serving_def)

lemma server_inv_shutdown: "server_inv srv \<Longrightarrow> server_inv (srv_shutdown srv)"
  using workers_inv_shutdown [of srv] by (auto simp: server_inv_def srv_shutdown_def Let_def serving_def)

text \<open>A worker may leave the shared state in any good shape, and its own session too.\<close>

lemma workers_inv_turn:
  assumes inv: "workers_inv srv" and i: "i < length (worker_threads srv)" "worker_threads srv ! i = Serving s"
    and st: "session_step cd grant (attach srv s) s'"
  shows "workers_inv (store_turn i s' srv)"
proof -
  have w: "worker_inv srv (Serving s)"
    using inv i by (metis list_all_length workers_inv_def)
  then have s: "session_inv (attach srv s)" by (simp add: worker_inv_def)
  have s': "session_inv s'" by (rule session_step_inv [OF s st])
  have shared: "shared_inv (disk s') (file_mutex s')" by (rule session_inv_shared [OF s'])
  have "worker_inv (store_turn i s' srv) (Serving s')"
    using w s' session_step_keeps [OF s st] session_inv_attach [OF s' shared]
    by (simp add: worker_inv_def store_turn_def attach_def keeps_def)
  moreover have "list_all (worker_inv (store_turn i s' srv)) (worker_threads srv)"
    using inv worker_inv_shared [of srv _ "store_turn i s' srv"] shared
    by (auto simp: workers_inv_def list_all_iff store_turn_def)
  ultimately have "list_all (worker_inv (store_turn i s' srv)) ((worker_threads srv)[i := Serving s'])"
    by (auto simp: list_all_iff dest!: set_update_subset_insert [THEN subsetD])
  then show ?thesis using shared by (simp add: workers_inv_def store_turn_def)
qed

lemma workers_inv_finish:
  assumes inv: "workers_inv srv"
  shows "workers_inv (finish_client i srv)"
proof -
  have "list_all (worker_inv (finish_client i srv)) (worker_threads srv)"
    using inv worker_inv_shared [of srv _ "finish_client i srv"] by (auto simp: workers_inv_def list_all_iff finish_client_def)
  then have "list_all (worker_inv (finish_client i srv)) ((worker_threads srv)[i := Finished])"
    by (auto simp: list_all_iff worker_inv_def dest!: set_update_subset_insert [THEN subsetD])
  then show ?thesis using inv by (simp add: workers_inv_def finish_client_def)
qed

lemma server_inv_turn:
  assumes inv: "server_inv srv" and i: "i < length (worker_threads srv)" "worker_threads srv ! i = Serving s"
    and st: "session_step cd grant (attach srv s) s'"
  shows "server_inv (store_turn i s' srv)"
  using inv workers_inv_turn [OF _ i st] serving_update(1) [OF i(1), of s'] i(2)
  by (simp add: server_inv_def store_turn_def serving_def is_serving_def)

lemma server_inv_finish:
  assumes inv: "server_inv srv" and i: "i < length (worker_threads srv)" "worker_threads srv ! i = Serving s"
  shows "server_inv (finish_client i srv)"
proof -
  have "active_connections srv - 1 = word_of_nat (length (filter is_serving ((worker_threads srv)[i := Finished])))"
    using inv serving_update(2) [OF i(1)] i(2) by (simp add: server_inv_def serving_def is_serving_def)
  then show ?thesis using inv workers_inv_finish [of srv i] by (simp add: server_inv_def finish_client_def serving_def)
qed

definition server_start :: "AdaptiveSyncServer \<Rightarrow> bool" where
  "server_start srv \<longleftrightarrow> (\<exists>hw cfg fs srv0. AdaptiveSyncServer_init hw cfg fs = Inr srv0 \<and>
     storage_wf fs \<and> files_bounded fs \<and> max_file fs < 2 ^ 63 \<and> srv = srv0\<lparr>running := True\<rparr>)"

lemma server_inv_start:
  assumes "server_start srv"
  shows "server_inv srv"
proof -
  obtain hw cfg fs srv0 where init: "AdaptiveSyncServer_init hw cfg fs = Inr srv0"
    and fs: "storage_wf fs" "files_bounded fs" "max_file fs < 2 ^ 63" and srv: "srv = srv0\<lparr>running := True\<rparr>"
    using assms by (auto simp: server_start_def)
  have "srv_disk srv0 = snd (create_directories fs (cfg_storage_root cfg))"
    using init by (auto simp: AdaptiveSyncServer_init_def FileManager_init_def Let_def split: prod.splits if_splits)
  then have "shared_inv (srv_disk srv0) FileMutex_init"
    using fs by (simp add: shared_inv_def sound_storage_def create_directories_wf create_directories_bounded)
  then show ?thesis
    using init srv
    by (auto simp: AdaptiveSyncServer_init_def Let_def server_inv_def workers_inv_def serving_def split: prod.splits sum.splits)
qed

interpretation server_loop: transition_system server_start "server_step cd grant" server_inv for cd grant
proof
  show "server_inv t" if "server_inv s" "server_step cd grant s t" for s t
    using that(2)
    by (cases rule: server_step.cases)
      (auto intro: that(1) server_inv_spawn server_inv_shutdown server_inv_turn server_inv_finish)
qed (rule server_inv_start)

section \<open>The executable loops take these steps\<close>

text \<open>A server that accepts has its listening socket; shutting down gives it up.\<close>

definition listening :: "int \<Rightarrow> AdaptiveSyncServer \<Rightarrow> bool" where
  "listening event_fd srv \<longleftrightarrow> event_fd \<noteq> -1 \<and> (server_fd srv = event_fd \<and> running srv \<or> server_fd srv = -1 \<and> \<not> running srv)"

lemma listening_accept:
  assumes "listening event_fd srv" and "server_fd srv = event_fd" and "accept_client ev srv = (Inr (), srv')"
  shows "listening event_fd srv' \<and> (server_step cd grant)\<^sup>*\<^sup>* srv srv'"
proof (cases ev)
  case (Accepted steps fd addr)
  have "running srv" using assms by (auto simp: listening_def)
  then have "server_step cd grant srv (spawn_client steps fd addr srv)" by (rule accepting)
  then show ?thesis
    using assms Accepted by (auto simp: accept_client_def listening_def spawn_client_def count_client_def Let_def)
next
  case Accept_signal
  then have "srv' = srv_shutdown srv" using assms(3) by (simp add: accept_client_def signal_handler_def)
  then show ?thesis
    using assms(1,2) signalled [of cd grant srv] by (auto simp: listening_def srv_shutdown_def Let_def)
qed (use assms in \<open>simp_all add: accept_client_def\<close>)

lemma accept_events_steps:
  assumes "listening event_fd srv" and "accept_events event_fd evs srv = (Inr (), srv')"
  shows "listening event_fd srv' \<and> (server_step cd grant)\<^sup>*\<^sup>* srv srv'"
  using assms
proof (induction evs arbitrary: srv)
  case (Cons ev evs)
  show ?case
  proof (cases "server_fd srv = event_fd")
    case True
    then obtain srv1 where "accept_client ev srv = (Inr (), srv1)" "accept_events event_fd evs srv1 = (Inr (), srv')"
      using Cons.prems(2) by (auto split: prod.splits sum.splits)
    then show ?thesis
      using listening_accept [OF Cons.prems(1) True] Cons.IH [of srv1] by (meson rtranclp_trans)
  next
    case False
    then show ?thesis using Cons by auto
  qed
qed simp

lemma listening_shutdown: "listening event_fd srv \<Longrightarrow> running srv \<Longrightarrow> listening event_fd (srv_shutdown srv)"
  by (auto simp: listening_def srv_shutdown_def Let_def)

lemma epoll_loop_steps:
  assumes "listening event_fd srv" and "epoll_loop event_fd ws srv = Some (Inr (), srv')"
  shows "(server_step cd grant)\<^sup>*\<^sup>* srv srv'"
  using assms
proof (induction ws arbitrary: srv)
  case (Cons w ws)
  show ?case
  proof (cases "running srv")
    case True
    show ?thesis
    proof (cases w)
      case (Wait_ready evs)
      then obtain srv1 where "accept_events event_fd evs srv = (Inr (), srv1)" "epoll_loop event_fd ws srv1 = Some (Inr (), srv')"
        using Cons.prems(2) True by (auto split: prod.splits sum.splits)
      then show ?thesis
        using accept_events_steps [OF Cons.prems(1)] Cons.IH [of srv1] by (meson rtranclp_trans)
    next
      case Wait_signal
      then have "(server_step cd grant)\<^sup>*\<^sup>* (srv_shutdown srv) srv'"
        using Cons.IH Cons.prems True listening_shutdown [OF Cons.prems(1) True] by (simp add: signal_handler_def)
      then show ?thesis by (rule converse_rtranclp_into_rtranclp [of "server_step cd grant", OF signalled])
    qed (use Cons True in \<open>auto split: if_splits\<close>)
  qed (use Cons.prems in simp)
qed (simp split: if_splits)

text \<open>With at most one event per wait the two accept loops do the same.\<close>

lemma run_select_epoll:
  assumes "listening event_fd srv" and "\<forall>w \<in> set ws. case w of Wait_ready evs \<Rightarrow> length evs \<le> 1 | _ \<Rightarrow> True"
  shows "run_select ws srv = epoll_loop event_fd ws srv"
  using assms
proof (induction ws arbitrary: srv)
  case (Cons w ws)
  show ?case
  proof (cases "running srv")
    case True
    then have fd: "server_fd srv = event_fd" using Cons.prems(1) by (auto simp: listening_def)
    show ?thesis
    proof (cases w)
      case (Wait_ready evs)
      then consider "evs = []" | ev where "evs = [ev]"
        using Cons.prems(2) by (cases evs) auto
      then show ?thesis
        using Cons True fd Wait_ready listening_accept [OF Cons.prems(1) fd]
        by cases (auto split: prod.split sum.split)
    qed (use Cons True listening_shutdown [OF Cons.prems(1) True] in \<open>auto simp: signal_handler_def\<close>)
  qed simp
qed simp

text \<open>A worker left alone: \<open>run\<close> is the sequence of its session's turns.\<close>

lemma run_steps:
  assumes "session_inv s" and "run cd grant s = Some (Inr (), s')"
  obtains t fd where "(session_step cd grant)\<^sup>*\<^sup>* s t" "read_frame grant (client_fd t) = (Inr None, fd)"
    "s' = t\<lparr>client_fd := fd, sess_state := DISCONNECTED\<rparr>"
  using assms
proof (induction "rx_size (rx (client_fd s))" arbitrary: s thesis rule: less_induct)
  case less
  have on: "\<not> shutdown_requested s" "sess_state s \<noteq> DISCONNECTED" using less.prems(2) by (auto simp: session_inv_def)
  obtain a fd where rd: "read_frame grant (client_fd s) = (a, fd)" by fastforce
  consider (stop) e where "a = Inl e" | (closed) "a = Inr None" | (frame) f where "a = Inr (Some f)"
    by (metis old.sum.exhaust option.exhaust)
  then show ?case
  proof cases
    case closed
    then show ?thesis
      using less.prems(1) [of s fd] less.prems(3) on rd by (simp add: run.simps [of cd grant s])
  next
    case frame
    let ?s1 = "s\<lparr>client_fd := fd\<rparr>"
    obtain r s2 where d: "dispatch cd grant f ?s1 = Some (r, s2)"
      using less.prems(3) on rd frame by (auto simp: run.simps [of cd grant s] split: option.splits)
    then have "r = Inr ()" and go: "run cd grant s2 = Some (Inr (), s')"
      using less.prems(3) on rd frame by (auto simp: run.simps [of cd grant s] split: sum.splits)
    then have st: "session_step cd grant s s2" using on rd frame d by (intro turn) simp_all
    have "settled ?s1 (r, s2)"
      using dispatch_settled [of ?s1 "max_file (disk s)" cd grant f] d less.prems(2) by (simp add: session_inv_def)
    then have "rx_size (rx (client_fd s2)) < rx_size (rx (client_fd s))"
      using read_frame_progress [OF rd [unfolded frame]] by (auto simp: settled_def keeps_def)
    then show ?thesis
    proof (rule less.hyps [OF _ _ session_step_inv [OF less.prems(2) st] go])
      fix t fd'
      assume "(session_step cd grant)\<^sup>*\<^sup>* s2 t" "read_frame grant (client_fd t) = (Inr None, fd')"
        "s' = t\<lparr>client_fd := fd', sess_state := DISCONNECTED\<rparr>"
      then show ?thesis
        using less.prems(1) converse_rtranclp_into_rtranclp [of "session_step cd grant" s s2 t, OF st] by blast
    qed
  qed (use less.prems(3) on rd in \<open>simp add: run.simps [of cd grant s]\<close>)
qed

lemma session_turns_steps:
  assumes "(session_step cd grant)\<^sup>*\<^sup>* (attach srv s) t"
    and i: "i < length (worker_threads srv)" "worker_threads srv ! i = Serving s"
  shows "t = attach srv s \<or> (server_step cd grant)\<^sup>*\<^sup>* srv (store_turn i t srv)"
  using assms(1)
proof (induction rule: rtranclp_induct)
  case (step t u)
  have again: "server_step cd grant (store_turn i t srv) (store_turn i u (store_turn i t srv))"
  proof (rule server_step.serving)
    show "session_step cd grant (attach (store_turn i t srv) t) u" using step.hyps(2) by (simp add: attach_def store_turn_def)
  qed (use i(1) in \<open>simp_all add: store_turn_def\<close>)
  have same: "store_turn i u (store_turn i t srv) = store_turn i u srv" by (simp add: store_turn_def)
  from step.IH show ?case
  proof
    assume "t = attach srv s"
    then have "server_step cd grant srv (store_turn i u srv)" using step.hyps(2) i by (intro server_step.serving) simp_all
    then show ?thesis by blast
  next
    assume "(server_step cd grant)\<^sup>*\<^sup>* srv (store_turn i t srv)"
    then show ?thesis using again same by (simp add: rtranclp.rtrancl_into_rtrancl)
  qed
qed simp

lemma handle_client_steps:
  assumes inv: "server_inv srv" and i: "i < length (worker_threads srv)"
    and h: "handle_client cd grant i srv = Some (Inr (), srv')"
  shows "(server_step cd grant)\<^sup>*\<^sup>* srv srv'"
proof (cases "worker_threads srv ! i")
  case (Serving s)
  have "worker_inv srv (Serving s)" using inv i Serving by (metis list_all_length server_inv_def workers_inv_def)
  then have s: "session_inv (attach srv s)" by (simp add: worker_inv_def)
  obtain s' where r: "run cd grant (attach srv s) = Some (Inr (), s')" and srv': "srv' = finish_client i (store_turn i s' srv)"
    using h Serving by (auto simp: handle_client_def split: option.splits sum.splits)
  obtain t fd where t: "(session_step cd grant)\<^sup>*\<^sup>* (attach srv s) t" "read_frame grant (client_fd t) = (Inr None, fd)"
    "s' = t\<lparr>client_fd := fd, sess_state := DISCONNECTED\<rparr>"
    by (rule run_steps [OF s r])
  have srv't: "srv' = finish_client i (store_turn i t srv)"
    using srv' t(3) by (simp add: finish_client_def store_turn_def)
  from session_turns_steps [OF t(1) i Serving] show ?thesis
  proof
    assume "t = attach srv s"
    then have "srv' = finish_client i srv" "read_frame grant (client_fd s) = (Inr None, fd)"
      using srv't t(2) by (simp_all add: attach_def finish_client_def store_turn_def)
    then show ?thesis using leaving [OF i Serving] by auto
  next
    assume "(server_step cd grant)\<^sup>*\<^sup>* srv (store_turn i t srv)"
    moreover have "server_step cd grant (store_turn i t srv) srv'"
      unfolding srv't by (rule leaving [OF _ _ t(2)]) (use i in \<open>simp_all add: store_turn_def\<close>)
    ultimately show ?thesis by (rule rtranclp.rtrancl_into_rtrancl)
  qed
qed (use h in \<open>simp add: handle_client_def\<close>)

section \<open>The store of the whole server\<close>

text \<open>The requests that some worker would read next.\<close>

definition pending :: "codec \<Rightarrow> nat \<Rightarrow> AdaptiveSyncServer \<Rightarrow> request \<Rightarrow> bool" where
  "pending cd grant srv q \<longleftrightarrow> (\<exists>s f. Serving s \<in> set (worker_threads srv) \<and>
     fst (read_frame grant (client_fd s)) = Inr (Some f) \<and> requested cd f = Some q)"

lemma server_step_serves:
  assumes inv: "server_inv srv" and st: "server_step cd grant srv t" and nul: "CHR 0x00 \<notin> set (cfg_storage_root (config srv))"
  shows "file_at (srv_disk t) = file_at (srv_disk srv) \<or>
    (\<exists>q. pending cd grant srv q \<and>
      serves (cfg_storage_root (config srv)) (cwd (srv_disk srv)) q (file_at (srv_disk srv)) (file_at (srv_disk t)))"
  using st
proof (cases rule: server_step.cases)
  case (serving i s s')
  let ?s = "attach srv s"
  have "worker_inv srv (Serving s)" using inv serving(2,3) by (metis list_all_length server_inv_def workers_inv_def)
  then have s: "session_inv ?s" "file_root s = cfg_storage_root (config srv)" by (simp_all add: worker_inv_def)
  obtain f fd where rd: "read_frame grant (client_fd ?s) = (Inr (Some f), fd)"
    and d: "dispatch cd grant f (?s\<lparr>client_fd := fd\<rparr>) = Some (Inr (), s')"
    using serving(4) by (rule session_stepE)
  have "case requested cd f of None \<Rightarrow> disk s' = srv_disk srv
    | Some q \<Rightarrow> serves (cfg_storage_root (config srv)) (cwd (srv_disk srv)) q (file_at (srv_disk srv)) (file_at (disk s'))"
    using dispatch_serves [OF d session_inv_receive [OF s(1) rd]] nul s(2) by (simp add: attach_def split: option.splits)
  moreover have "pending cd grant srv q" if "requested cd f = Some q" for q
    unfolding pending_def
    by (rule exI [of _ s], rule exI [of _ f]) (use rd that serving(2,3) nth_mem [OF serving(2)] in \<open>simp add: attach_def\<close>)
  moreover have "srv_disk t = disk s'" using serving(1) by (simp add: store_turn_def)
  ultimately show ?thesis by (cases "requested cd f") auto
qed (simp_all add: spawn_client_def count_client_def finish_client_def srv_shutdown_def Let_def)

section \<open>Shutting down\<close>

lemma workers_inv_turns:
  assumes "(session_step cd grant)\<^sup>*\<^sup>* (attach srv s) t" and "workers_inv srv"
    and i: "i < length (worker_threads srv)" "worker_threads srv ! i = Serving s"
  shows "t = attach srv s \<or> workers_inv (store_turn i t srv)"
  using assms(1)
proof (induction rule: rtranclp_induct)
  case (step t u)
  from step.IH show ?case
  proof
    assume "t = attach srv s"
    then show ?thesis using workers_inv_turn [OF assms(2) i] step.hyps(2) by simp
  next
    assume t: "workers_inv (store_turn i t srv)"
    have "attach (store_turn i t srv) t = t" "store_turn i u (store_turn i t srv) = store_turn i u srv"
      by (simp_all add: attach_def store_turn_def)
    then show ?thesis using workers_inv_turn [OF t, of i t cd grant u] i(1) step.hyps(2) by (simp add: store_turn_def)
  qed
qed simp

text \<open>Waiting for a worker whose client does not fall silent ends, and leaves the other workers alone.\<close>

lemma handle_client_returns:
  assumes inv: "workers_inv srv" and i: "i < length (worker_threads srv)"
  obtains (stopped) e srv' where "handle_client cd grant i srv = Some (Inl e, srv')" "e \<noteq> Waits_for_peer"
  | (waits) s srv' where "handle_client cd grant i srv = Some (Inl Waits_for_peer, srv')" "worker_threads srv ! i = Serving s"
      "\<not> peer_closes (client_fd s)"
  | (joined) srv' where "handle_client cd grant i srv = Some (Inr (), srv')" "workers_inv srv'"
      "worker_threads srv' = (worker_threads srv)[i := Finished]" "running srv' = running srv" "server_fd srv' = server_fd srv"
proof (cases "worker_threads srv ! i")
  case Finished
  then have "(worker_threads srv)[i := Finished] = worker_threads srv" by (metis list_update_id)
  then show ?thesis using joined [of srv] inv Finished by (simp add: handle_client_def)
next
  case (Serving s)
  have "worker_inv srv (Serving s)" using inv i Serving by (metis list_all_length workers_inv_def)
  then have s: "session_inv (attach srv s)" by (simp add: worker_inv_def)
  obtain r s' where r: "run cd grant (attach srv s) = Some (r, s')"
    and silent: "r = Inl Waits_for_peer \<longrightarrow> \<not> peer_closes (client_fd s)"
    using run_returns [OF s, of cd grant] by (auto simp: attach_def)
  show ?thesis
  proof (cases r)
    case (Inl e)
    then show ?thesis using stopped waits [OF _ Serving] Serving r silent by (cases "e = Waits_for_peer") (simp_all add: handle_client_def)
  next
    case (Inr u)
    then obtain t fd where t: "(session_step cd grant)\<^sup>*\<^sup>* (attach srv s) t" "s' = t\<lparr>client_fd := fd, sess_state := DISCONNECTED\<rparr>"
      using run_steps [OF s] r by (metis old.unit.exhaust)
    let ?srv' = "finish_client i (store_turn i s' srv)"
    have eq: "?srv' = finish_client i (store_turn i t srv)" using t(2) by (simp add: finish_client_def store_turn_def)
    moreover have "finish_client i (store_turn i (attach srv s) srv) = finish_client i srv"
      by (simp add: attach_def finish_client_def store_turn_def)
    ultimately have "workers_inv ?srv'"
      using workers_inv_turns [OF t(1) inv i Serving] workers_inv_finish inv by metis
    then show ?thesis
      using joined [of ?srv'] Serving r Inr i by (simp add: handle_client_def finish_client_def store_turn_def)
  qed
qed

text \<open>No client of a worker falls silent.\<close>

definition clients_leave :: "AdaptiveSyncServer \<Rightarrow> bool" where
  "clients_leave srv \<longleftrightarrow> list_all (\<lambda>w. case w of Finished \<Rightarrow> True | Serving s \<Rightarrow> peer_closes (client_fd s)) (worker_threads srv)"

lemma clients_leave_finish:
  "clients_leave srv \<Longrightarrow> worker_threads srv' = (worker_threads srv)[i := Finished] \<Longrightarrow> clients_leave srv'"
  by (auto simp: clients_leave_def list_all_iff dest!: set_update_subset_insert [THEN subsetD])

lemma join_workers_returns:
  assumes "workers_inv srv" and "\<forall>i \<in> set threads. i < length (worker_threads srv)" and "clients_leave srv"
  shows "\<exists>r. join_workers cd grant threads srv = Some r \<and> (\<forall>srv'. r = Inr srv' \<longrightarrow>
    running srv' = running srv \<and> server_fd srv' = server_fd srv \<and> length (worker_threads srv') = length (worker_threads srv) \<and>
    (\<forall>i < length (worker_threads srv). i \<in> set threads \<or> worker_threads srv ! i = Finished \<longrightarrow> worker_threads srv' ! i = Finished))"
  using assms
proof (induction threads arbitrary: srv)
  case (Cons i threads)
  have i: "i < length (worker_threads srv)" using Cons.prems(2) by simp
  show ?case
    using Cons.prems(1) i
  proof (cases rule: handle_client_returns [where cd = cd and grant = grant])
    case (waits s srv')
    then have "peer_closes (client_fd s)" using Cons.prems(3) i by (auto simp: clients_leave_def list_all_length)
    with waits(3) show ?thesis by simp
  next
    case (joined srv1)
    then have "\<forall>j \<in> set threads. j < length (worker_threads srv1)" using Cons.prems(2) by simp
    from Cons.IH [OF joined(2) this clients_leave_finish [OF Cons.prems(3) joined(3)]] obtain r where r: "join_workers cd grant threads srv1 = Some r"
      "\<forall>srv'. r = Inr srv' \<longrightarrow> running srv' = running srv1 \<and> server_fd srv' = server_fd srv1 \<and>
        length (worker_threads srv') = length (worker_threads srv1) \<and>
        (\<forall>j < length (worker_threads srv1). j \<in> set threads \<or> worker_threads srv1 ! j = Finished \<longrightarrow> worker_threads srv' ! j = Finished)"
      by blast
    moreover have "\<forall>j < length (worker_threads srv). worker_threads srv1 ! j = (if j = i then Finished else worker_threads srv ! j)"
      "length (worker_threads srv1) = length (worker_threads srv)"
      using joined(3) by (simp_all add: nth_list_update)
    ultimately show ?thesis using joined(1,4,5) by (intro exI [of _ r]) auto
  qed simp
qed simp

text \<open>A worker whose client has nothing more to say is never joined.\<close>

lemma join_workers_idle:
  assumes "workers_inv srv" and "\<forall>i \<in> set threads. i < length (worker_threads srv)"
    and "i \<in> set threads" "worker_threads srv ! i = Serving s" "rx (client_fd s) = Recv_silent # es"
  shows "join_workers cd grant threads srv \<noteq> Some (Inr srv')"
  using assms
proof (induction threads arbitrary: srv)
  case (Cons j threads)
  have j: "j < length (worker_threads srv)" using Cons.prems(2) by simp
  show ?case
  proof (cases "j = i")
    case True
    have "worker_inv srv (Serving s)" using Cons.prems(1,4) j True by (metis list_all_length workers_inv_def)
    then have "session_inv (attach srv s)" "rx (client_fd (attach srv s)) = Recv_silent # es"
      using Cons.prems(5) by (simp_all add: worker_inv_def attach_def)
    from run_idle [OF this] show ?thesis
      using Cons.prems(4) True by (simp add: handle_client_def split: option.split sum.split)
  next
    case False
    show ?thesis
      using Cons.prems(1) j
    proof (cases rule: handle_client_returns [where cd = cd and grant = grant])
      case (joined srv1)
      then show ?thesis using Cons.IH [OF joined(2)] Cons.prems(2-5) False by simp
    qed (simp_all split: option.split sum.split)
  qed
qed simp

lemma join_workers_steps:
  assumes "server_inv srv" and "\<forall>i \<in> set threads. i < length (worker_threads srv)"
    and "join_workers cd grant threads srv = Some (Inr srv')"
  shows "(server_step cd grant)\<^sup>*\<^sup>* srv srv'"
  using assms
proof (induction threads arbitrary: srv)
  case (Cons i threads)
  have i: "i < length (worker_threads srv)" using Cons.prems(2) by simp
  obtain srv1 where h: "handle_client cd grant i srv = Some (Inr (), srv1)" "join_workers cd grant threads srv1 = Some (Inr srv')"
    using Cons.prems(3) by (auto split: option.splits sum.splits if_splits)
  have st: "(server_step cd grant)\<^sup>*\<^sup>* srv srv1" by (rule handle_client_steps [OF Cons.prems(1) i h(1)])
  have "workers_inv srv" using Cons.prems(1) by (simp add: server_inv_def)
  then have "worker_threads srv1 = (worker_threads srv)[i := Finished]"
    by (rule handle_client_returns [OF _ i, of cd grant]) (use h(1) in auto)
  then have "\<forall>j \<in> set threads. j < length (worker_threads srv1)" using Cons.prems(2) by simp
  with Cons.IH [OF server_loop.steps_invariant [OF st Cons.prems(1)]] h(2) st show ?case by (meson rtranclp_trans)
qed simp

text \<open>Whatever happens while the server accepts, its workers are in order afterwards.\<close>

lemma workers_inv_accept:
  assumes "workers_inv srv" and "accept_client ev srv = (r, srv')"
  shows "workers_inv srv'"
  using assms workers_inv_spawn [OF assms(1)] workers_inv_shutdown [OF assms(1)] workers_inv_same [OF assms(1), of "count_client srv"]
  by (auto simp: accept_client_def signal_handler_def count_client_def split: accept_event.splits)

lemma workers_inv_events:
  "workers_inv srv \<Longrightarrow> accept_events event_fd evs srv = (r, srv') \<Longrightarrow> workers_inv srv'"
  by (induction event_fd evs srv rule: accept_events.induct)
    (auto split: if_splits prod.splits sum.splits dest: workers_inv_accept)

lemma workers_inv_loop:
  "workers_inv srv \<Longrightarrow> epoll_loop event_fd ws srv = Some (r, srv') \<Longrightarrow> workers_inv srv'"
proof (induction event_fd ws srv rule: epoll_loop.induct)
  case (2 event_fd w ws srv)
  then show ?case
    by (cases w) (auto simp: signal_handler_def split: if_splits prod.splits sum.splits
        dest: workers_inv_events workers_inv_shutdown)
qed (simp split: if_splits)

lemma workers_inv_run:
  assumes inv: "workers_inv srv" "worker_threads srv = []" and run: "srv_run net script srv = Some (r, srv')"
  shows "workers_inv srv'"
proof (cases "init_storage (srv\<lparr>running := True\<rparr>)")
  case (Inl e)
  then show ?thesis using run inv workers_inv_same [OF inv(1)] by (auto simp: srv_run_def)
next
  case (Inr srv1)
  then have "srv_disk srv1 = snd (create_directories (srv_disk srv) (cfg_storage_root (config srv)))"
    "srv_mutex srv1 = srv_mutex srv" "worker_threads srv1 = []"
    using inv(2) by (auto simp: init_storage_def Let_def split: prod.splits if_splits)
  then have "workers_inv (srv1\<lparr>server_fd := fd\<rparr>)" for fd
    using inv(1) by (simp add: workers_inv_def shared_inv_def sound_storage_def create_directories_wf create_directories_bounded)
  then show ?thesis
    using run Inr by (auto simp: srv_run_def run_epoll_def Let_def split: if_splits dest: workers_inv_loop)
qed

lemma clients_leave_shutdown [simp]: "clients_leave (srv_shutdown srv) = clients_leave srv"
  by (simp add: clients_leave_def srv_shutdown_def Let_def)

lemma destroy_join:
  "AdaptiveSyncServer_destroy cd grant srv = join_workers cd grant [0..<length (worker_threads srv)] (srv_shutdown srv)"
  "worker_threads (srv_shutdown srv) = worker_threads srv" "\<not> running (srv_shutdown srv)" "server_fd (srv_shutdown srv) = -1"
  by (simp_all add: AdaptiveSyncServer_destroy_def srv_shutdown_def Let_def)

lemma destroy_returns:
  assumes "workers_inv srv" and "clients_leave srv"
  shows "\<exists>r. AdaptiveSyncServer_destroy cd grant srv = Some r"
proof -
  have "\<forall>i \<in> set [0..<length (worker_threads srv)]. i < length (worker_threads (srv_shutdown srv))" by (simp add: destroy_join)
  from join_workers_returns [OF workers_inv_shutdown [OF assms(1)] this, of cd grant] assms(2) show ?thesis
    by (auto simp: destroy_join(1))
qed

lemma destroy_idle:
  assumes inv: "workers_inv srv" and s: "Serving s \<in> set (worker_threads srv)" "rx (client_fd s) = Recv_silent # es"
  shows "AdaptiveSyncServer_destroy cd grant srv \<noteq> Some (Inr srv')"
proof -
  obtain i where "i < length (worker_threads srv)" "worker_threads srv ! i = Serving s" using s(1) by (auto simp: in_set_conv_nth)
  then show ?thesis
    using join_workers_idle [OF workers_inv_shutdown [OF inv], of "[0..<length (worker_threads srv)]" i s es] s(2)
    by (simp add: destroy_join)
qed

section \<open>Claims about the server\<close>

text \<open>A server on the example storage.\<close>

lemma demo_server_start:
  "\<exists>srv. server_start srv \<and> running srv \<and> active_connections srv = 0 \<and> total_connections srv = 0 \<and>
    cfg_storage_root (config srv) = ''./data'' \<and> worker_threads srv = [] \<and> srv_disk srv = demo_storage"
proof -
  let ?cfg = "ServerConfig_init\<lparr>cfg_storage_root := ''./data''\<rparr>"
  have dirs: "create_directories demo_storage ''./data'' = (True, demo_storage)" by code_simp
  obtain srv0 where srv0: "AdaptiveSyncServer_init 8 ?cfg demo_storage = Inr srv0" "active_connections srv0 = 0"
    "total_connections srv0 = 0" "cfg_storage_root (config srv0) = ''./data''" "worker_threads srv0 = []" "srv_disk srv0 = demo_storage"
    using dirs by (simp add: AdaptiveSyncServer_init_def FileManager_init_def Let_def)
  have "server_start (srv0\<lparr>running := True\<rparr>)"
    unfolding server_start_def
    by (rule exI [of _ 8], rule exI [of _ ?cfg], rule exI [of _ demo_storage], rule exI [of _ srv0])
      (simp add: srv0 demo_storage_bounded demo_storage_facts)
  then show ?thesis using srv0 by (intro exI [of _ "srv0\<lparr>running := True\<rparr>"]) simp
qed

text \<open>
  C4. The invariant of the server, under every interleaving of accepted connections, messages of all
  sessions, departing clients and signals: the connection counters are the numbers of sessions started
  and of sessions still served (modulo \<open>2\<^sup>6\<^sup>4\<close>), every session keeps its invariant on the shared storage
  under the configured root and block size, and between messages no file is locked.
\<close>

theorem server_invariant:
  assumes "server_start srv" and "(server_step cd grant)\<^sup>*\<^sup>* srv t"
  shows "server_inv t"
  using assms by (rule server_loop.reachable_invariant)

theorem server_invariant_witness:
  "\<exists>srv t. server_start srv \<and> (server_step demo_codec 64)\<^sup>*\<^sup>* srv t \<and> server_inv t \<and> active_connections t = 1"
proof -
  obtain srv where start: "server_start srv" and srv: "active_connections srv = 0" "running srv"
    using demo_server_start by blast
  let ?t = "spawn_client [] \<lparr>rx = [], tx_plan = [], tx = []\<rparr> ''10.0.0.7:4242'' srv"
  have steps: "(server_step demo_codec 64)\<^sup>*\<^sup>* srv ?t" using accepting [OF srv(2)] by (rule r_into_rtranclp)
  have "active_connections ?t = 1" using srv(1) by (simp add: spawn_client_def count_client_def Let_def)
  with start steps server_invariant [OF start steps] show ?thesis by blast
qed



text \<open>
  C11. The whole server refines the abstract store.  In every step of the server, whatever the sessions,
  connections, departures and signals are, the stored files stay the same, or they change by a permitted
  outcome of one request that a client has sent: only the staging file of its path is written; or the upload is
  published with exactly as many bytes as it announced; or what was staged is published with the block
  of the request in it.  The names are inside the storage root, so that no file outside it is ever
  touched, unless the request names an absolute path.
\<close>

theorem server_refines_store:
  assumes inv: "server_inv srv" and st: "server_step cd grant srv t" and nul: "CHR 0x00 \<notin> set (cfg_storage_root (config srv))"
  shows "file_at (srv_disk t) = file_at (srv_disk srv) \<or>
    (\<exists>q. pending cd grant srv q \<and>
      serves (cfg_storage_root (config srv)) (cwd (srv_disk srv)) q (file_at (srv_disk srv)) (file_at (srv_disk t)) \<and>
      (\<forall>k. file_at (srv_disk t) k \<noteq> file_at (srv_disk srv) k \<longrightarrow>
        is_absolute (request_path q) \<or> prefix (os_key (cwd (srv_disk srv)) (cfg_storage_root (config srv))) k))"
  using server_step_serves [OF assms] serves_inside by metis

text \<open>A client uploads three bytes in two chunks: the permitted outcome is the one that publishes them.\<close>

definition demo_upload_codec :: codec where
  "demo_upload_codec = demo_codec\<lparr>parse_ZeroCopyUploadRequest := (\<lambda>_ _. Some \<lparr>ur_metadata =
     \<lparr>md_relative_path = ''sub/new'', md_file_size = 3, md_last_modified_ns = 0, md_sha256_hash = '''', md_file_mode = 1\<rparr>\<rparr>)\<rparr>"

lemma demo_upload:
  assumes fd: "rx_bytes (rx (client_fd s)) =
      encode_frame \<lparr>message_type = MSG_ZERO_COPY_UPLOAD_REQUEST, payload = [1]\<rparr> @ raw_frame [5, 6] @ raw_frame [7]"
    and s: "disk s = demo_storage" "file_root s = ''./data''" "\<not> shutdown_requested s" "sess_state s \<noteq> DISCONNECTED"
  shows "\<exists>s'. session_step demo_upload_codec 64 s s' \<and> file_at (disk s') [''srv'', ''data'', ''sub'', ''new''] = Some [5, 6, 7]"
proof -
  let ?f = "\<lparr>message_type = MSG_ZERO_COPY_UPLOAD_REQUEST, payload = [1]\<rparr>"
  let ?md = "\<lparr>md_relative_path = ''sub/new'', md_file_size = 3, md_last_modified_ns = 0, md_sha256_hash = '''', md_file_mode = 1\<rparr>"
  obtain fd where rd: "read_frame 64 (client_fd s) = (Inr (Some ?f), fd)" "rx_bytes (rx fd) = raw_frame [5, 6] @ raw_frame [7]"
    using read_frame_standard [OF fd, of 64] by auto
  let ?s = "s\<lparr>client_fd := fd\<rparr>"
  have ok: "accepts_upload ?s 64 ''sub/new'' (concat [[5, 6], [7]])"
    using demo_storage_facts s(1,2) by (simp add: accepts_upload_def vector_max_size_def)
  have req: "parse_ZeroCopyUploadRequest demo_upload_codec [1] (int_size [1]) = Some \<lparr>ur_metadata = ?md\<rparr>"
    by (simp add: demo_upload_codec_def)
  obtain s' where up: "handle_zero_copy_upload_request demo_upload_codec 64 [1] ?s = (Inr (), s')"
    "\<forall>k. file_at (disk s') k = (if k = target_key (file_root ?s) (disk ?s) ''sub/new'' then Some (concat [[5, 6], [7]])
       else if k = temp_key (file_root ?s) (disk ?s) ''sub/new'' then None else file_at (disk ?s) k)"
    by (rule upload_spec [OF ok req, of "[]"]) (use rd(2) in simp_all)
  have "dispatch demo_upload_codec 64 ?f ?s = Some (Inr (), s')" using up(1) by (simp add: dispatch_def)
  then have "session_step demo_upload_codec 64 s s'" using rd(1) s(3,4) by (intro turn [where frame = ?f and fd = fd])
  moreover have "file_at (disk s') [''srv'', ''data'', ''sub'', ''new''] = Some [5, 6, 7]"
    using up(2) s(1,2) demo_fresh(3) by simp
  ultimately show ?thesis by blast
qed

theorem server_refines_store_witness:
  "\<exists>srv t q. server_inv srv \<and> server_step demo_upload_codec 64 srv t \<and>
     file_at (srv_disk srv) [''srv'', ''data'', ''sub'', ''new''] = None \<and>
     file_at (srv_disk t) [''srv'', ''data'', ''sub'', ''new''] = Some [5, 6, 7] \<and>
     pending demo_upload_codec 64 srv q \<and> serves ''./data'' [''srv''] q (file_at (srv_disk srv)) (file_at (srv_disk t))"
proof -
  let ?fd = "\<lparr>rx = [Recv_data (encode_frame \<lparr>message_type = MSG_ZERO_COPY_UPLOAD_REQUEST, payload = [1]\<rparr> @
      raw_frame [5, 6] @ raw_frame [7])], tx_plan = [], tx = []\<rparr>"
  obtain srv0 where srv0: "server_start srv0" "worker_threads srv0 = []" "srv_disk srv0 = demo_storage"
    "cfg_storage_root (config srv0) = ''./data''"
    using demo_server_start by blast
  define srv where "srv = spawn_client [] ?fd ''10.0.0.7:4242'' srv0"
  have inv: "server_inv srv" unfolding srv_def by (rule server_inv_spawn [OF server_inv_start [OF srv0(1)]])
  have srv: "srv_disk srv = demo_storage" "cfg_storage_root (config srv) = ''./data''" "cwd demo_storage = [''srv'']"
    using srv0 by (simp_all add: srv_def spawn_client_def Let_def count_client_def demo_storage_def)
  obtain s where w: "0 < length (worker_threads srv)" "worker_threads srv ! 0 = Serving s"
    and s: "client_fd s = ?fd" "file_root s = ''./data''" "\<not> shutdown_requested s" "sess_state s \<noteq> DISCONNECTED"
    using srv0 by (simp add: srv_def spawn_client_def Let_def count_client_def Session_init_def)
  have stream: "rx_bytes (rx ?fd) = encode_frame \<lparr>message_type = MSG_ZERO_COPY_UPLOAD_REQUEST, payload = [1]\<rparr> @
      raw_frame [5, 6] @ raw_frame [7]"
    by (simp add: raw_frame_def)
  obtain s' where s': "session_step demo_upload_codec 64 (attach srv s) s'"
    "file_at (disk s') [''srv'', ''data'', ''sub'', ''new''] = Some [5, 6, 7]"
    using demo_upload [of "attach srv s"] stream [folded s(1)] s(2-4) srv(1) by (auto simp: attach_def)
  let ?t = "store_turn 0 s' srv"
  have st: "server_step demo_upload_codec 64 srv ?t" by (rule server_step.serving [OF w s'(1)])
  have files: "file_at (srv_disk srv) [''srv'', ''data'', ''sub'', ''new''] = None"
    "file_at (srv_disk ?t) [''srv'', ''data'', ''sub'', ''new''] = Some [5, 6, 7]"
    using s'(2) srv(1) demo_fresh(6) by (simp_all add: store_turn_def)
  then have changed: "file_at (srv_disk ?t) \<noteq> file_at (srv_disk srv)" by (metis option.distinct(1))
  have "CHR 0x00 \<notin> set (cfg_storage_root (config srv))" by (simp add: srv(2))
  from server_refines_store [OF inv st this] changed obtain q where "pending demo_upload_codec 64 srv q"
    "serves ''./data'' [''srv''] q (file_at (srv_disk srv)) (file_at (srv_disk ?t))"
    unfolding srv by blast
  with inv st files show ?thesis by blast
qed

end
