(* ===== verification/Main_Program.thy ===== *)
theory Main_Program
  imports Server
begin

text \<open>
  The program entry (\<^verbatim>\<open>main.cpp\<close>): the command line, and \<^verbatim>\<open>main\<close> from its arguments to the end of the
  process.  The usage message is not modelled.
\<close>

section \<open>The command line\<close>

text \<open>
  \<^verbatim>\<open>std::atoi\<close> as glibc has it: \<^verbatim>\<open>strtol\<close> in base 10 (leading white space, an optional sign, the longest run
  of digits, clamped to 64 bits), cut down to \<^verbatim>\<open>int\<close>.
\<close>

definition is_space :: "char \<Rightarrow> bool" where
  "is_space c \<longleftrightarrow> c = CHR '' '' \<or> c \<in> set (map char_of [9, 10, 11, 12, 13 :: nat])"

definition digit_value :: "char \<Rightarrow> nat option" where
  "digit_value c = (let n = of_char c :: nat in if 48 \<le> n \<and> n \<le> 57 then Some (n - 48) else None)"

fun digits_value :: "nat \<Rightarrow> string \<Rightarrow> nat" where
  "digits_value acc [] = acc"
| "digits_value acc (c # cs) = (case digit_value c of None \<Rightarrow> acc | Some d \<Rightarrow> digits_value (10 * acc + d) cs)"

definition strtol :: "string \<Rightarrow> int" where
  "strtol str =
     (let t = dropWhile is_space str in
      case t of
        c # cs \<Rightarrow>
          if c = CHR ''-'' then max (- (2 ^ 63)) (- int (digits_value 0 cs))
          else if c = CHR ''+'' then min (2 ^ 63 - 1) (int (digits_value 0 cs))
          else min (2 ^ 63 - 1) (int (digits_value 0 t))
      | [] \<Rightarrow> 0)"

definition atoi :: "string \<Rightarrow> int" where
  "atoi str = sint (word_of_int (strtol str) :: u32)"

text \<open>The option loop of \<^verbatim>\<open>main\<close>: \<open>Inl\<close> is an exit code, \<open>Inr\<close> the configuration to run with.\<close>

fun parse_args :: "string list \<Rightarrow> ServerConfig \<Rightarrow> int + ServerConfig" where
  "parse_args [] cfg = Inr cfg"
| "parse_args [arg] cfg = (if arg = ''--help'' \<or> arg = ''-h'' then Inl 0 else Inl 1)"
| "parse_args (arg # val # rest) cfg =
     (if arg = ''--help'' \<or> arg = ''-h'' then Inl 0
      else if arg = ''--port'' then parse_args rest (cfg\<lparr>cfg_port := word_of_int (atoi val)\<rparr>)
      else if arg = ''--storage-root'' then parse_args rest (cfg\<lparr>cfg_storage_root := val\<rparr>)
      else if arg = ''--threads'' then parse_args rest (cfg\<lparr>cfg_thread_count := word_of_int (atoi val)\<rparr>)
      else if arg = ''--block-size'' then parse_args rest (cfg\<lparr>cfg_block_size := word_of_int (atoi val)\<rparr>)
      else if arg = ''--max-connections'' then parse_args rest (cfg\<lparr>cfg_max_connections := word_of_int (atoi val)\<rparr>)
      else Inl 1)"

section \<open>main\<close>

text \<open>
  An exception of the constructor or of \<^verbatim>\<open>run\<close> is caught, after the server is destroyed; one that leaves a
  worker thread ends the process with \<^verbatim>\<open>std::terminate\<close>.  \<open>None\<close>: the server still runs, or its destructor waits
  for a worker whose client stays connected.
\<close>

datatype process_end = Exit int | Terminated stop

definition main_code ::
    "codec \<Rightarrow> nat \<Rightarrow> u32 \<Rightarrow> net_answers \<Rightarrow> wait_event list \<Rightarrow> storage \<Rightarrow> string list \<Rightarrow> process_end option" where
  "main_code cd grant hardware_concurrency net script fs argv =
     (case parse_args (tl argv) ServerConfig_init of
        Inl code \<Rightarrow> Some (Exit code)
      | Inr cfg \<Rightarrow>
          (case AdaptiveSyncServer_init hardware_concurrency cfg fs of
             Inl _ \<Rightarrow> Some (Exit 1)
           | Inr srv \<Rightarrow>
               (case srv_run net script srv of
                  None \<Rightarrow> None
                | Some (res, srv1) \<Rightarrow>
                    (case AdaptiveSyncServer_destroy cd grant srv1 of
                       None \<Rightarrow> None
                     | Some (Inl e) \<Rightarrow> Some (Terminated e)
                     | Some (Inr _) \<Rightarrow> Some (Exit (case res of Inl _ \<Rightarrow> 1 | Inr _ \<Rightarrow> 0))))))"

section \<open>Printing and reading options\<close>

definition print_args :: "ServerConfig \<Rightarrow> string list" where
  "print_args c = [''--port'', to_string (unat (cfg_port c)), ''--storage-root'', cfg_storage_root c,
     ''--threads'', to_string (unat (cfg_thread_count c)), ''--block-size'', to_string (unat (cfg_block_size c)),
     ''--max-connections'', to_string (unat (cfg_max_connections c))]"

lemma digit_value_char: "d < 10 \<Longrightarrow> digit_value (char_of (48 + d)) = Some d"
  by (simp add: digit_value_def)

lemma digits_value_append:
  "\<forall>c \<in> set xs. digit_value c \<noteq> None \<Longrightarrow> digits_value acc (xs @ ys) = digits_value (digits_value acc xs) ys"
  by (induction xs arbitrary: acc) auto

lemma to_string_digits: "\<forall>c \<in> set (to_string n). digit_value c \<noteq> None"
proof (induction n rule: to_string.induct)
  case (1 n)
  then show ?case
    by (subst to_string.simps) (auto simp: digit_value_char)
qed

lemma digits_value_to_string: "digits_value 0 (to_string n) = n"
proof (induction n rule: to_string.induct)
  case (1 n)
  show ?case
  proof (cases "n < 10")
    case True
    then show ?thesis by (subst to_string.simps) (simp add: digit_value_char)
  next
    case False
    then show ?thesis
      using 1 by (subst to_string.simps) (simp add: digits_value_append [OF to_string_digits] digit_value_char)
  qed
qed

lemma to_string_nonempty: "to_string n \<noteq> []"
  by (subst to_string.simps) simp

lemma digit_not_special:
  assumes "digit_value c \<noteq> None"
  shows "\<not> is_space c" "c \<noteq> CHR ''-''" "c \<noteq> CHR ''+''"
  using assms by (auto simp: digit_value_def is_space_def Let_def split: if_splits)

lemma strtol_to_string: "n < 2 ^ 63 \<Longrightarrow> strtol (to_string n) = int n"
proof -
  assume n: "n < 2 ^ 63"
  obtain c cs where t: "to_string n = c # cs" using to_string_nonempty [of n] by (cases "to_string n") auto
  have "digit_value c \<noteq> None" using to_string_digits [of n] t by simp
  note c = digit_not_special [OF this]
  have "int n < 2 ^ 63" using n by (metis of_nat_less_iff of_nat_numeral of_nat_power)
  moreover have "digits_value 0 (c # cs) = n" using digits_value_to_string [of n] t by simp
  ultimately show ?thesis using c by (simp add: strtol_def t Let_def del: digits_value.simps)
qed

lemma sint_of_nat32_small:
  assumes "n < 2 ^ 31"
  shows "sint (word_of_nat n :: u32) = int n"
proof -
  have "int n + 2 ^ 31 < 2 ^ 32" using assms by simp
  then have "(int n + 2 ^ 31) mod 2 ^ 32 = int n + 2 ^ 31" by (intro mod_pos_pos_trivial) simp_all
  then show ?thesis by (simp add: sint_of_nat32)
qed

lemma atoi_to_string32: "(word_of_int (atoi (to_string (unat w))) :: u32) = w"
proof -
  have "unat w < 2 ^ 63" using unsigned_less [of w, where ?'a = nat] by simp
  then show ?thesis by (simp add: atoi_def strtol_to_string)
qed

lemma atoi_to_string16: "(word_of_int (atoi (to_string (unat w))) :: u16) = w"
proof -
  have w: "unat w < 2 ^ 16" using unsigned_less [of w, where ?'a = nat] by simp
  then have "strtol (to_string (unat w)) = int (unat w)" by (intro strtol_to_string) simp
  moreover have "sint (word_of_int (int (unat w)) :: u32) = int (unat w)"
    unfolding of_int_of_nat_eq by (rule sint_of_nat32_small) (use w in simp)
  ultimately show ?thesis by (simp add: atoi_def)
qed

section \<open>The clients of a run\<close>

text \<open>Every client that is accepted closes its connection after what it sends.\<close>

definition accepted_closes :: "accept_event \<Rightarrow> bool" where
  "accepted_closes ev = (case ev of Accepted _ fd _ \<Rightarrow> peer_closes fd | _ \<Rightarrow> True)"

definition clients_close :: "wait_event list \<Rightarrow> bool" where
  "clients_close script = list_all (\<lambda>w. case w of Wait_ready evs \<Rightarrow> list_all accepted_closes evs | _ \<Rightarrow> True) script"

lemma clients_leave_same: "worker_threads srv' = worker_threads srv \<Longrightarrow> clients_leave srv' = clients_leave srv"
  by (simp add: clients_leave_def)

lemma clients_leave_accept:
  assumes "clients_leave srv" and "accepted_closes ev" and "accept_client ev srv = (r, srv')"
  shows "clients_leave srv'"
proof (cases ev)
  case (Accepted steps fd addr)
  then show ?thesis
    using assms by (auto simp: accept_client_def accepted_closes_def clients_leave_def spawn_client_def count_client_def
        Session_init_def Let_def)
qed (use assms clients_leave_same [of "count_client srv" srv] in \<open>auto simp: accept_client_def signal_handler_def count_client_def\<close>)

lemma clients_leave_events:
  "clients_leave srv \<Longrightarrow> list_all accepted_closes evs \<Longrightarrow> accept_events event_fd evs srv = (r, srv') \<Longrightarrow> clients_leave srv'"
  by (induction event_fd evs srv rule: accept_events.induct)
    (auto split: if_splits prod.splits sum.splits dest: clients_leave_accept)

lemma clients_leave_loop:
  "clients_leave srv \<Longrightarrow> clients_close ws \<Longrightarrow> epoll_loop event_fd ws srv = Some (r, srv') \<Longrightarrow> clients_leave srv'"
proof (induction event_fd ws srv rule: epoll_loop.induct)
  case (2 event_fd w ws srv)
  then show ?case
    by (cases w) (auto simp: clients_close_def signal_handler_def split: if_splits prod.splits sum.splits dest: clients_leave_events)
qed (simp split: if_splits)

lemma clients_leave_run:
  assumes "worker_threads srv = []" and "clients_close script" and "srv_run net script srv = Some (r, srv')"
  shows "clients_leave srv'"
proof -
  have none: "clients_leave srv1" if "worker_threads srv1 = []" for srv1 using that by (simp add: clients_leave_def)
  show ?thesis
  proof (cases "init_storage (srv\<lparr>running := True\<rparr>)")
    case (Inl e)
    then show ?thesis using assms(1,3) none by (auto simp: srv_run_def)
  next
    case (Inr srv1)
    then have "worker_threads srv1 = []"
      using assms(1) by (auto simp: init_storage_def Let_def split: prod.splits if_splits)
    then have "clients_leave (srv1\<lparr>server_fd := socket_fd net\<rparr>)" by (intro none) simp
    then show ?thesis
      using assms(2,3) Inr by (auto simp: srv_run_def run_epoll_def Let_def split: if_splits dest: clients_leave_loop)
  qed
qed

lemma init_workers:
  assumes "storage_wf fs" "files_bounded fs" "max_file fs < 2 ^ 63" and "AdaptiveSyncServer_init hw cfg fs = Inr srv"
  shows "workers_inv srv" "worker_threads srv = []"
proof -
  have "server_start (srv\<lparr>running := True\<rparr>)" using assms by (auto simp: server_start_def)
  from server_inv_start [OF this] show "workers_inv srv"
    using workers_inv_same [of "srv\<lparr>running := True\<rparr>" srv] by (simp add: server_inv_def)
  show "worker_threads srv = []"
    using assms(4) by (auto simp: AdaptiveSyncServer_init_def Let_def split: prod.splits sum.splits)
qed

section \<open>Claims about the program\<close>


text \<open>A client sends a message and leaves before the signal comes in; another client never leaves.\<close>

definition demo_net :: net_answers where
  "demo_net = \<lparr>socket_fd = 3, bind_ok = True, listen_ok = True, epoll_ok = True\<rparr>"

definition demo_client_script :: "recv_event list \<Rightarrow> wait_event list" where
  "demo_client_script evs =
     [Wait_ready [Accepted [] \<lparr>rx = evs, tx_plan = [], tx = []\<rparr> ''10.0.0.7:4242''], Wait_signal]"

lemma demo_run:
  "\<exists>srv srv1 s. AdaptiveSyncServer_init 8 (ServerConfig_init\<lparr>cfg_storage_root := ''./data''\<rparr>) demo_storage = Inr srv \<and>
     srv_run demo_net (demo_client_script evs) srv = Some (Inr (), srv1) \<and>
     Serving s \<in> set (worker_threads srv1) \<and> rx (client_fd s) = evs"
proof -
  have "create_directories demo_storage ''./data'' = (True, demo_storage)" by code_simp
  then show ?thesis
    by (simp add: AdaptiveSyncServer_init_def FileManager_init_def srv_run_def init_storage_def run_epoll_def demo_net_def
        demo_client_script_def accept_client_def spawn_client_def count_client_def signal_handler_def srv_shutdown_def
        Session_init_def Let_def)
qed


text \<open>
  The command line: the options that spell out a configuration in decimal give exactly this
  configuration back, whatever the defaults, so every port, thread count, block size and connection
  limit can be set.
\<close>

lemma command_line_roundtrip:
  "parse_args (print_args c) c0 = Inr c"
  by (simp add: print_args_def atoi_to_string16 atoi_to_string32)

end
