(* ===== verification/Client_Wire.thy ===== *)
theory Client_Wire
  imports Wire_Protocol Messages
begin

text \<open>
  The client's side of the wire (\<^verbatim>\<open>client/src/wire.rs\<close>, the error type of \<^verbatim>\<open>client/src/lib.rs\<close>): frames written
  to and read from a \<^verbatim>\<open>TcpStream\<close>.  Here the two implementations of the frame format meet: each side reads
  what the other writes.
\<close>

section \<open>Results\<close>

text \<open>
  Error texts are the fixed parts of the messages, without the operating system's description.  \<open>Crash\<close> is a
  panic, or the abort of the process when memory is refused.
\<close>

datatype ClientError =
    Connection string
  | Protocol string
  | FileIo string
  | HashMismatch string string
  | TransferFailed string
  | ServerError int string
  | Timeout

datatype client_stop = Err ClientError | Crash

type_synonym 'a outcome = "client_stop + 'a"

text \<open>The operator \<^verbatim>\<open>?\<close>: an operation on a state, then another one unless the first one stopped.\<close>

definition and_then :: "('s \<Rightarrow> 'a outcome \<times> 's) \<Rightarrow> ('a \<Rightarrow> 's \<Rightarrow> 'b outcome \<times> 's) \<Rightarrow> 's \<Rightarrow> 'b outcome \<times> 's" where
  "and_then m f s = (case m s of (Inl e, s') \<Rightarrow> (Inl e, s') | (Inr x, s') \<Rightarrow> f x s')"

lemma and_then_simps:
  "m s = (Inr x, s') \<Longrightarrow> and_then m f s = f x s'"
  "m s = (Inl e, s') \<Longrightarrow> and_then m f s = (Inl e, s')"
  by (simp_all add: and_then_def)

lemma and_then_Inr_iff:
  "and_then m f s = (Inr y, t) \<longleftrightarrow> (\<exists>x s'. m s = (Inr x, s') \<and> f x s' = (Inr y, t))"
  by (auto simp: and_then_def split: prod.splits sum.splits)

section \<open>The stream\<close>

text \<open>
  A \<^verbatim>\<open>TcpStream\<close> as the client sees it: the bytes that still arrive before the connection ends, the bytes
  written so far, and how many more the connection takes (\<open>None\<close>: it does not break).  \<^verbatim>\<open>read_exact\<close> delivers
  exactly the bytes asked for or an error; \<^verbatim>\<open>write_all\<close> writes everything or fails on the way; \<^verbatim>\<open>flush\<close> has
  nothing to do on a socket.
\<close>

record tcp_stream =
  incoming :: "byte list"
  outgoing :: "byte list"
  takes :: "nat option"

definition stream_read_exact :: "nat \<Rightarrow> string \<Rightarrow> tcp_stream \<Rightarrow> byte list outcome \<times> tcp_stream" where
  "stream_read_exact n what st =
     (if n \<le> length (incoming st)
      then (Inr (take n (incoming st)), st\<lparr>incoming := drop n (incoming st)\<rparr>)
      else (Inl (Err (Connection what)), st\<lparr>incoming := []\<rparr>))"

definition stream_write_all :: "byte list \<Rightarrow> string \<Rightarrow> tcp_stream \<Rightarrow> unit outcome \<times> tcp_stream" where
  "stream_write_all data what st =
     (case takes st of
        None \<Rightarrow> (Inr (), st\<lparr>outgoing := outgoing st @ data\<rparr>)
      | Some k \<Rightarrow>
          if length data \<le> k
          then (Inr (), st\<lparr>outgoing := outgoing st @ data, takes := Some (k - length data)\<rparr>)
          else (Inl (Err (Connection what)), st\<lparr>outgoing := outgoing st @ take k data, takes := Some 0\<rparr>))"

text \<open>\<^verbatim>\<open>vec![0u8; n]\<close>\<close>

definition vec_alloc :: "nat \<Rightarrow> nat \<Rightarrow> 's \<Rightarrow> unit outcome \<times> 's" where
  "vec_alloc grant n s = (if n \<le> vector_max_size \<and> n \<le> grant then (Inr (), s) else (Inl Crash, s))"

section \<open>Frames\<close>

definition to_be_bytes :: "nat \<Rightarrow> 'a::len word \<Rightarrow> byte list" where
  "to_be_bytes n w = rev (store_le n w)"

definition from_be_bytes :: "byte list \<Rightarrow> 'a::len word" where
  "from_be_bytes bs = load_le (rev bs)"

definition client_encode_frame :: "byte \<Rightarrow> byte list \<Rightarrow> byte list" where
  "client_encode_frame msg_type msg =
     to_be_bytes 4 (word_of_nat (length msg) :: u32) @ [msg_type] @ msg"

definition client_encode_raw_data_header :: "u64 \<Rightarrow> byte list" where
  "client_encode_raw_data_header raw_length =
     to_be_bytes 4 RAW_DATA_SENTINEL @ [MSG_RAW_DATA] @ to_be_bytes 8 raw_length"

definition client_read_frame :: "nat \<Rightarrow> tcp_stream \<Rightarrow> WireFrame outcome \<times> tcp_stream" where
  "client_read_frame grant =
     and_then (stream_read_exact 4 ''Failed to read frame length'') (\<lambda>len_buf.
       let payload_len = from_be_bytes len_buf :: u32 in
       if payload_len = RAW_DATA_SENTINEL
       then and_then (stream_read_exact 9 ''Failed to read raw header'') (\<lambda>rest.
              let msg_type = rest ! 0; raw_len = from_be_bytes (drop 1 rest) :: u64 in
              and_then (vec_alloc grant (unat raw_len)) (\<lambda>_.
              and_then (stream_read_exact (unat raw_len) ''Failed to read raw data'') (\<lambda>raw_data st.
              (Inr \<lparr>message_type = msg_type, payload = raw_data\<rparr>, st))))
       else and_then (stream_read_exact 1 ''Failed to read frame type'') (\<lambda>type_buf.
            and_then (vec_alloc grant (unat payload_len)) (\<lambda>_.
            and_then (if payload_len > 0 then stream_read_exact (unat payload_len) ''Failed to read frame payload''
                      else (\<lambda>st. (Inr [], st))) (\<lambda>msg st.
            (Inr \<lparr>message_type = type_buf ! 0, payload = msg\<rparr>, st)))))"

definition client_write_frame :: "byte \<Rightarrow> byte list \<Rightarrow> tcp_stream \<Rightarrow> unit outcome \<times> tcp_stream" where
  "client_write_frame msg_type msg = stream_write_all (client_encode_frame msg_type msg) ''Failed to write frame''"

definition write_raw_data :: "byte list \<Rightarrow> tcp_stream \<Rightarrow> unit outcome \<times> tcp_stream" where
  "write_raw_data data =
     and_then (stream_write_all (client_encode_raw_data_header (word_of_nat (length data))) ''Failed to write raw header'')
       (\<lambda>_. stream_write_all data ''Failed to write raw data'')"

section \<open>Both sides write the same bytes\<close>

lemma to_be_bytes_put: "to_be_bytes 4 w = put_be32 w" "to_be_bytes 8 v = put_be64 v"
  by (simp_all add: to_be_bytes_def put_be32_def put_be64_def store_host_to_net32 store_host_to_net64)

lemma from_be_bytes_get:
  "length bs = 4 \<Longrightarrow> from_be_bytes bs = get_be32 bs" "length bs' = 8 \<Longrightarrow> from_be_bytes bs' = get_be64 bs'"
  by (simp_all add: from_be_bytes_def get_be32_def get_be64_def net_to_host32_def net_to_host64_def store_load_le)

lemma client_encode_frame_eq: "client_encode_frame t msg = encode_frame \<lparr>message_type = t, payload = msg\<rparr>"
  by (simp add: client_encode_frame_def encode_frame_be to_be_bytes_put)

lemma client_encode_raw_data_header_eq: "client_encode_raw_data_header n = encode_raw_data_header n"
  by (simp add: client_encode_raw_data_header_def encode_raw_data_header_be to_be_bytes_put)

section \<open>Reading what the server wrote\<close>

lemma stream_read_prefix:
  assumes "incoming st = a @ rest"
  shows "stream_read_exact (length a) what st = (Inr a, st\<lparr>incoming := rest\<rparr>)"
  using assms by (simp add: stream_read_exact_def)

lemma client_read_standard:
  assumes stream: "incoming st = encode_frame f @ rest"
    and len: "length (payload f) < 2 ^ 32 - 1" "length (payload f) \<le> grant"
  shows "client_read_frame grant st = (Inr f, st\<lparr>incoming := rest\<rparr>)"
proof -
  let ?n = "word_of_nat (length (payload f)) :: u32"
  have n: "unat ?n = length (payload f)" using len by (simp add: unat_of_nat)
  have "stream_read_exact 4 w st = (Inr (put_be32 ?n), st\<lparr>incoming := [message_type f] @ payload f @ rest\<rparr>)" for w
    using stream_read_prefix [of st "put_be32 ?n" _ w] stream by (simp add: encode_frame_be be32.length_put)
  moreover have "from_be_bytes (put_be32 ?n) = ?n" by (simp add: from_be_bytes_get be32.length_put be32.get_put)
  moreover have "0 < ?n \<longleftrightarrow> payload f \<noteq> []" using n by (metis gr0I length_0_conv unat_0 unat_gt_0 word_neq_0_conv)
  moreover have "length (payload f) \<le> vector_max_size" using len by (simp add: vector_max_size_def)
  ultimately show ?thesis
    using of_nat_eq_sentinel [OF len(1)] len(2) n
    by (simp add: client_read_frame_def and_then_def stream_read_exact_def vec_alloc_def)
qed

lemma client_read_raw:
  assumes stream: "incoming st = encode_raw_data_header n @ data @ rest"
    and len: "length data = unat n" "unat n \<le> vector_max_size" "unat n \<le> grant"
  shows "client_read_frame grant st = (Inr \<lparr>message_type = MSG_RAW_DATA, payload = data\<rparr>, st\<lparr>incoming := rest\<rparr>)"
proof -
  have "stream_read_exact 4 w st = (Inr (put_be32 RAW_DATA_SENTINEL), st\<lparr>incoming := [MSG_RAW_DATA] @ put_be64 n @ data @ rest\<rparr>)" for w
    using stream_read_prefix [of st "put_be32 RAW_DATA_SENTINEL" _ w] stream by (simp add: encode_raw_data_header_be be32.length_put)
  moreover have "from_be_bytes (put_be32 RAW_DATA_SENTINEL) = RAW_DATA_SENTINEL" "from_be_bytes (put_be64 n) = n"
    by (simp_all add: from_be_bytes_get be32.length_put be32.get_put be64.length_put be64.get_put)
  ultimately show ?thesis
    using len by (simp add: client_read_frame_def and_then_def stream_read_exact_def vec_alloc_def be64.length_put)
qed

lemma stream_write_unbroken:
  assumes "takes st = None"
  shows "stream_write_all data what st = (Inr (), st\<lparr>outgoing := outgoing st @ data\<rparr>)"
  using assms by (simp add: stream_write_all_def)

lemma client_write_unbroken:
  assumes "takes st = None"
  shows "client_write_frame t msg st =
      (Inr (), st\<lparr>outgoing := outgoing st @ encode_frame \<lparr>message_type = t, payload = msg\<rparr>\<rparr>)"
    and "write_raw_data data st =
      (Inr (), st\<lparr>outgoing := outgoing st @ encode_raw_data_header (word_of_nat (length data)) @ data\<rparr>)"
  using assms by (simp_all add: client_write_frame_def write_raw_data_def and_then_def stream_write_unbroken
      client_encode_frame_eq client_encode_raw_data_header_eq)

end
