(* ===== verification/Client_Files.thy ===== *)
theory Client_Files
  imports Client_Wire File_Manager
begin

text \<open>
  The client's local files (\<^verbatim>\<open>client/src/hashing.rs\<close>, \<^verbatim>\<open>client/src/file_ops.rs\<close>) on the file tree of \<^verbatim>\<open>Storage\<close>.
  The crates the client uses are the parameter \<open>crates\<close>.  \<^verbatim>\<open>list_files\<close>, which only the crate \<^verbatim>\<open>walkdir\<close> gives a
  meaning and which no other operation calls, is left out.
\<close>

section \<open>The crates\<close>

text \<open>
  \<^verbatim>\<open>sha2\<close> with \<^verbatim>\<open>hex\<close>, and the message types that \<^verbatim>\<open>prost\<close> generates: an encoder per message the client sends, a
  decoder per message it receives.  \<open>dir_len\<close> is the size the system reports for a directory.
\<close>

record crates =
  sha2_hex :: "byte list \<Rightarrow> string"
  dir_len :: u64
  enc_ClientHello :: "ClientHello \<Rightarrow> byte list"
  enc_NegotiationRequest :: "NegotiationRequest \<Rightarrow> byte list"
  enc_ZeroCopyDownloadRequest :: "ZeroCopyDownloadRequest \<Rightarrow> byte list"
  enc_ZeroCopyUploadRequest :: "ZeroCopyUploadRequest \<Rightarrow> byte list"
  enc_DeltaSyncSignatureRequest :: "DeltaSyncSignatureRequest \<Rightarrow> byte list"
  enc_DeltaSyncBlockData :: "DeltaSyncBlockData \<Rightarrow> byte list"
  enc_ListFilesRequest :: "ListFilesRequest \<Rightarrow> byte list"
  dec_ServerHello :: "byte list \<Rightarrow> ServerHello option"
  dec_NegotiationResponse :: "byte list \<Rightarrow> NegotiationResponse option"
  dec_ZeroCopyDownloadHeader :: "byte list \<Rightarrow> ZeroCopyDownloadHeader option"
  dec_ZeroCopyUploadAck :: "byte list \<Rightarrow> ZeroCopyUploadAck option"
  dec_DeltaSyncBlockRequest :: "byte list \<Rightarrow> DeltaSyncBlockRequest option"
  dec_DeltaSyncComplete :: "byte list \<Rightarrow> DeltaSyncComplete option"
  dec_ListFilesResponse :: "byte list \<Rightarrow> ListFilesResponse option"

section \<open>Hashes\<close>

definition client_adler_step :: "byte \<Rightarrow> u32 \<times> u32 \<Rightarrow> u32 \<times> u32" where
  "client_adler_step x = (\<lambda>(a, b). let a' = (a + ucast x) mod 65521; b' = (b + a') mod 65521 in (a', b'))"

definition client_adler32 :: "byte list \<Rightarrow> u32" where
  "client_adler32 data = (let (a, b) = fold client_adler_step data (1, 0) in push_bit 16 b OR a)"

lemma client_adler32_eq: "client_adler32 data = adler32 data"
proof -
  have "client_adler_step = adler_step" by (simp add: client_adler_step_def adler_step_def fun_eq_iff Let_def split_beta)
  then show ?thesis by (simp add: client_adler32_def adler32_def Let_def)
qed

text \<open>The hasher is fed in pieces of 64 KiB; what it has been given so far stands for its state.\<close>

function hash_pieces :: "byte list \<Rightarrow> byte list \<Rightarrow> byte list" where
  "hash_pieces unread hasher =
     (let buffer = take 65536 unread in
      if buffer = [] then hasher else hash_pieces (drop 65536 unread) (hasher @ buffer))"
  by pat_completeness auto
termination
  by (relation "measure (\<lambda>(unread, hasher). length unread)") auto

declare hash_pieces.simps [simp del]

lemma hash_pieces_eq: "hash_pieces unread hasher = hasher @ unread"
proof (induction unread hasher rule: hash_pieces.induct)
  case (1 unread hasher)
  then show ?case by (subst hash_pieces.simps) (simp add: Let_def)
qed

section \<open>Paths\<close>

text \<open>
  What the sources use of \<^verbatim>\<open>std::path::Path\<close>.  \<^verbatim>\<open>join\<close> is \<open>path_append\<close>.  A path is seen as its components:
  separators and \<^verbatim>\<open>.\<close> at the end do not count, and neither does \<^verbatim>\<open>.\<close> in the middle.
\<close>

definition blank_part :: "string \<Rightarrow> bool" where
  "blank_part w \<longleftrightarrow> w = [] \<or> w = ''.''"

definition trim_parts :: "string list \<Rightarrow> string list" where
  "trim_parts ws = (case ws of [] \<Rightarrow> [] | w # rest \<Rightarrow> w # rev (dropWhile blank_part (rev rest)))"

definition rs_parent :: "string \<Rightarrow> string option" where
  "rs_parent p =
     (let ws = trim_parts (split_slash p) in
      if ws = [[]] then None
      else if butlast ws = [] then Some []
      else let dir = trim_parts (butlast ws) in Some (if dir = [[]] then [slash] else join_slash dir))"

definition file_stem :: "string \<Rightarrow> string" where
  "file_stem name =
     (let r = rev name; after = takeWhile (\<lambda>c. c \<noteq> CHR ''.'') r; before = drop (Suc (length after)) r in
      if length after = length r \<or> before = [] then name else rev before)"

definition with_extension_tmp :: "string \<Rightarrow> string" where
  "with_extension_tmp p =
     (let ws = trim_parts (split_slash p); name = last ws in
      if blank_part name \<or> name = ''..'' then p
      else join_slash (butlast ws @ [file_stem name @ ''.tmp'']))"

section \<open>File operations\<close>

record FileOps =
  sync_root :: string
  fo_block_size :: u32

definition client_resolve_path :: "FileOps \<Rightarrow> string \<Rightarrow> string" where
  "client_resolve_path ops relative_path = path_append (sync_root ops) relative_path"

text \<open>A path with a NUL character is refused before any call is made.\<close>

definition rs_metadata :: "storage \<Rightarrow> string \<Rightarrow> node option" where
  "rs_metadata fs p = (if CHR 0x00 \<in> set p then None else os_node fs p)"

definition rs_open :: "storage \<Rightarrow> string \<Rightarrow> node option" where
  "rs_open fs p = (if CHR 0x00 \<in> set p then None else open_in fs p)"

definition client_file_exists :: "FileOps \<Rightarrow> string \<Rightarrow> storage \<Rightarrow> bool" where
  "client_file_exists ops p fs \<longleftrightarrow> rs_metadata fs (client_resolve_path ops p) \<noteq> None"

definition client_file_size :: "crates \<Rightarrow> FileOps \<Rightarrow> string \<Rightarrow> storage \<Rightarrow> u64 outcome" where
  "client_file_size cr ops p fs =
     (case rs_metadata fs (client_resolve_path ops p) of
        None \<Rightarrow> Inl (Err (FileIo ''Cannot stat''))
      | Some Dir \<Rightarrow> Inr (dir_len cr)
      | Some (File c _) \<Rightarrow> Inr (word_of_nat (length c)))"

text \<open>
  Times in the storage count from the epoch of the C++ file clock (the year 2174); \<^verbatim>\<open>duration_since\<close> refuses
  times before 1970.
\<close>

definition FILE_CLOCK_EPOCH :: int where
  "FILE_CLOCK_EPOCH = 6437664000 * 1000000000"

definition client_last_modified_ns :: "FileOps \<Rightarrow> string \<Rightarrow> storage \<Rightarrow> u64 outcome" where
  "client_last_modified_ns ops p fs =
     (case rs_metadata fs (client_resolve_path ops p) of
        None \<Rightarrow> Inl (Err (FileIo ''Cannot stat''))
      | Some n \<Rightarrow>
          let modified = (case n of File _ t \<Rightarrow> t | Dir \<Rightarrow> file_now fs) + FILE_CLOCK_EPOCH in
          if modified < 0 then Inl (Err (FileIo ''Time error'')) else Inr (word_of_int modified))"

definition sha256_file :: "crates \<Rightarrow> string \<Rightarrow> storage \<Rightarrow> string outcome" where
  "sha256_file cr path fs =
     (case rs_open fs path of
        None \<Rightarrow> Inl (Err (FileIo ''Failed to open''))
      | Some Dir \<Rightarrow> Inl (Err (FileIo ''Read error''))
      | Some (File c _) \<Rightarrow> Inr (sha2_hex cr (hash_pieces c [])))"

definition client_sha256 :: "crates \<Rightarrow> FileOps \<Rightarrow> string \<Rightarrow> storage \<Rightarrow> string outcome" where
  "client_sha256 cr ops p fs = sha256_file cr (client_resolve_path ops p) fs"

record LocalFileInfo =
  li_relative_path :: string
  li_file_size :: u64
  li_last_modified_ns :: u64
  li_sha256_hash :: string

definition client_get_file_info :: "crates \<Rightarrow> FileOps \<Rightarrow> string \<Rightarrow> storage \<Rightarrow> LocalFileInfo outcome" where
  "client_get_file_info cr ops p fs =
     (case client_file_size cr ops p fs of Inl e \<Rightarrow> Inl e | Inr file_sz \<Rightarrow>
      case client_last_modified_ns ops p fs of Inl e \<Rightarrow> Inl e | Inr modified \<Rightarrow>
      case client_sha256 cr ops p fs of Inl e \<Rightarrow> Inl e | Inr sha \<Rightarrow>
      Inr \<lparr>li_relative_path = p, li_file_size = file_sz, li_last_modified_ns = modified, li_sha256_hash = sha\<rparr>)"

text \<open>One \<^verbatim>\<open>read\<close> call: on a regular file it delivers what is there, up to the limit of the kernel.\<close>

definition client_read_block :: "nat \<Rightarrow> FileOps \<Rightarrow> string \<Rightarrow> u64 \<Rightarrow> u32 \<Rightarrow> storage \<Rightarrow> byte list outcome" where
  "client_read_block grant ops p offset sz fs =
     (case rs_open fs (client_resolve_path ops p) of
        None \<Rightarrow> Inl (Err (FileIo ''Cannot open''))
      | Some n \<Rightarrow>
          if 2 ^ 63 \<le> unat offset then Inl (Err (FileIo ''Seek error''))
          else if grant < unat sz then Inl Crash
          else case n of
            Dir \<Rightarrow> Inl (Err (FileIo ''Read error''))
          | File c _ \<Rightarrow> Inr (take (min (unat sz) MAX_RW_COUNT) (drop (unat offset) c)))"

text \<open>\<^verbatim>\<open>create_dir_all\<close> on the parent, when there is one; the empty path is the current directory.\<close>

definition create_parents :: "string \<Rightarrow> storage \<Rightarrow> unit outcome \<times> storage" where
  "create_parents path fs =
     (case rs_parent path of
        None \<Rightarrow> (Inr (), fs)
      | Some dir \<Rightarrow>
          if dir = [] then (Inr (), fs)
          else if CHR 0x00 \<in> set dir then (Inl (Err (FileIo ''Cannot create dirs'')), fs)
          else case create_directories fs dir of
            (True, fs1) \<Rightarrow> (Inr (), fs1)
          | (False, fs1) \<Rightarrow> (Inl (Err (FileIo ''Cannot create dirs'')), fs1))"

definition rs_create :: "string \<Rightarrow> string \<Rightarrow> storage \<Rightarrow> key outcome \<times> storage" where
  "rs_create p what fs =
     (case (if CHR 0x00 \<in> set p then None else open_trunc fs p) of
        None \<Rightarrow> (Inl (Err (FileIo what)), fs)
      | Some fs1 \<Rightarrow> (Inr (os_key (cwd fs1) p), fs1))"

definition rs_write_at :: "key \<Rightarrow> u64 \<Rightarrow> byte list \<Rightarrow> storage \<Rightarrow> unit outcome \<times> storage" where
  "rs_write_at k offset data fs =
     (if 2 ^ 63 \<le> unat offset then (Inl (Err (FileIo ''Seek error'')), fs)
      else case seek_write fs k (int (unat offset)) data of
        (True, fs1) \<Rightarrow> (Inr (), fs1)
      | (False, fs1) \<Rightarrow> (Inl (Err (FileIo ''Write error'')), fs1))"

definition rs_rename :: "string \<Rightarrow> string \<Rightarrow> storage \<Rightarrow> unit outcome \<times> storage" where
  "rs_rename p q fs =
     (if CHR 0x00 \<in> set p \<or> CHR 0x00 \<in> set q then (Inl (Err (FileIo ''Rename error'')), fs)
      else case fs_rename fs p q of
        (True, fs1) \<Rightarrow> (Inr (), fs1)
      | (False, fs1) \<Rightarrow> (Inl (Err (FileIo ''Rename error'')), fs1))"

definition client_write_file :: "FileOps \<Rightarrow> string \<Rightarrow> byte list \<Rightarrow> storage \<Rightarrow> unit outcome \<times> storage" where
  "client_write_file ops p data =
     (let path = client_resolve_path ops p; tmp_path = with_extension_tmp path in
      and_then (create_parents path) (\<lambda>_.
      and_then (rs_create tmp_path ''Write error'') (\<lambda>k.
      and_then (rs_write_at k 0 data) (\<lambda>_.
      rs_rename tmp_path path))))"

text \<open>Open for reading and writing, creating the file when it is missing.\<close>

definition rs_open_or_create :: "string \<Rightarrow> storage \<Rightarrow> key outcome \<times> storage" where
  "rs_open_or_create p fs =
     (if CHR 0x00 \<in> set p then (Inl (Err (FileIo ''Cannot open tmp'')), fs)
      else if os_node fs p = None then rs_create p ''Cannot open tmp'' fs
      else if open_inout fs p then (Inr (os_key (cwd fs) p), fs)
      else (Inl (Err (FileIo ''Cannot open tmp'')), fs))"

definition client_write_block :: "FileOps \<Rightarrow> string \<Rightarrow> u64 \<Rightarrow> byte list \<Rightarrow> storage \<Rightarrow> unit outcome \<times> storage" where
  "client_write_block ops p offset data =
     (let path = client_resolve_path ops p; tmp_path = with_extension_tmp path in
      and_then (create_parents path) (\<lambda>_.
      and_then (rs_open_or_create tmp_path) (\<lambda>k.
      rs_write_at k offset data)))"

definition client_finalize_file :: "FileOps \<Rightarrow> string \<Rightarrow> storage \<Rightarrow> unit outcome \<times> storage" where
  "client_finalize_file ops p fs =
     (let path = client_resolve_path ops p; tmp_path = with_extension_tmp path in
      if rs_metadata fs tmp_path \<noteq> None then rs_rename tmp_path path fs else (Inr (), fs))"

section \<open>Where a plain path and its temporary file lie\<close>

lemma trim_parts_id: "ws \<noteq> [] \<Longrightarrow> \<not> blank_part (last ws) \<Longrightarrow> trim_parts ws = ws"
proof (cases ws)
  case (Cons w rest)
  assume "\<not> blank_part (last ws)"
  with Cons show ?thesis by (cases rest rule: rev_cases) (auto simp: trim_parts_def split: list.splits)
qed simp

lemma foldl_trim_parts: "foldl key_step k (trim_parts ws) = foldl key_step k ws"
proof (cases ws)
  case (Cons w rest)
  have "foldl key_step k' (rev (dropWhile blank_part (rev rest))) = foldl key_step k' rest" for k'
    by (induction rest rule: rev_induct) (auto simp: blank_part_def key_step_def)
  with Cons show ?thesis by (simp add: trim_parts_def)
qed (simp add: trim_parts_def)

lemma trim_parts_subset: "set (trim_parts ws) \<subseteq> set ws"
  by (auto simp: trim_parts_def split: list.splits dest!: set_dropWhileD)

lemma is_absolute_parts: "is_absolute s \<longleftrightarrow> hd (split_slash s) = [] \<and> 1 < length (split_slash s)"
  by (cases s) (auto simp: is_absolute_def split: list.splits)

lemma file_stem_chars: "set (file_stem name) \<subseteq> set name"
  by (auto simp: file_stem_def Let_def dest!: in_set_dropD)

lemma split_path_append:
  assumes "\<not> is_absolute p"
  obtains ds where "split_slash (path_append base p) = ds @ split_slash p"
proof (cases "base = []")
  case True
  then show ?thesis using that [of "[]"] assms by (simp add: path_append_def)
next
  case False
  then obtain b where b: "last base = slash \<Longrightarrow> base = b @ [slash]" by (metis append_butlast_last_id)
  show ?thesis
    using that [of "split_slash b"] that [of "split_slash base"] assms False b
    by (cases "last base = slash") (auto simp: path_append_def split_slash_append)
qed

text \<open>The components of a path whose last name is plain.\<close>

lemma plain_last_part:
  assumes "plain_path p"
  shows "last (split_slash (path_append base p)) = last (split_slash p)" "plain_name (last (split_slash p))"
    "slash \<notin> set (last (split_slash p))"
proof -
  show "last (split_slash (path_append base p)) = last (split_slash p)"
    using split_path_append [OF plain_path_relative [OF assms], of base] by (metis last_appendR split_slash_nonempty)
  show "plain_name (last (split_slash p))" using assms by (simp add: plain_path_def list_all_iff)
  show "slash \<notin> set (last (split_slash p))" using split_slash_no_slash [of "last (split_slash p)" p] by simp
qed

definition client_temp_key :: "string \<Rightarrow> storage \<Rightarrow> string \<Rightarrow> key" where
  "client_temp_key base fs p = butlast (target_key base fs p) @ [file_stem (last (split_slash p)) @ ''.tmp'']"

lemma with_extension_plain:
  assumes p: "plain_path p" "CHR 0x00 \<notin> set base"
  defines "t \<equiv> with_extension_tmp (path_append base p)"
  shows "os_key (cwd fs) t = client_temp_key base fs p" and "CHR 0x00 \<notin> set t" and "\<not> dir_only t" and "c_str t \<noteq> []"
proof -
  let ?s = "path_append base p" and ?n = "last (split_slash p)" and ?e = "file_stem (last (split_slash p)) @ ''.tmp''"
  note last = plain_last_part [OF p(1)]
  have plain: "\<not> blank_part ?n" "?n \<noteq> ''..''" using last(2) by (auto simp: plain_name_def blank_part_def)
  then have t: "t = join_slash (butlast (split_slash ?s) @ [?e])"
    using last(1) [of base] by (simp add: t_def with_extension_tmp_def trim_parts_id)
  have "slash \<notin> set ?e" using last(3) file_stem_chars by auto
  then have split: "split_slash t = butlast (split_slash ?s) @ [?e]"
    unfolding t using split_slash_no_slash [of _ ?s] by (intro split_join) (auto dest: in_set_butlastD)
  have nul_s: "CHR 0x00 \<notin> set ?s" using plain_path_keys(6) [OF p] .
  have words: "set w \<subseteq> set ?s" if "w \<in> set (split_slash ?s)" for w using set_split_slash [OF that] .
  have "?n \<in> set (split_slash ?s)" using last(1) [of base] by (metis last_in_set split_slash_nonempty)
  then have "set ?e \<subseteq> set ?s \<union> set ''.tmp''" using words file_stem_chars by fastforce
  then have "set t \<subseteq> set ?s \<union> set ''.tmp'' \<union> {slash}"
    unfolding t using set_join_slash [of "butlast (split_slash ?s) @ [?e]"] words by (fastforce dest: in_set_butlastD)
  with nul_s show nul: "CHR 0x00 \<notin> set t" by auto
  have "is_absolute t = is_absolute ?s"
    unfolding is_absolute_parts split by (cases "split_slash ?s" rule: rev_cases) (auto simp: hd_append)
  then have "key_dir (cwd fs) t = key_dir (cwd fs) ?s" by (simp add: key_dir_def split)
  then show "os_key (cwd fs) t = client_temp_key base fs p"
    using os_key_butlast [OF nul, of "cwd fs"] plain_keys(3) [OF p] split
    by (simp add: client_temp_key_def key_step_def)
  show "\<not> dir_only t" unfolding dir_only_def c_str_id [OF nul] split by simp
  show "c_str t \<noteq> []" unfolding c_str_id [OF nul] using split by auto
qed

lemma create_parents_plain:
  assumes p: "plain_path p" "CHR 0x00 \<notin> set base"
  shows "create_parents (path_append base p) fs =
    (if butlast (split_slash (path_append base p)) = [] then (Inr (), fs)
     else case make_dirs [] (butlast (target_key base fs p)) fs of
       (True, fs1) \<Rightarrow> (Inr (), fs1) | (False, fs1) \<Rightarrow> (Inl (Err (FileIo ''Cannot create dirs'')), fs1))"
proof -
  let ?s = "path_append base p" and ?ws = "split_slash (path_append base p)"
  note last = plain_last_part [OF p(1)]
  have blank: "\<not> blank_part (last ?ws)" using last(1) [of base] last(2) by (auto simp: plain_name_def blank_part_def)
  then have trim: "trim_parts ?ws = ?ws" "?ws \<noteq> [[]]" by (auto simp: trim_parts_id blank_part_def)
  show ?thesis
  proof (cases "butlast ?ws = []")
    case True
    then show ?thesis using trim by (simp add: create_parents_def rs_parent_def)
  next
    case False
    define dir where "dir = trim_parts (butlast ?ws)"
    define d where "d = (if dir = [[]] then [slash] else join_slash dir)"
    have dir: "dir \<noteq> []" "hd dir = hd ?ws" "set dir \<subseteq> set ?ws"
      using False trim_parts_subset [of "butlast ?ws"]
      by (cases ?ws; auto simp: dir_def trim_parts_def dest: in_set_butlastD split: list.splits if_splits)+
    have nul_s: "CHR 0x00 \<notin> set ?s" using plain_path_keys(6) [OF p] .
    have "CHR 0x00 \<notin> set (join_slash dir)"
      using set_join_slash [of dir] dir(3) set_split_slash [of _ ?s] nul_s by fastforce
    then have nul: "CHR 0x00 \<notin> set d" by (simp add: d_def)
    have split: "split_slash (join_slash dir) = dir" using dir split_slash_no_slash [of _ ?s] by (intro split_join) auto
    have two: "1 < length ?ws" using False by (cases ?ws rule: rev_cases) (auto simp: Suc_lessI)
    have "os_key (cwd fs) d = key_dir (cwd fs) ?s"
    proof (cases "dir = [[]]")
      case True
      then have "is_absolute ?s" using dir(2) two by (simp add: is_absolute_parts)
      then have "key_dir (cwd fs) ?s = []"
        using foldl_trim_parts [of "[]" "butlast ?ws"] True by (simp add: key_dir_def dir_def key_step_def)
      then show ?thesis using True by (simp add: d_def os_key_def c_str_def is_absolute_def key_step_def)
    next
      case no: False
      have "is_absolute (join_slash dir) = is_absolute ?s"
        unfolding is_absolute_parts split using dir(1,2) two no by (cases dir; cases "tl dir") auto
      then show ?thesis
        using no nul split foldl_trim_parts [of _ "butlast ?ws"]
        by (simp add: d_def os_key_def key_dir_def c_str_id dir_def)
    qed
    then have key: "os_key (cwd fs) d = butlast (target_key base fs p)" using plain_keys(3) [OF p] by simp
    have "d \<noteq> []" using split dir(1) by (auto simp: d_def)
    then have "create_directories fs d = make_dirs [] (butlast (target_key base fs p)) fs"
      by (simp add: create_directories_def c_str_id [OF nul] key)
    moreover have "rs_parent ?s = Some d" using trim False by (simp add: rs_parent_def d_def dir_def)
    ultimately show ?thesis using False \<open>d \<noteq> []\<close> nul by (simp add: create_parents_def)
  qed
qed

section \<open>Writing a file\<close>

text \<open>A place where the client can write: nothing is a directory or a file where the other is needed.\<close>

definition client_place :: "FileOps \<Rightarrow> storage \<Rightarrow> string \<Rightarrow> bool" where
  "client_place ops fs p \<longleftrightarrow>
     plain_path p \<and> CHR 0x00 \<notin> set (sync_root ops) \<and> healthy fs \<and> storage_wf fs \<and>
     (let k = target_key (sync_root ops) fs p in
      list_all (\<lambda>i. file_at fs (take i k) = None) [0..<length k] \<and> node_at fs k \<noteq> Some Dir \<and>
      node_at fs (client_temp_key (sync_root ops) fs p) \<noteq> Some Dir)"

lemma create_parents_ok:
  assumes place: "client_place ops fs p"
  obtains fs1 where "create_parents (client_resolve_path ops p) fs = (Inr (), fs1)" "storage_wf fs1"
    "cwd fs1 = cwd fs" "no_read fs1 = []" "no_write fs1 = []" "max_file fs1 = max_file fs" "file_now fs1 = file_now fs"
    "\<forall>k. file_at fs1 k = file_at fs k" "node_at fs1 (butlast (target_key (sync_root ops) fs p)) = Some Dir"
    "node_at fs1 (target_key (sync_root ops) fs p) \<noteq> Some Dir" "node_at fs1 (client_temp_key (sync_root ops) fs p) \<noteq> Some Dir"
proof -
  let ?t = "target_key (sync_root ops) fs p" and ?k = "client_temp_key (sync_root ops) fs p"
  note place' = place [unfolded client_place_def Let_def]
  have p: "plain_path p" "CHR 0x00 \<notin> set (sync_root ops)" using place' by auto
  note parents = create_parents_plain [OF p, of fs, folded client_resolve_path_def]
  show ?thesis
  proof (cases "butlast (split_slash (client_resolve_path ops p)) = []")
    case True
    then have "butlast ?t = cwd fs"
      using plain_keys(3) [OF p, of fs] is_absolute_parts [of "client_resolve_path ops p"]
      by (cases "split_slash (client_resolve_path ops p)" rule: rev_cases)
        (auto simp: key_dir_def client_resolve_path_def)
    with True parents place' show ?thesis by (intro that [of fs]) (auto simp: healthy_def)
  next
    case False
    let ?fs1 = "snd (make_dirs [] (butlast ?t) fs)"
    have t_ne: "?t \<noteq> []" using plain_keys(1) [OF p, of fs] by simp
    have made: "fst (make_dirs [] (butlast ?t) fs)" "node_at ?fs1 (butlast ?t) = Some Dir"
      using make_parents_ok [OF _ t_ne] place' by (auto simp: healthy_def list_all_iff)
    have outside: "node_at ?fs1 (butlast ?t @ [n]) = node_at fs (butlast ?t @ [n])" for n
      by (rule make_dirs_outside) (auto dest: prefix_length_le)
    have "butlast ?t @ [last ?t] = ?t" using t_ne by simp
    then have "node_at ?fs1 ?t = node_at fs ?t" "node_at ?fs1 ?k = node_at fs ?k"
      using outside [of "last ?t"] outside by (simp_all add: client_temp_key_def)
    moreover have "file_at ?fs1 k = file_at fs k" for k
      using make_dirs_effect [of "[]" "butlast ?t" fs k] by (auto simp: file_at_def)
    moreover have "storage_wf ?fs1" using place' by (intro make_dirs_wf) (auto simp: node_at_def)
    moreover have "create_parents (client_resolve_path ops p) fs = (Inr (), ?fs1)"
      using parents False made(1) by (simp add: client_resolve_path_def split_beta)
    ultimately show ?thesis using that [of ?fs1] made(2) place' by (auto simp: healthy_def)
  qed
qed

lemma client_names:
  assumes p: "plain_path p" "CHR 0x00 \<notin> set (sync_root ops)" and "cwd fs1 = cwd fs"
  defines "s \<equiv> client_resolve_path ops p"
  shows "os_key (cwd fs1) (with_extension_tmp s) = client_temp_key (sync_root ops) fs p"
    "CHR 0x00 \<notin> set (with_extension_tmp s)" "\<not> dir_only (with_extension_tmp s)" "c_str (with_extension_tmp s) \<noteq> []"
    "os_key (cwd fs1) s = target_key (sync_root ops) fs p" "CHR 0x00 \<notin> set s" "\<not> dir_only s" "c_str s \<noteq> []"
  using with_extension_plain(1) [OF p, of fs] with_extension_plain(2-4) [OF p] plain_path_keys(1) [OF p, of "cwd fs"]
    plain_path_keys(4-6) [OF p] plain_keys(1) [OF p, of fs] assms(3)
  by (simp_all add: client_resolve_path_def s_def)

text \<open>Publishing the temporary file.\<close>

lemma client_publish_ok:
  assumes p: "plain_path p" "CHR 0x00 \<notin> set (sync_root ops)" and fs1: "storage_wf fs1" "cwd fs1 = cwd fs" "no_write fs1 = []"
  defines "t \<equiv> target_key (sync_root ops) fs p" and "k \<equiv> client_temp_key (sync_root ops) fs p"
  assumes nodes: "node_at fs1 k = Some (File data tm)" "node_at fs1 t \<noteq> Some Dir"
  obtains fs' where "rs_rename (with_extension_tmp (client_resolve_path ops p)) (client_resolve_path ops p) fs1 = (Inr (), fs')"
    "storage_wf fs'" "cwd fs' = cwd fs" "no_read fs' = no_read fs1"
    "\<forall>x. node_at fs' x = (if x = t then Some (File data tm) else if x = k then None else node_at fs1 x)"
proof -
  let ?s = "client_resolve_path ops p"
  note names = client_names [OF p fs1(2), folded t_def k_def]
  have ne: "t \<noteq> []" "k \<noteq> []" "butlast k = butlast t"
    using plain_keys(1) [OF p, of fs] by (simp_all add: t_def k_def client_temp_key_def)
  have dir: "node_at fs1 (butlast t) = Some Dir" using parent_dir [OF fs1(1) nodes(1)] ne(3) by simp
  have allowed: "rename_allowed fs1 k t"
    using nodes dir ne fs1(3) by (auto simp: rename_allowed_def creatable_def split: option.splits node.splits)
  then obtain fs4 where fs4: "rename_key k t fs1 = (True, fs4)" using nodes(1) by (cases "k = t") (auto simp: rename_key_def)
  have "node_at fs4 x = (if x = t then Some (File data tm) else if x = k then None else node_at fs1 x)" for x
  proof (cases "k = t")
    case True
    then show ?thesis using fs4 nodes(1) by (auto simp: rename_key_def)
  next
    case False
    then show ?thesis using rename_file [OF fs1(1) nodes(1) allowed False fs4] by simp
  qed
  moreover have "os_node fs1 (with_extension_tmp ?s) \<noteq> None" using names nodes(1) by (simp add: os_node_def)
  then have "rs_rename (with_extension_tmp ?s) ?s fs1 = (Inr (), fs4)"
    using names fs4 by (auto simp: rs_rename_def fs_rename_def)
  moreover have "cwd fs4 = cwd fs" "no_read fs4 = no_read fs1"
    using fs4 fs1(2) by (auto simp: rename_key_def split: if_splits)
  ultimately show ?thesis using that rename_key_wf [OF fs1(1) fs4] by blast
qed

lemma client_write_file_ok:
  assumes place: "client_place ops fs p" and fits: "length data \<le> max_file fs"
  obtains fs' where "client_write_file ops p data fs = (Inr (), fs')" "storage_wf fs'"
    "cwd fs' = cwd fs" "no_read fs' = []"
    "\<forall>k. file_at fs' k = (if k = target_key (sync_root ops) fs p then Some data
       else if k = client_temp_key (sync_root ops) fs p then None else file_at fs k)"
proof -
  let ?t = "target_key (sync_root ops) fs p" and ?k = "client_temp_key (sync_root ops) fs p"
  let ?s = "client_resolve_path ops p"
  have p: "plain_path p" "CHR 0x00 \<notin> set (sync_root ops)" using place by (auto simp: client_place_def)
  obtain fs1 where fs1: "create_parents ?s fs = (Inr (), fs1)" "storage_wf fs1"
    "cwd fs1 = cwd fs" "no_read fs1 = []" "no_write fs1 = []" "max_file fs1 = max_file fs" "file_now fs1 = file_now fs"
    "\<forall>k. file_at fs1 k = file_at fs k"
    "node_at fs1 (butlast ?t) = Some Dir" "node_at fs1 ?t \<noteq> Some Dir" "node_at fs1 ?k \<noteq> Some Dir"
    by (rule create_parents_ok [OF place])
  note names = client_names [OF p fs1(3)]
  have k_ne: "?k \<noteq> []" "butlast ?k = butlast ?t" by (simp_all add: client_temp_key_def)
  define fs2 where "fs2 = put_node ?k (File [] (file_now fs)) fs1"
  have open_ok: "rs_create (with_extension_tmp ?s) w fs1 = (Inr ?k, fs2)" for w
    using names fs1(5,7,9,11) k_ne
    by (auto simp: rs_create_def open_trunc_def creatable_def fs2_def Let_def split: option.splits node.splits)
  have wf2: "storage_wf fs2" unfolding fs2_def using fs1(2,9,11) k_ne by (intro storage_wf_put) auto
  define fs3 where "fs3 = put_node ?k (File data (file_now fs)) fs2"
  have "seek_write fs2 ?k 0 data = (True, fs3)"
    using fits fs1(6,7) k_ne by (auto simp: seek_write_def fs2_def fs3_def node_at_put Let_def)
  then have write_ok: "rs_write_at ?k 0 data fs2 = (Inr (), fs3)" and "storage_wf fs3"
    using seek_write_wf [OF wf2, of ?k 0 data] by (simp_all add: rs_write_at_def)
  moreover have node3: "node_at fs3 k = (if k = ?k then Some (File data (file_now fs)) else node_at fs1 k)" for k
    using k_ne by (simp add: fs3_def fs2_def node_at_put)
  moreover have "cwd fs3 = cwd fs" "no_write fs3 = []" "no_read fs3 = []"
    using fs1(3-5) by (simp_all add: fs3_def fs2_def)
  moreover have "node_at fs3 ?t \<noteq> Some Dir" using node3 fs1(10) by simp
  ultimately obtain fs4 where fs4: "rs_rename (with_extension_tmp ?s) ?s fs3 = (Inr (), fs4)" "storage_wf fs4" "cwd fs4 = cwd fs"
    "no_read fs4 = []" "\<forall>x. node_at fs4 x = (if x = ?t then Some (File data (file_now fs)) else if x = ?k then None else node_at fs3 x)"
    using client_publish_ok [OF p, of fs3 fs data "file_now fs"] by auto
  then have "file_at fs4 k = (if k = ?t then Some data else if k = ?k then None else file_at fs k)" for k
    using fs1(8) node3 by (simp add: file_at_def)
  moreover have "client_write_file ops p data fs = (Inr (), fs4)"
    using fs1(1) open_ok write_ok fs4(1) by (simp add: client_write_file_def Let_def and_then_def)
  ultimately show ?thesis using that fs4(2-4) by blast
qed

text \<open>Reading a file back.\<close>

lemma client_open_file:
  assumes p: "plain_path p" "CHR 0x00 \<notin> set (sync_root ops)"
    and f: "file_at fs (target_key (sync_root ops) fs p) = Some c" "no_read fs = []"
  obtains tm where "rs_open fs (client_resolve_path ops p) = Some (File c tm)"
    "rs_metadata fs (client_resolve_path ops p) = Some (File c tm)"
proof -
  obtain tm where "node_at fs (target_key (sync_root ops) fs p) = Some (File c tm)"
    using f(1) by (auto simp: file_at_def split: option.splits node.splits)
  then have "os_node fs (client_resolve_path ops p) = Some (File c tm)"
    using client_names(5-8) [OF p, of fs fs] by (simp add: os_node_def)
  then show ?thesis
    using that [of tm] client_names(6) [OF p, of fs fs] f(2) by (simp add: rs_open_def rs_metadata_def open_in_def)
qed

lemma client_reads:
  assumes "plain_path p" "CHR 0x00 \<notin> set (sync_root ops)"
    and "file_at fs (target_key (sync_root ops) fs p) = Some c" "no_read fs = []"
  shows "client_file_size cr ops p fs = Inr (word_of_nat (length c))"
    and "client_sha256 cr ops p fs = Inr (sha2_hex cr c)"
    and "unat off < 2 ^ 63 \<Longrightarrow> unat sz \<le> grant \<Longrightarrow> unat sz \<le> MAX_RW_COUNT \<Longrightarrow>
      client_read_block grant ops p off sz fs = Inr (take (unat sz) (drop (unat off) c))"
proof -
  obtain tm where "rs_open fs (client_resolve_path ops p) = Some (File c tm)"
    "rs_metadata fs (client_resolve_path ops p) = Some (File c tm)"
    by (rule client_open_file [OF assms])
  then show "client_file_size cr ops p fs = Inr (word_of_nat (length c))"
    and "client_sha256 cr ops p fs = Inr (sha2_hex cr c)"
    and "unat off < 2 ^ 63 \<Longrightarrow> unat sz \<le> grant \<Longrightarrow> unat sz \<le> MAX_RW_COUNT \<Longrightarrow>
      client_read_block grant ops p off sz fs = Inr (take (unat sz) (drop (unat off) c))"
    by (simp_all add: client_file_size_def client_sha256_def sha256_file_def client_read_block_def hash_pieces_eq min_def)
qed

end
