(* ===== verification/Client_Delta.thy ===== *)
theory Client_Delta
  imports Client_Files Delta_Sync
begin

text \<open>
  The client's delta-sync engine (\<^verbatim>\<open>client/src/delta_sync.rs\<close>).  An engine is the \<^verbatim>\<open>FileOps\<close> it owns.  Integers
  wrap as in the release profile; the sizes of files keep all of them in range.
\<close>

section \<open>Signatures\<close>

record ClientBlockSignature =
  cs_block_index :: u32
  cs_rolling_hash :: u32
  cs_strong_hash :: string
  cs_block_offset :: u64
  cs_block_size :: u32

text \<open>The body of a loop with the operator \<^verbatim>\<open>?\<close>, results in the order of the loop.\<close>

fun collect :: "('a \<Rightarrow> 'b outcome) \<Rightarrow> 'a list \<Rightarrow> 'b list outcome" where
  "collect f [] = Inr []"
| "collect f (x # xs) =
     (case f x of Inl e \<Rightarrow> Inl e
      | Inr y \<Rightarrow> (case collect f xs of Inl e \<Rightarrow> Inl e | Inr ys \<Rightarrow> Inr (y # ys)))"

definition actual_block_size :: "u64 \<Rightarrow> u64 \<Rightarrow> u32 \<Rightarrow> u32" where
  "actual_block_size file_sz block_offset block_sz =
     (if block_offset + ucast block_sz > file_sz then ucast (file_sz - block_offset) else block_sz)"

definition compute_signatures ::
    "nat \<Rightarrow> crates \<Rightarrow> FileOps \<Rightarrow> string \<Rightarrow> storage \<Rightarrow> ClientBlockSignature list outcome" where
  "compute_signatures grant cr ops p fs =
     (case client_file_size cr ops p fs of
        Inl e \<Rightarrow> Inl e
      | Inr file_sz \<Rightarrow>
          let block_sz = fo_block_size ops in
          if block_sz = 0 then Inl Crash
          else let total_blocks = ucast ((file_sz + ucast block_sz - 1) div ucast block_sz) :: u32 in
          collect (\<lambda>i.
              let block_index = word_of_nat i :: u32;
                  block_offset = ucast block_index * ucast block_sz :: u64;
                  actual_size = actual_block_size file_sz block_offset block_sz in
              case client_read_block grant ops p block_offset actual_size fs of
                Inl e \<Rightarrow> Inl e
              | Inr data \<Rightarrow> Inr \<lparr>cs_block_index = block_index, cs_rolling_hash = client_adler32 data,
                  cs_strong_hash = sha2_hex cr data, cs_block_offset = block_offset, cs_block_size = actual_size\<rparr>)
            [0..<unat total_blocks])"

definition build_signature_request ::
    "string \<Rightarrow> u64 \<Rightarrow> u32 \<Rightarrow> ClientBlockSignature list \<Rightarrow> DeltaSyncSignatureRequest" where
  "build_signature_request p file_sz block_sz sigs =
     \<lparr>sr_relative_path = p, sr_file_size = file_sz, sr_block_size = block_sz,
      sr_signatures = map (\<lambda>s. \<lparr>bs_block_index = cs_block_index s, bs_rolling_hash = cs_rolling_hash s,
        bs_strong_hash = cs_strong_hash s, bs_block_offset = cs_block_offset s, bs_block_size = cs_block_size s\<rparr>) sigs\<rparr>"

section \<open>Blocks\<close>

text \<open>Indices beyond the end of the file are passed over.\<close>

definition read_requested_blocks ::
    "nat \<Rightarrow> crates \<Rightarrow> FileOps \<Rightarrow> string \<Rightarrow> u32 list \<Rightarrow> storage \<Rightarrow> DeltaSyncBlockData list outcome" where
  "read_requested_blocks grant cr ops p block_indices fs =
     (case client_file_size cr ops p fs of
        Inl e \<Rightarrow> Inl e
      | Inr file_sz \<Rightarrow>
          let block_sz = fo_block_size ops;
              offset_of = (\<lambda>block_index :: u32. ucast block_index * ucast block_sz :: u64) in
          collect (\<lambda>block_index.
              let block_offset = offset_of block_index;
                  actual_size = actual_block_size file_sz block_offset block_sz in
              case client_read_block grant ops p block_offset actual_size fs of
                Inl e \<Rightarrow> Inl e
              | Inr data \<Rightarrow> Inr \<lparr>bd_relative_path = p, bd_block_index = block_index, bd_block_offset = block_offset,
                  bd_data = data, bd_strong_hash = sha2_hex cr data\<rparr>)
            (filter (\<lambda>block_index. \<not> offset_of block_index \<ge> file_sz) block_indices))"

text \<open>\<^verbatim>\<open>set_len\<close>\<close>

definition rs_set_len :: "key \<Rightarrow> u64 \<Rightarrow> storage \<Rightarrow> unit outcome \<times> storage" where
  "rs_set_len k n fs =
     (case node_at fs k of
        Some (File c t) \<Rightarrow>
          if 2 ^ 63 \<le> unat n \<or> max_file fs < unat n then (Inl (Err (FileIo ''Cannot pre-allocate'')), fs)
          else (Inr (), put_node k (File (take (unat n) c @ replicate (unat n - length c) 0) (file_now fs)) fs)
      | _ \<Rightarrow> (Inl (Err (FileIo ''Cannot pre-allocate'')), fs))"

fun write_blocks :: "FileOps \<Rightarrow> string \<Rightarrow> (u64 \<times> byte list) list \<Rightarrow> storage \<Rightarrow> unit outcome \<times> storage" where
  "write_blocks ops p [] fs = (Inr (), fs)"
| "write_blocks ops p ((offset, data) # blocks) fs =
     and_then (client_write_block ops p offset data) (\<lambda>_. write_blocks ops p blocks) fs"

definition apply_blocks ::
    "crates \<Rightarrow> FileOps \<Rightarrow> string \<Rightarrow> u64 \<Rightarrow> (u64 \<times> byte list) list \<Rightarrow> storage \<Rightarrow> string outcome \<times> storage" where
  "apply_blocks cr ops p total_size blocks =
     (let path = client_resolve_path ops p; tmp_path = with_extension_tmp path in
      and_then (create_parents path) (\<lambda>_.
      and_then (rs_create tmp_path ''Cannot create tmp'') (\<lambda>k.
      and_then (rs_set_len k total_size) (\<lambda>_.
      and_then (write_blocks ops p blocks) (\<lambda>_.
      and_then (\<lambda>fs. (sha256_file cr tmp_path fs, fs)) (\<lambda>final_hash.
      and_then (client_finalize_file ops p) (\<lambda>_ fs.
      (Inr final_hash, fs))))))))"

section \<open>The blocks of a file\<close>

lemma collect_map: "(\<And>x. x \<in> set xs \<Longrightarrow> f x = Inr (g x)) \<Longrightarrow> collect f xs = Inr (map g xs)"
  by (induction xs) simp_all

text \<open>The client can read: the file is there, and memory and the read call take one block.\<close>

definition block_readable :: "nat \<Rightarrow> FileOps \<Rightarrow> storage \<Rightarrow> string \<Rightarrow> byte list \<Rightarrow> bool" where
  "block_readable grant ops fs p content \<longleftrightarrow>
     plain_path p \<and> CHR 0x00 \<notin> set (sync_root ops) \<and> no_read fs = [] \<and>
     file_at fs (target_key (sync_root ops) fs p) = Some content \<and> length content < 2 ^ 63 \<and>
     0 < unat (fo_block_size ops) \<and> unat (fo_block_size ops) \<le> grant \<and> unat (fo_block_size ops) \<le> MAX_RW_COUNT \<and>
     block_count (unat (fo_block_size ops)) (length content) < 2 ^ 32"

lemma client_block:
  assumes ok: "block_readable grant ops fs p content"
  defines "bs \<equiv> fo_block_size ops" and "n \<equiv> word_of_nat (length content) :: u64"
  assumes i: "i < block_count (unat bs) (length content)"
  defines "off \<equiv> ucast (word_of_nat i :: u32) * ucast bs :: u64"
  shows "off = word_of_nat (i * unat bs)" and "off < n"
    and "actual_block_size n off bs = word_of_nat (length (block_at (unat bs) content i))"
    and "client_read_block grant ops p off (actual_block_size n off bs) fs = Inr (block_at (unat bs) content i)"
proof -
  note ok' = ok [unfolded block_readable_def]
  have bs: "0 < unat bs" "unat bs < 2 ^ 32" using ok' unsigned_less [of bs, where ?'a = nat] by (simp_all add: bs_def)
  have i32: "i < 2 ^ 32" using i ok' by (simp add: bs_def)
  have lt: "i * unat bs < length content" using block_count_bounds [OF bs(1)] i by simp
  have len: "length content < 2 ^ 63" using ok' by simp
  have un: "unat n = length content" using len by (simp add: n_def unat_of_nat)
  show off: "off = word_of_nat (i * unat bs)"
  proof -
    have "ucast (word_of_nat i :: u32) = (word_of_nat i :: u64)"
      using i32 by (simp add: word_unat_eq_iff unat_of_nat unat_ucast_u64)
    moreover have "ucast bs = (word_of_nat (unat bs) :: u64)" by simp
    ultimately show ?thesis by (simp only: off_def of_nat_mult)
  qed
  have uo: "unat off = i * unat bs" using lt len unfolding off unat_of_nat by simp
  show "off < n" using uo un lt by (simp add: word_less_nat_alt)
  have us: "unat (off + ucast bs) = i * unat bs + unat bs"
    using uo lt len bs by (simp add: unat_word_ariths unat_ucast_u64)
  show act: "actual_block_size n off bs = word_of_nat (length (block_at (unat bs) content i))"
  proof (cases "length content < i * unat bs + unat bs")
    case True
    then have "unat (n - off) = length content - i * unat bs" using uo un lt by (simp add: unat_sub word_le_nat_alt)
    moreover have "length (block_at (unat bs) content i) = length content - i * unat bs" using True by (simp add: block_at_def)
    ultimately have "ucast (n - off) = (word_of_nat (length (block_at (unat bs) content i)) :: u32)" by (metis of_nat_unat)
    then show ?thesis using True us un by (simp add: actual_block_size_def word_less_nat_alt)
  next
    case False
    then have "length (block_at (unat bs) content i) = unat bs" by (simp add: block_at_def)
    with False us un show ?thesis by (simp add: actual_block_size_def word_less_nat_alt)
  qed
  have block: "length (block_at (unat bs) content i) \<le> unat bs" by (simp add: block_at_def)
  then have ub: "unat (word_of_nat (length (block_at (unat bs) content i)) :: u32) = length (block_at (unat bs) content i)"
    using bs by (simp add: unat_of_nat)
  have "take (length (block_at (unat bs) content i)) (drop (unat off) content) = block_at (unat bs) content i"
    by (simp add: block_at_def uo min_def)
  then show "client_read_block grant ops p off (actual_block_size n off bs) fs = Inr (block_at (unat bs) content i)"
    using client_reads(3) [of p ops fs content off "word_of_nat (length (block_at (unat bs) content i))" grant]
      ok' [folded bs_def] block uo lt len ub
    unfolding act by simp
qed

text \<open>Signatures and blocks as the server defines them, provided the crate computes SHA-256.\<close>

definition file_signatures :: "u32 \<Rightarrow> byte list \<Rightarrow> ClientBlockSignature list" where
  "file_signatures bs content =
     map (\<lambda>i. let d = block_at (unat bs) content i in
       \<lparr>cs_block_index = word_of_nat i, cs_rolling_hash = adler32 d, cs_strong_hash = sha256_hex d,
        cs_block_offset = word_of_nat (i * unat bs), cs_block_size = word_of_nat (length d)\<rparr>)
      [0..<block_count (unat bs) (length content)]"

lemma compute_signatures_ok:
  assumes ok: "block_readable grant ops fs p content" and sha: "\<And>d. sha2_hex cr d = sha256_hex d"
  defines "bs \<equiv> fo_block_size ops"
  shows "compute_signatures grant cr ops p fs = Inr (file_signatures bs content)"
proof -
  note ok' = ok [unfolded block_readable_def]
  have bs: "0 < unat bs" "unat bs < 2 ^ 32" using ok' unsigned_less [of bs, where ?'a = nat] by (simp_all add: bs_def)
  obtain w where w: "blocks_for (word_of_nat (length content)) bs = Inr w" "unat w = block_count (unat bs) (length content)"
    using blocks_for_count [OF bs(1), of "length content"] ok' bs(2) by (auto simp: bs_def)
  have "compute_signatures grant cr ops p fs = collect (\<lambda>i.
      let block_offset = ucast (word_of_nat i :: u32) * ucast bs :: u64;
          actual_size = actual_block_size (word_of_nat (length content)) block_offset bs in
      case client_read_block grant ops p block_offset actual_size fs of
        Inl e \<Rightarrow> Inl e
      | Inr data \<Rightarrow> Inr \<lparr>cs_block_index = word_of_nat i, cs_rolling_hash = client_adler32 data,
          cs_strong_hash = sha2_hex cr data, cs_block_offset = block_offset, cs_block_size = actual_size\<rparr>)
      [0..<block_count (unat bs) (length content)]"
    using client_reads(1) [of p ops fs content cr] ok' w bs(1)
    by (auto simp: compute_signatures_def blocks_for_def bs_def Let_def split: if_splits)
  also have "\<dots> = Inr (file_signatures bs content)"
    using client_block [OF ok, folded bs_def] sha unfolding file_signatures_def
    by (intro collect_map) (simp add: Let_def client_adler32_eq)
  finally show ?thesis .
qed

definition requested_block :: "u32 \<Rightarrow> string \<Rightarrow> byte list \<Rightarrow> u32 \<Rightarrow> DeltaSyncBlockData" where
  "requested_block bs p content i =
     (let d = block_at (unat bs) content (unat i) in
      \<lparr>bd_relative_path = p, bd_block_index = i, bd_block_offset = word_of_nat (unat i * unat bs),
       bd_data = d, bd_strong_hash = sha256_hex d\<rparr>)"

lemma read_requested_blocks_ok:
  assumes ok: "block_readable grant ops fs p content" and sha: "\<And>d. sha2_hex cr d = sha256_hex d"
  defines "bs \<equiv> fo_block_size ops"
  shows "read_requested_blocks grant cr ops p indices fs =
    Inr (map (requested_block bs p content) (filter (\<lambda>i. unat i < block_count (unat bs) (length content)) indices))"
proof -
  note ok' = ok [unfolded block_readable_def]
  have bs: "0 < unat bs" "unat bs < 2 ^ 32" using ok' unsigned_less [of bs, where ?'a = nat] by (simp_all add: bs_def)
  have beyond: "word_of_nat (length content) \<le> (ucast i * ucast bs :: u64) \<longleftrightarrow> \<not> unat i < block_count (unat bs) (length content)" for i :: u32
  proof -
    have "unat i < 2 ^ 32" using unsigned_less [of i, where ?'a = nat] by simp
    then have "unat i * unat bs < 2 ^ 32 * 2 ^ 32" using bs(2) by (intro mult_strict_mono) simp_all
    then have "unat (ucast i * ucast bs :: u64) = unat i * unat bs" by (simp add: unat_mult_lem [symmetric] unat_word_ariths unat_ucast_u64)
    then show ?thesis
      using block_count_bounds [OF bs(1), of "unat i" "length content"] ok' by (simp add: word_le_nat_alt unat_of_nat not_less)
  qed
  have blocks: "(case client_read_block grant ops p (ucast i * ucast bs)
        (actual_block_size (word_of_nat (length content)) (ucast i * ucast bs) bs) fs of Inl e \<Rightarrow> Inl e
      | Inr data \<Rightarrow> Inr \<lparr>bd_relative_path = p, bd_block_index = i, bd_block_offset = ucast i * ucast bs,
          bd_data = data, bd_strong_hash = sha2_hex cr data\<rparr>) = (Inr (requested_block bs p content i) :: _ outcome)"
    if "unat i < block_count (unat bs) (length content)" for i :: u32
    using client_block [OF ok, folded bs_def, OF that] sha by (simp add: requested_block_def Let_def)
  show ?thesis
    using client_reads(1) [of p ops fs content cr] ok' blocks
    by (auto simp: read_requested_blocks_def Let_def bs_def [symmetric] beyond intro!: collect_map)
qed

end
