(* ===== verification/Client.thy ===== *)
theory Client
  imports Client_Delta Session
begin

text \<open>
  The client object (\<^verbatim>\<open>client/src/tcp_client.rs\<close>): every operation of \<^verbatim>\<open>TcpClient\<close>.  The files of the client's machine
  are part of the state.  Progress callbacks are never called by the sources, so operations do not take them.
\<close>

section \<open>State\<close>

record TcpClient =
  tc_stream :: "tcp_stream option"
  tc_server_addr :: string
  tc_client_id :: string
  tc_block_size :: u32
  tc_protocol_version :: u32
  tc_file_ops :: FileOps
  delta_engine :: FileOps
  connected :: bool
  local_disk :: storage

record ClientNegotiationResult =
  cn_file_mode :: int
  cn_transfer_mode :: int
  cn_server_file_size :: u64
  cn_server_sha256 :: string
  cn_block_size :: u32

definition TcpClient_new :: "string \<Rightarrow> string \<Rightarrow> u32 \<Rightarrow> string \<Rightarrow> storage \<Rightarrow> TcpClient" where
  "TcpClient_new addr base block_sz process_id fs =
     \<lparr>tc_stream = None, tc_server_addr = addr, tc_client_id = ''rust-client-'' @ process_id,
      tc_block_size = block_sz, tc_protocol_version = 1,
      tc_file_ops = \<lparr>sync_root = base, fo_block_size = block_sz\<rparr>,
      delta_engine = \<lparr>sync_root = base, fo_block_size = block_sz\<rparr>, connected = False, local_disk = fs\<rparr>"

text \<open>Operations on the stream, on the local files, and the check that comes first in each operation.\<close>

definition require_stream :: "TcpClient \<Rightarrow> unit outcome \<times> TcpClient" where
  "require_stream c = (if tc_stream c = None then Inl (Err (Connection ''Not connected'')) else Inr (), c)"

definition on_stream :: "(tcp_stream \<Rightarrow> 'a outcome \<times> tcp_stream) \<Rightarrow> TcpClient \<Rightarrow> 'a outcome \<times> TcpClient" where
  "on_stream m c =
     (case tc_stream c of
        None \<Rightarrow> (Inl (Err (Connection ''Not connected'')), c)
      | Some st \<Rightarrow> let (r, st') = m st in (r, c\<lparr>tc_stream := Some st'\<rparr>))"

definition on_disk :: "(storage \<Rightarrow> 'a outcome \<times> storage) \<Rightarrow> TcpClient \<Rightarrow> 'a outcome \<times> TcpClient" where
  "on_disk m c = (let (r, fs) = m (local_disk c) in (r, c\<lparr>local_disk := fs\<rparr>))"

definition look :: "(TcpClient \<Rightarrow> 'a outcome) \<Rightarrow> TcpClient \<Rightarrow> 'a outcome \<times> TcpClient" where
  "look f c = (f c, c)"

definition decoded :: "'a option \<Rightarrow> string \<Rightarrow> 's \<Rightarrow> 'a outcome \<times> 's" where
  "decoded r what s = (case r of None \<Rightarrow> Inl (Err (Protocol what)) | Some x \<Rightarrow> Inr x, s)"

definition unwrap_or :: "'a outcome \<Rightarrow> 'a \<Rightarrow> 'a" where
  "unwrap_or r d = (case r of Inl _ \<Rightarrow> d | Inr x \<Rightarrow> x)"

section \<open>Connection\<close>

text \<open>Up to 100 frames are read; those of other types are dropped.\<close>

fun read_expected_loop :: "nat \<Rightarrow> nat \<Rightarrow> byte \<Rightarrow> tcp_stream \<Rightarrow> WireFrame outcome \<times> tcp_stream" where
  "read_expected_loop 0 grant expected_type st = (Inl (Err (Protocol ''Too many unexpected frames'')), st)"
| "read_expected_loop (Suc n) grant expected_type st =
     and_then (client_read_frame grant) (\<lambda>frame.
       if message_type frame = expected_type then (\<lambda>st. (Inr frame, st))
       else read_expected_loop n grant expected_type) st"

definition read_expected :: "nat \<Rightarrow> byte \<Rightarrow> tcp_stream \<Rightarrow> WireFrame outcome \<times> tcp_stream" where
  "read_expected = read_expected_loop 100"

text \<open>
  \<open>attempt\<close> is the new connection, if the server could be reached.  When the handshake fails the new stream is
  dropped and the object is as before.
\<close>

definition client_hello :: "TcpClient \<Rightarrow> ClientHello" where
  "client_hello c = \<lparr>ch_protocol_version = tc_protocol_version c, ch_client_id = tc_client_id c,
     ch_supported_modes = [ZERO_COPY, DELTA_SYNC], ch_block_size = tc_block_size c\<rparr>"

definition connect :: "crates \<Rightarrow> nat \<Rightarrow> tcp_stream option \<Rightarrow> TcpClient \<Rightarrow> unit outcome \<times> TcpClient" where
  "connect cr grant attempt c =
     (case attempt of
        None \<Rightarrow> (Inl (Err (Connection ''Failed to connect'')), c)
      | Some stream \<Rightarrow>
          (case and_then (client_write_frame MSG_CLIENT_HELLO (enc_ClientHello cr (client_hello c))) (\<lambda>_.
                and_then (client_read_frame grant) (\<lambda>frame.
                  if message_type frame \<noteq> MSG_SERVER_HELLO
                  then (\<lambda>st. (Inl (Err (Protocol ''Expected ServerHello'')), st))
                  else decoded (dec_ServerHello cr (payload frame)) ''Failed to parse ServerHello'')) stream of
             (Inl e, _) \<Rightarrow> (Inl e, c)
           | (Inr server_hello, st) \<Rightarrow>
               (Inr (), c\<lparr>tc_stream := Some st,
                  tc_block_size := (if sh_block_size server_hello \<ge> 4096 \<and> sh_block_size server_hello \<le> 1048576
                    then sh_block_size server_hello else tc_block_size c),
                  connected := True\<rparr>)))"

definition disconnect :: "TcpClient \<Rightarrow> TcpClient" where
  "disconnect c = c\<lparr>tc_stream := None, connected := False\<rparr>"

definition client_drop :: "TcpClient \<Rightarrow> TcpClient" where
  "client_drop c = (if connected c then c\<lparr>tc_stream := None\<rparr> else c)"

section \<open>Negotiation\<close>

definition negotiation_request :: "crates \<Rightarrow> string \<Rightarrow> TcpClient \<Rightarrow> NegotiationRequest" where
  "negotiation_request cr p c =
     \<lparr>nr_relative_path = p,
      nr_client_file_size = unwrap_or (client_file_size cr (tc_file_ops c) p (local_disk c)) 0,
      nr_client_last_modified_ns = unwrap_or (client_last_modified_ns (tc_file_ops c) p (local_disk c)) 0,
      nr_client_sha256_hash = unwrap_or (client_sha256 cr (tc_file_ops c) p (local_disk c)) []\<rparr>"

definition client_negotiate :: "crates \<Rightarrow> nat \<Rightarrow> string \<Rightarrow> TcpClient \<Rightarrow> ClientNegotiationResult outcome \<times> TcpClient" where
  "client_negotiate cr grant p =
     and_then require_stream (\<lambda>_ c.
     and_then (on_stream (client_write_frame MSG_NEGOTIATION_REQUEST (enc_NegotiationRequest cr (negotiation_request cr p c)))) (\<lambda>_.
     and_then (on_stream (read_expected grant MSG_NEGOTIATION_RESPONSE)) (\<lambda>frame.
     and_then (decoded (dec_NegotiationResponse cr (payload frame)) ''Failed to parse NegotiationResponse'') (\<lambda>resp c.
     (Inr \<lparr>cn_file_mode = np_file_mode resp, cn_transfer_mode = np_transfer_mode resp,
           cn_server_file_size = np_server_file_size resp, cn_server_sha256 = np_server_sha256_hash resp,
           cn_block_size = np_block_size resp\<rparr>, c)))) c)"

section \<open>Transfers\<close>

definition download_file :: "crates \<Rightarrow> nat \<Rightarrow> string \<Rightarrow> TcpClient \<Rightarrow> string outcome \<times> TcpClient" where
  "download_file cr grant p =
     and_then require_stream (\<lambda>_.
     and_then (on_stream (client_write_frame MSG_ZERO_COPY_DOWNLOAD_REQUEST
         (enc_ZeroCopyDownloadRequest cr \<lparr>dr_relative_path = p, dr_offset = 0\<rparr>))) (\<lambda>_.
     and_then (on_stream (read_expected grant MSG_ZERO_COPY_DOWNLOAD_HEADER)) (\<lambda>header_frame.
     and_then (decoded (dec_ZeroCopyDownloadHeader cr (payload header_frame)) ''Failed to parse header'') (\<lambda>header.
     and_then (on_stream (client_read_frame grant)) (\<lambda>raw_frame.
     if message_type raw_frame \<noteq> 0xFE then (\<lambda>c. (Inl (Err (Protocol ''Expected raw data frame'')), c))
     else (\<lambda>c.
     and_then (on_disk (client_write_file (tc_file_ops c) p (payload raw_frame))) (\<lambda>_.
     and_then (look (\<lambda>c. client_sha256 cr (tc_file_ops c) p (local_disk c))) (\<lambda>local_hash c.
     if dh_sha256_hash header \<noteq> [] \<and> local_hash \<noteq> dh_sha256_hash header
     then (Inl (Err (HashMismatch (dh_sha256_hash header) local_hash)), c)
     else (Inr local_hash, c))) c))))))"

text \<open>\<^verbatim>\<open>std::fs::read\<close>\<close>

definition rs_read :: "storage \<Rightarrow> string \<Rightarrow> byte list outcome" where
  "rs_read fs p =
     (case rs_open fs p of Some (File content _) \<Rightarrow> Inr content | _ \<Rightarrow> Inl (Err (FileIo ''Cannot read file'')))"

definition upload_request :: "LocalFileInfo \<Rightarrow> ZeroCopyUploadRequest" where
  "upload_request file_info = \<lparr>ur_metadata =
     \<lparr>md_relative_path = li_relative_path file_info, md_file_size = li_file_size file_info,
      md_last_modified_ns = li_last_modified_ns file_info, md_sha256_hash = li_sha256_hash file_info,
      md_file_mode = FRESH\<rparr>\<rparr>"

definition upload_file :: "crates \<Rightarrow> nat \<Rightarrow> string \<Rightarrow> TcpClient \<Rightarrow> string outcome \<times> TcpClient" where
  "upload_file cr grant p =
     and_then require_stream (\<lambda>_.
     and_then (look (\<lambda>c. client_get_file_info cr (tc_file_ops c) p (local_disk c))) (\<lambda>file_info.
     and_then (on_stream (client_write_frame MSG_ZERO_COPY_UPLOAD_REQUEST
         (enc_ZeroCopyUploadRequest cr (upload_request file_info)))) (\<lambda>_.
     and_then (on_stream (client_read_frame grant)) (\<lambda>ack_frame.
     and_then (decoded (dec_ZeroCopyUploadAck cr (payload ack_frame)) ''Failed to parse upload ack'') (\<lambda>ack.
     if ua_status ack \<noteq> STATUS_OK
     then (\<lambda>c. (Inl (Err (ServerError (ua_status ack) (ua_error_message ack))), c))
     else
     and_then (look (\<lambda>c. rs_read (local_disk c) (client_resolve_path (tc_file_ops c) p))) (\<lambda>file_data.
     and_then (on_stream (write_raw_data file_data)) (\<lambda>_ c.
     (Inr (li_sha256_hash file_info), c))))))))"

fun send_blocks :: "crates \<Rightarrow> DeltaSyncBlockData list \<Rightarrow> tcp_stream \<Rightarrow> unit outcome \<times> tcp_stream" where
  "send_blocks cr [] st = (Inr (), st)"
| "send_blocks cr (block_data # blocks) st =
     and_then (client_write_frame MSG_DELTA_SYNC_BLOCK_DATA (enc_DeltaSyncBlockData cr block_data)) (\<lambda>_. send_blocks cr blocks) st"

text \<open>The engine uses its own block size; the message carries the one of the connection.\<close>

definition delta_sync_upload :: "crates \<Rightarrow> nat \<Rightarrow> string \<Rightarrow> TcpClient \<Rightarrow> string outcome \<times> TcpClient" where
  "delta_sync_upload cr grant p =
     and_then require_stream (\<lambda>_.
     and_then (look (\<lambda>c. compute_signatures grant cr (delta_engine c) p (local_disk c))) (\<lambda>signatures.
     and_then (look (\<lambda>c. client_file_size cr (tc_file_ops c) p (local_disk c))) (\<lambda>file_sz c.
     and_then (on_stream (client_write_frame MSG_DELTA_SYNC_SIGNATURE_REQUEST (enc_DeltaSyncSignatureRequest cr
         (build_signature_request p file_sz (tc_block_size c) signatures)))) (\<lambda>_.
     and_then (on_stream (client_read_frame grant)) (\<lambda>block_req_frame.
     and_then (decoded (dec_DeltaSyncBlockRequest cr (payload block_req_frame)) ''Failed to parse block request'') (\<lambda>block_req.
     and_then (look (\<lambda>c. read_requested_blocks grant cr (delta_engine c) p (br_requested_block_indices block_req) (local_disk c))) (\<lambda>blocks.
     and_then (on_stream (send_blocks cr blocks)) (\<lambda>_.
     and_then (on_stream (client_read_frame grant)) (\<lambda>complete_frame.
     and_then (decoded (dec_DeltaSyncComplete cr (payload complete_frame)) ''Failed to parse completion'') (\<lambda>complete c.
     if dc_status complete \<noteq> STATUS_OK
     then (Inl (Err (ServerError (dc_status complete) (dc_error_message complete))), c)
     else (Inr (dc_final_sha256_hash complete), c)))))))) c)))"

definition list_server_files :: "crates \<Rightarrow> nat \<Rightarrow> string \<Rightarrow> bool \<Rightarrow> TcpClient \<Rightarrow> FileMetadata list outcome \<times> TcpClient" where
  "list_server_files cr grant pre recursive =
     and_then require_stream (\<lambda>_.
     and_then (on_stream (client_write_frame MSG_LIST_FILES_REQUEST
         (enc_ListFilesRequest cr \<lparr>lr_directory_prefix = pre, lr_recursive = recursive\<rparr>))) (\<lambda>_.
     and_then (on_stream (read_expected grant MSG_LIST_FILES_RESPONSE)) (\<lambda>frame.
     and_then (decoded (dec_ListFilesResponse cr (payload frame)) ''Failed to parse list response'') (\<lambda>resp c.
     (Inr (lp_files resp), c)))))"

definition sync_file :: "crates \<Rightarrow> nat \<Rightarrow> string \<Rightarrow> TcpClient \<Rightarrow> string outcome \<times> TcpClient" where
  "sync_file cr grant p =
     and_then (client_negotiate cr grant p) (\<lambda>negotiation.
     if cn_file_mode negotiation = UNCHANGED then (\<lambda>c. (Inr (cn_server_sha256 negotiation), c))
     else if cn_file_mode negotiation = FRESH then download_file cr grant p
     else if cn_file_mode negotiation = MODIFIED
     then (if cn_transfer_mode negotiation = DELTA_SYNC then delta_sync_upload cr grant p else upload_file cr grant p)
     else (\<lambda>c. (Inl (Err (Protocol ''Unknown file mode'')), c)))"

section \<open>Conversations over a connection that holds\<close>

lemma require_stream_ok: "tc_stream c = Some st \<Longrightarrow> require_stream c = (Inr (), c)"
  by (simp add: require_stream_def)

lemma on_stream_ok: "tc_stream c = Some st \<Longrightarrow> m st = (r, st') \<Longrightarrow> on_stream m c = (r, c\<lparr>tc_stream := Some st'\<rparr>)"
  by (simp add: on_stream_def)

lemma on_disk_ok: "m (local_disk c) = (r, fs) \<Longrightarrow> on_disk m c = (r, c\<lparr>local_disk := fs\<rparr>)"
  by (simp add: on_disk_def)

lemmas client_step = and_then_def require_stream_ok look_def decoded_def

text \<open>Writing a frame, then reading: the frame is in the outgoing bytes, the answer is taken from the incoming ones.\<close>

lemma on_stream_write:
  assumes "tc_stream c = Some st" and "takes st = None"
  shows "on_stream (client_write_frame t msg) c =
    (Inr (), c\<lparr>tc_stream := Some (st\<lparr>outgoing := outgoing st @ encode_frame \<lparr>message_type = t, payload = msg\<rparr>\<rparr>)\<rparr>)"
  by (rule on_stream_ok [OF assms(1)], rule client_write_unbroken(1) [OF assms(2)])

lemma on_stream_read:
  assumes "tc_stream c = Some st" and "incoming st = encode_frame f @ rest"
    and "length (payload f) < 2 ^ 31" "length (payload f) \<le> grant"
  shows "on_stream (client_read_frame grant) c = (Inr f, c\<lparr>tc_stream := Some (st\<lparr>incoming := rest\<rparr>)\<rparr>)"
  by (rule on_stream_ok [OF assms(1)], rule client_read_standard [OF assms(2)]) (use assms(3,4) in simp_all)

lemma on_stream_expected:
  assumes "tc_stream c = Some st" and "incoming st = encode_frame f @ rest" and "message_type f = t"
    and "length (payload f) < 2 ^ 31" "length (payload f) \<le> grant"
  shows "on_stream (read_expected grant t) c = (Inr f, c\<lparr>tc_stream := Some (st\<lparr>incoming := rest\<rparr>)\<rparr>)"
proof (rule on_stream_ok [OF assms(1)])
  have "(100 :: nat) = Suc 99" by simp
  then show "read_expected grant t st = (Inr f, st\<lparr>incoming := rest\<rparr>)"
    using client_read_standard [OF assms(2), of grant] assms(3-5)
    by (simp only: read_expected_def read_expected_loop.simps) (simp add: and_then_def)
qed

lemma on_stream_raw:
  assumes "tc_stream c = Some st" and "incoming st = raw_frame data @ rest" and "length data < 2 ^ 63" "length data \<le> grant"
  shows "on_stream (client_read_frame grant) c =
    (Inr \<lparr>message_type = MSG_RAW_DATA, payload = data\<rparr>, c\<lparr>tc_stream := Some (st\<lparr>incoming := rest\<rparr>)\<rparr>)"
proof (rule on_stream_ok [OF assms(1)])
  have "unat (word_of_nat (length data) :: u64) = length data" using assms(3) by (simp add: unat_of_nat)
  then show "client_read_frame grant st = (Inr \<lparr>message_type = MSG_RAW_DATA, payload = data\<rparr>, st\<lparr>incoming := rest\<rparr>)"
    using client_read_raw [of st "word_of_nat (length data)" data rest grant] assms(2-4)
    by (simp add: raw_frame_def vector_max_size_def)
qed

lemma client_download_ok:
  assumes st: "tc_stream c = Some st" "takes st = None"
    and answer: "incoming st = encode_frame \<lparr>message_type = MSG_ZERO_COPY_DOWNLOAD_HEADER, payload = msg\<rparr> @ raw_frame data @ rest"
    and header: "dec_ZeroCopyDownloadHeader cr msg = Some h" "dh_sha256_hash h = sha2_hex cr data"
    and len: "length msg < 2 ^ 31" "length msg \<le> grant" "length data < 2 ^ 63" "length data \<le> grant"
    and w: "client_write_file (tc_file_ops c) p data (local_disk c) = (Inr (), fs)"
    and sha: "client_sha256 cr (tc_file_ops c) p fs = Inr (sha2_hex cr data)"
  shows "download_file cr grant p c = (Inr (sha2_hex cr data), c\<lparr>local_disk := fs,
    tc_stream := Some (st\<lparr>incoming := rest, outgoing := outgoing st @ encode_frame \<lparr>message_type = MSG_ZERO_COPY_DOWNLOAD_REQUEST,
       payload = enc_ZeroCopyDownloadRequest cr \<lparr>dr_relative_path = p, dr_offset = 0\<rparr>\<rparr>\<rparr>)\<rparr>)"
proof -
  let ?ops = "tc_file_ops c"
  let ?req = "\<lparr>message_type = MSG_ZERO_COPY_DOWNLOAD_REQUEST, payload = enc_ZeroCopyDownloadRequest cr \<lparr>dr_relative_path = p, dr_offset = 0\<rparr>\<rparr>"
  define st1 where "st1 = st\<lparr>outgoing := outgoing st @ encode_frame ?req\<rparr>"
  define c1 where "c1 = c\<lparr>tc_stream := Some st1\<rparr>"
  define c2 where "c2 = c\<lparr>tc_stream := Some (st1\<lparr>incoming := raw_frame data @ rest\<rparr>)\<rparr>"
  define c3 where "c3 = c\<lparr>tc_stream := Some (st1\<lparr>incoming := rest\<rparr>)\<rparr>"
  have "on_stream (client_write_frame MSG_ZERO_COPY_DOWNLOAD_REQUEST (enc_ZeroCopyDownloadRequest cr \<lparr>dr_relative_path = p, dr_offset = 0\<rparr>)) c =
      (Inr (), c1)"
    using on_stream_write [OF st] by (simp add: c1_def st1_def)
  moreover have "on_stream (read_expected grant MSG_ZERO_COPY_DOWNLOAD_HEADER) c1 =
      (Inr \<lparr>message_type = MSG_ZERO_COPY_DOWNLOAD_HEADER, payload = msg\<rparr>, c2)"
    using on_stream_expected [of c1 st1 "\<lparr>message_type = MSG_ZERO_COPY_DOWNLOAD_HEADER, payload = msg\<rparr>" "raw_frame data @ rest"] answer len
    by (simp add: c1_def c2_def st1_def)
  moreover have "on_stream (client_read_frame grant) c2 = (Inr \<lparr>message_type = MSG_RAW_DATA, payload = data\<rparr>, c3)"
    using on_stream_raw [of c2 "st1\<lparr>incoming := raw_frame data @ rest\<rparr>" data rest grant] len by (simp add: c2_def c3_def)
  moreover have "on_disk (client_write_file ?ops p data) c3 = (Inr (), c3\<lparr>local_disk := fs\<rparr>)"
    using on_disk_ok [of "client_write_file ?ops p data" c3] w by (simp add: c3_def)
  moreover have "tc_file_ops c3 = ?ops" by (simp add: c3_def)
  ultimately have "download_file cr grant p c = (Inr (sha2_hex cr data), c3\<lparr>local_disk := fs\<rparr>)"
    using st(1) header sha by (simp add: download_file_def client_step MSG_RAW_DATA_def)
  then show ?thesis by (simp add: c3_def st1_def)
qed

text \<open>What the client writes when it uploads a file: the request, and the contents in one raw-data frame.\<close>

definition upload_bytes :: "crates \<Rightarrow> LocalFileInfo \<Rightarrow> byte list \<Rightarrow> byte list" where
  "upload_bytes cr info content =
     encode_frame \<lparr>message_type = MSG_ZERO_COPY_UPLOAD_REQUEST, payload = enc_ZeroCopyUploadRequest cr (upload_request info)\<rparr> @
     raw_frame content"

lemma client_file_info:
  assumes "plain_path p" "CHR 0x00 \<notin> set (sync_root ops)"
    and "file_at fs (target_key (sync_root ops) fs p) = Some content" "no_read fs = []"
    and "client_get_file_info cr ops p fs = Inr info"
  shows "li_relative_path info = p" "li_file_size info = word_of_nat (length content)" "li_sha256_hash info = sha2_hex cr content"
  using assms(5) client_reads(1,2) [OF assms(1-4)] by (auto simp: client_get_file_info_def split: sum.splits)

lemma client_upload_ok:
  assumes st: "tc_stream c = Some st" "takes st = None"
    and answer: "incoming st = encode_frame \<lparr>message_type = MSG_ZERO_COPY_UPLOAD_ACK, payload = msg\<rparr> @ rest"
    and ack: "dec_ZeroCopyUploadAck cr msg = Some a" "ua_status a = STATUS_OK"
    and len: "length msg < 2 ^ 31" "length msg \<le> grant"
    and p: "plain_path p" "CHR 0x00 \<notin> set (sync_root (tc_file_ops c))"
    and f: "file_at (local_disk c) (target_key (sync_root (tc_file_ops c)) (local_disk c) p) = Some content" "no_read (local_disk c) = []"
    and info: "client_get_file_info cr (tc_file_ops c) p (local_disk c) = Inr info"
  shows "upload_file cr grant p c = (Inr (sha2_hex cr content),
    c\<lparr>tc_stream := Some (st\<lparr>incoming := rest, outgoing := outgoing st @ upload_bytes cr info content\<rparr>)\<rparr>)"
proof -
  let ?req = "\<lparr>message_type = MSG_ZERO_COPY_UPLOAD_REQUEST, payload = enc_ZeroCopyUploadRequest cr (upload_request info)\<rparr>"
  define st1 where "st1 = st\<lparr>outgoing := outgoing st @ encode_frame ?req\<rparr>"
  define st2 where "st2 = st1\<lparr>incoming := rest\<rparr>"
  define c1 where "c1 = c\<lparr>tc_stream := Some st1\<rparr>"
  define c2 where "c2 = c\<lparr>tc_stream := Some st2\<rparr>"
  obtain tm where "rs_open (local_disk c) (client_resolve_path (tc_file_ops c) p) = Some (File content tm)"
    by (rule client_open_file [OF p f])
  then have rd: "rs_read (local_disk c2) (client_resolve_path (tc_file_ops c2) p) = Inr content" by (simp add: rs_read_def c2_def)
  have "on_stream (client_write_frame MSG_ZERO_COPY_UPLOAD_REQUEST (enc_ZeroCopyUploadRequest cr (upload_request info))) c = (Inr (), c1)"
    using on_stream_write [OF st] by (simp add: c1_def st1_def)
  moreover have "on_stream (client_read_frame grant) c1 = (Inr \<lparr>message_type = MSG_ZERO_COPY_UPLOAD_ACK, payload = msg\<rparr>, c2)"
    using on_stream_read [of c1 st1 "\<lparr>message_type = MSG_ZERO_COPY_UPLOAD_ACK, payload = msg\<rparr>" rest] answer len
    by (simp add: c1_def c2_def st1_def st2_def)
  moreover have "on_stream (write_raw_data content) c2 =
      (Inr (), c\<lparr>tc_stream := Some (st2\<lparr>outgoing := outgoing st2 @ raw_frame content\<rparr>)\<rparr>)"
    using on_stream_ok [of c2 st2 "write_raw_data content"] client_write_unbroken(2) [of st2 content] st(2)
    by (simp add: c2_def st2_def st1_def raw_frame_def)
  ultimately show ?thesis
    using st(1) ack info rd client_file_info(3) [OF p f info]
    by (simp add: upload_file_def client_step st2_def st1_def upload_bytes_def)
qed

text \<open>A negotiation.\<close>

lemma client_negotiate_ok:
  assumes st: "tc_stream c = Some st" "takes st = None"
    and answer: "incoming st = encode_frame \<lparr>message_type = MSG_NEGOTIATION_RESPONSE, payload = msg\<rparr> @ rest"
    and resp: "dec_NegotiationResponse cr msg = Some r" and len: "length msg < 2 ^ 31" "length msg \<le> grant"
  shows "client_negotiate cr grant p c =
    (Inr \<lparr>cn_file_mode = np_file_mode r, cn_transfer_mode = np_transfer_mode r, cn_server_file_size = np_server_file_size r,
       cn_server_sha256 = np_server_sha256_hash r, cn_block_size = np_block_size r\<rparr>,
     c\<lparr>tc_stream := Some (st\<lparr>incoming := rest, outgoing := outgoing st @ encode_frame \<lparr>message_type = MSG_NEGOTIATION_REQUEST,
       payload = enc_NegotiationRequest cr (negotiation_request cr p c)\<rparr>\<rparr>)\<rparr>)"
proof -
  let ?req = "\<lparr>message_type = MSG_NEGOTIATION_REQUEST, payload = enc_NegotiationRequest cr (negotiation_request cr p c)\<rparr>"
  define st1 where "st1 = st\<lparr>outgoing := outgoing st @ encode_frame ?req\<rparr>"
  define c1 where "c1 = c\<lparr>tc_stream := Some st1\<rparr>"
  have "on_stream (client_write_frame MSG_NEGOTIATION_REQUEST (enc_NegotiationRequest cr (negotiation_request cr p c))) c = (Inr (), c1)"
    using on_stream_write [OF st] by (simp add: c1_def st1_def)
  moreover have "on_stream (read_expected grant MSG_NEGOTIATION_RESPONSE) c1 =
      (Inr \<lparr>message_type = MSG_NEGOTIATION_RESPONSE, payload = msg\<rparr>, c1\<lparr>tc_stream := Some (st1\<lparr>incoming := rest\<rparr>)\<rparr>)"
    using on_stream_expected [of c1 st1 "\<lparr>message_type = MSG_NEGOTIATION_RESPONSE, payload = msg\<rparr>" rest] answer len
    by (simp add: c1_def st1_def)
  ultimately show ?thesis using st(1) resp by (simp add: client_negotiate_def client_step c1_def st1_def)
qed

text \<open>A block transfer: the signature request, and one frame for each requested block of the file.\<close>

definition signature_message :: "u32 \<Rightarrow> u32 \<Rightarrow> string \<Rightarrow> byte list \<Rightarrow> DeltaSyncSignatureRequest" where
  "signature_message conn_bs bs p content =
     build_signature_request p (word_of_nat (length content)) conn_bs (file_signatures bs content)"

definition block_messages :: "u32 \<Rightarrow> string \<Rightarrow> byte list \<Rightarrow> u32 list \<Rightarrow> DeltaSyncBlockData list" where
  "block_messages bs p content indices =
     map (requested_block bs p content) (filter (\<lambda>i. unat i < block_count (unat bs) (length content)) indices)"

definition block_frame :: "crates \<Rightarrow> DeltaSyncBlockData \<Rightarrow> WireFrame" where
  "block_frame cr b = \<lparr>message_type = MSG_DELTA_SYNC_BLOCK_DATA, payload = enc_DeltaSyncBlockData cr b\<rparr>"

lemma send_blocks_unbroken:
  "takes st = None \<Longrightarrow> send_blocks cr blocks st =
     (Inr (), st\<lparr>outgoing := outgoing st @ concat (map (encode_frame \<circ> block_frame cr) blocks)\<rparr>)"
  by (induction blocks arbitrary: st) (simp_all add: and_then_def client_write_unbroken block_frame_def)

lemma client_delta_ok:
  assumes st: "tc_stream c = Some st" "takes st = None"
    and ok: "block_readable grant (delta_engine c) (local_disk c) p content"
    and same: "sync_root (tc_file_ops c) = sync_root (delta_engine c)" and sha: "\<And>d. sha2_hex cr d = sha256_hex d"
    and answers: "incoming st = encode_frame \<lparr>message_type = MSG_DELTA_SYNC_BLOCK_REQUEST, payload = m1\<rparr> @
      encode_frame \<lparr>message_type = MSG_DELTA_SYNC_COMPLETE, payload = m2\<rparr> @ rest"
    and dec: "dec_DeltaSyncBlockRequest cr m1 = Some req" "dec_DeltaSyncComplete cr m2 = Some compl" "dc_status compl = STATUS_OK"
    and len: "length m1 < 2 ^ 31" "length m1 \<le> grant" "length m2 < 2 ^ 31" "length m2 \<le> grant"
  defines "bs \<equiv> fo_block_size (delta_engine c)"
  shows "delta_sync_upload cr grant p c = (Inr (dc_final_sha256_hash compl),
    c\<lparr>tc_stream := Some (st\<lparr>incoming := rest, outgoing := outgoing st @
      encode_frame \<lparr>message_type = MSG_DELTA_SYNC_SIGNATURE_REQUEST,
        payload = enc_DeltaSyncSignatureRequest cr (signature_message (tc_block_size c) bs p content)\<rparr> @
      concat (map (encode_frame \<circ> block_frame cr) (block_messages bs p content (br_requested_block_indices req)))\<rparr>)\<rparr>)"
proof -
  let ?e = "delta_engine c" and ?sm = "signature_message (tc_block_size c) bs p content"
  let ?blocks = "block_messages bs p content (br_requested_block_indices req)"
  have sigs: "compute_signatures grant cr ?e p (local_disk c) = Inr (file_signatures bs content)"
    using compute_signatures_ok [OF ok sha] by (simp add: bs_def)
  have sz: "client_file_size cr (tc_file_ops c) p (local_disk c) = Inr (word_of_nat (length content))"
    using client_reads(1) [of p "tc_file_ops c" "local_disk c" content cr] ok same by (simp add: block_readable_def)
  define st1 where "st1 = st\<lparr>outgoing := outgoing st @ encode_frame \<lparr>message_type = MSG_DELTA_SYNC_SIGNATURE_REQUEST,
      payload = enc_DeltaSyncSignatureRequest cr ?sm\<rparr>\<rparr>"
  let ?f2 = "\<lparr>message_type = MSG_DELTA_SYNC_COMPLETE, payload = m2\<rparr>"
  define st2 where "st2 = st1\<lparr>incoming := encode_frame ?f2 @ rest\<rparr>"
  define st3 where "st3 = st2\<lparr>outgoing := outgoing st2 @ concat (map (encode_frame \<circ> block_frame cr) ?blocks)\<rparr>"
  let ?c = "\<lambda>st. c\<lparr>tc_stream := Some st\<rparr>"
  have "on_stream (client_write_frame MSG_DELTA_SYNC_SIGNATURE_REQUEST (enc_DeltaSyncSignatureRequest cr ?sm)) c = (Inr (), ?c st1)"
    using on_stream_write [OF st] by (simp add: st1_def)
  moreover have "on_stream (client_read_frame grant) (?c st1) =
      (Inr \<lparr>message_type = MSG_DELTA_SYNC_BLOCK_REQUEST, payload = m1\<rparr>, ?c st2)"
    using on_stream_read [of "?c st1" st1 "\<lparr>message_type = MSG_DELTA_SYNC_BLOCK_REQUEST, payload = m1\<rparr>"] answers len
    by (simp add: st1_def st2_def)
  moreover have "read_requested_blocks grant cr ?e p (br_requested_block_indices req) (local_disk c) = Inr ?blocks"
    using read_requested_blocks_ok [OF ok sha] by (simp add: block_messages_def bs_def)
  moreover have "on_stream (send_blocks cr ?blocks) (?c st2) = (Inr (), ?c st3)"
    using on_stream_ok [of "?c st2" st2 "send_blocks cr ?blocks"] send_blocks_unbroken [of st2 cr ?blocks] st(2)
    by (simp add: st1_def st2_def st3_def)
  moreover have "on_stream (client_read_frame grant) (?c st3) = (Inr ?f2, ?c (st3\<lparr>incoming := rest\<rparr>))"
    using on_stream_read [of "?c st3" st3 ?f2 rest] len by (simp add: st3_def st2_def)
  ultimately show ?thesis
    using st(1) sigs sz dec by (simp add: delta_sync_upload_def client_step signature_message_def [symmetric] st3_def st2_def st1_def)
qed

end
