(* ===== verification/Session_Output.thy ===== *)
theory Session_Output
  imports Session_Storage
begin

text \<open>
  What a session writes to its socket.  Over a connection whose only disturbances are short writes and
  interrupted calls, everything that leaves the server is a sequence of complete items: frames of the
  server's own message types, and raw-data headers followed by exactly the announced bytes.  The
  exception is a file that exists but cannot be opened for reading: its raw data is announced and then
  an error frame takes its place.
\<close>

section \<open>Items of the output\<close>

datatype sent_item = Sent_frame WireFrame | Sent_raw "byte list"

primrec item_bytes :: "sent_item \<Rightarrow> byte list" where
  "item_bytes (Sent_frame f) = encode_frame f"
| "item_bytes (Sent_raw d) = raw_frame d"

text \<open>The frame a peer reads for an item.\<close>

primrec item_frame :: "sent_item \<Rightarrow> WireFrame" where
  "item_frame (Sent_frame f) = f"
| "item_frame (Sent_raw d) = \<lparr>message_type = MSG_RAW_DATA, payload = d\<rparr>"

definition server_messages :: "byte list" where
  "server_messages = [MSG_SERVER_HELLO, MSG_NEGOTIATION_RESPONSE, MSG_ZERO_COPY_DOWNLOAD_HEADER, MSG_ZERO_COPY_UPLOAD_ACK,
     MSG_DELTA_SYNC_BLOCK_REQUEST, MSG_DELTA_SYNC_COMPLETE, MSG_LIST_FILES_RESPONSE, MSG_ERROR, MSG_PROGRESS]"

text \<open>Messages of at most \<open>b\<close> bytes, raw data of at most \<open>m\<close>.\<close>

primrec item_ok :: "nat \<Rightarrow> nat \<Rightarrow> sent_item \<Rightarrow> bool" where
  "item_ok b m (Sent_frame f) \<longleftrightarrow> message_type f \<in> set server_messages \<and> length (payload f) \<le> b"
| "item_ok b m (Sent_raw d) \<longleftrightarrow> length d \<le> m"

definition emits :: "nat \<Rightarrow> nat \<Rightarrow> socket \<Rightarrow> socket \<Rightarrow> bool" where
  "emits b m fd fd' \<longleftrightarrow> (tx_ok (tx_plan fd) \<longrightarrow> tx_ok (tx_plan fd') \<and>
     (\<exists>items. list_all (item_ok b m) items \<and> tx fd' = tx fd @ concat (map item_bytes items)))"

lemma emits_nothing: "tx fd' = tx fd \<Longrightarrow> tx_plan fd' = tx_plan fd \<Longrightarrow> emits b m fd fd'"
  unfolding emits_def by (intro impI conjI exI [of _ "[]"]) simp_all

lemma emits_refl [simp]: "emits b m fd fd"
  by (simp add: emits_nothing)

lemma emits_trans: "emits b m fd fd' \<Longrightarrow> emits b m fd' fd'' \<Longrightarrow> emits b m fd fd''"
  unfolding emits_def
proof
  assume 1: "tx_ok (tx_plan fd) \<longrightarrow> tx_ok (tx_plan fd') \<and>
      (\<exists>items. list_all (item_ok b m) items \<and> tx fd' = tx fd @ concat (map item_bytes items))"
    and 2: "tx_ok (tx_plan fd') \<longrightarrow> tx_ok (tx_plan fd'') \<and>
      (\<exists>items. list_all (item_ok b m) items \<and> tx fd'' = tx fd' @ concat (map item_bytes items))"
    and ok: "tx_ok (tx_plan fd)"
  from 1 ok obtain is1 where i1: "list_all (item_ok b m) is1" "tx fd' = tx fd @ concat (map item_bytes is1)" by blast
  from 1 2 ok obtain is2 where i2: "list_all (item_ok b m) is2" "tx fd'' = tx fd' @ concat (map item_bytes is2)" by blast
  have "list_all (item_ok b m) (is1 @ is2) \<and> tx fd'' = tx fd @ concat (map item_bytes (is1 @ is2))" using i1 i2 by simp
  with 1 2 ok show "tx_ok (tx_plan fd'') \<and>
      (\<exists>items. list_all (item_ok b m) items \<and> tx fd'' = tx fd @ concat (map item_bytes items))" by blast
qed

lemma emits_item: "tx_ok (tx_plan fd') \<Longrightarrow> item_ok b m i \<Longrightarrow> tx fd' = tx fd @ item_bytes i \<Longrightarrow> emits b m fd fd'"
  unfolding emits_def by (intro impI conjI exI [of _ "[i]"]) simp_all

text \<open>A peer that gets the bytes of some items reads exactly their frames.\<close>

lemma read_items:
  assumes "rx_bytes (rx c) = concat (map item_bytes items)" and "list_all (item_ok b m) items"
    and "b < 2 ^ 32 - 1" "m < 2 ^ 32" "b \<le> grant" "m \<le> grant"
  shows "read_frames grant (length items) c = Some (map item_frame items)"
  using assms(1,2)
proof (induction items arbitrary: c)
  case (Cons i items)
  have "\<exists>c'. read_frame grant c = (Inr (Some (item_frame i)), c') \<and> rx_bytes (rx c') = concat (map item_bytes items)"
  proof (cases i)
    case (Sent_frame f)
    then show ?thesis using read_frame_standard [of c f "concat (map item_bytes items)" grant] Cons.prems assms(3,5) by auto
  next
    case (Sent_raw d)
    then have d: "length d < 2 ^ 32" "length d \<le> grant" using Cons.prems assms(4,6) by simp_all
    then have "unat (word_of_nat (length d) :: u64) = length d" by (simp add: unat_of_nat)
    then show ?thesis
      using Sent_raw d read_frame_raw [of c "word_of_nat (length d)" d "concat (map item_bytes items)" grant] Cons.prems(1)
      by (auto simp: raw_frame_def)
  qed
  with Cons show ?case by auto
qed simp

section \<open>Every handler sends whole items\<close>

text \<open>The serialised messages have at most \<open>b\<close> bytes.\<close>

definition codec_small :: "nat \<Rightarrow> codec \<Rightarrow> bool" where
  "codec_small b cd \<longleftrightarrow>
     (\<forall>x. length (ser_ServerHello cd x) \<le> b) \<and> (\<forall>x. length (ser_NegotiationResponse cd x) \<le> b) \<and>
     (\<forall>x. length (ser_ZeroCopyDownloadHeader cd x) \<le> b) \<and> (\<forall>x. length (ser_ZeroCopyUploadAck cd x) \<le> b) \<and>
     (\<forall>x. length (ser_DeltaSyncBlockRequest cd x) \<le> b) \<and> (\<forall>x. length (ser_DeltaSyncComplete cd x) \<le> b) \<and>
     (\<forall>x. length (ser_ListFilesResponse cd x) \<le> b) \<and> (\<forall>x. length (ser_ErrorPayload cd x) \<le> b) \<and>
     (\<forall>x. length (ser_ProgressUpdate cd x) \<le> b) \<and> b < 2 ^ 32 - FRAME_HEADER_SIZE"

lemma emits_send:
  assumes "ty \<in> set server_messages" and "length x \<le> b" and "b < 2 ^ 32 - FRAME_HEADER_SIZE"
  shows "emits b m (client_fd s) (client_fd (send_message ty x s))"
proof (cases "tx_ok (tx_plan (client_fd s))")
  case True
  then obtain fd where "send_message ty x s = s\<lparr>client_fd := fd\<rparr>" "tx_ok (tx_plan fd)"
    "tx fd = tx (client_fd s) @ encode_frame \<lparr>message_type = ty, payload = x\<rparr>"
    using send_message_ok [OF True, of x ty] assms(2,3) by auto
  then show ?thesis using emits_item [of fd b m "Sent_frame \<lparr>message_type = ty, payload = x\<rparr>" "client_fd s"] assms(1,2) by simp
qed (simp add: emits_def)

lemma emits_messages:
  assumes "codec_small b cd"
  shows "emits b m (client_fd s) (client_fd (send_error cd code text s))"
    "emits b m (client_fd s) (client_fd (send_progress cd path n1 n2 rate ms s))"
    "emits b m (client_fd s) (client_fd (send_message MSG_SERVER_HELLO (ser_ServerHello cd x1) s))"
    "emits b m (client_fd s) (client_fd (send_message MSG_NEGOTIATION_RESPONSE (ser_NegotiationResponse cd x2) s))"
    "emits b m (client_fd s) (client_fd (send_message MSG_ZERO_COPY_UPLOAD_ACK (ser_ZeroCopyUploadAck cd x3) s))"
    "emits b m (client_fd s) (client_fd (send_message MSG_DELTA_SYNC_BLOCK_REQUEST (ser_DeltaSyncBlockRequest cd x4) s))"
    "emits b m (client_fd s) (client_fd (send_message MSG_DELTA_SYNC_COMPLETE (ser_DeltaSyncComplete cd x5) s))"
    "emits b m (client_fd s) (client_fd (send_message MSG_LIST_FILES_RESPONSE (ser_ListFilesResponse cd x6) s))"
  using assms by (auto simp: codec_small_def send_error_def send_progress_def server_messages_def intro!: emits_send)

lemma emits_progress:
  assumes "codec_small b cd"
  shows "emits b m (client_fd s) (client_fd (report_progress cd start s))"
  using emits_messages(2) [OF assms, of m "snd (clock_now s)"]
  by (simp add: report_progress_def Let_def split_beta)

lemma emits_upload:
  assumes cd: "codec_small b cd" and "upload_loop cd grant start s = (r, s')"
  shows "emits b m (client_fd s) (client_fd s')"
proof (rule upload_loop_relates [OF assms(2)])
  show "emits b m (client_fd s) (client_fd (s\<lparr>client_fd := fd\<rparr>))" if "read_frame grant (client_fd s) = (a, fd)" for s a fd
    using read_frame_tx [OF that] by (simp add: emits_nothing)
qed (use emits_trans emits_progress [OF cd] emits_messages(1) [OF cd] in auto)

lemma emits_save:
  assumes "codec_small b cd" and "save_upload cd s = (r, s')"
  shows "emits b m (client_fd s) (client_fd s')"
  using assms(2)
proof (cases rule: save_upload_disk)
  case (staged ok fs1)
  then show ?thesis using emits_messages(1) [OF assms(1), of m "s\<lparr>disk := fs1\<rparr>"] by auto
qed simp_all

lemma emits_upload_request:
  assumes "codec_small b cd" and "handle_zero_copy_upload_request cd grant msg s = (r, s')"
  shows "emits b m (client_fd s) (client_fd s')"
proof (cases "parse_ZeroCopyUploadRequest cd msg (int_size msg)")
  case None
  then show ?thesis using assms emits_messages(1) by (auto simp: handle_zero_copy_upload_request_def)
next
  case (Some req)
  let ?u = "(upload_state s)\<lparr>up_relative_path := md_relative_path (ur_metadata req),
     up_total_size := md_file_size (ur_metadata req), up_received := 0,
     up_expected_sha256 := md_sha256_hash (ur_metadata req), up_buffer := []\<rparr>"
  show ?thesis
  proof (cases "reserve_buffer grant (unat (md_file_size (ur_metadata req))) ?u")
    case (Inl e)
    then show ?thesis using Some assms(2) by (auto simp: handle_zero_copy_upload_request_def Let_def)
  next
    case (Inr u1)
    let ?s1 = "s\<lparr>upload_state := u1, sess_state := TRANSFERRING\<rparr>"
    let ?s2 = "send_message MSG_ZERO_COPY_UPLOAD_ACK (ser_ZeroCopyUploadAck cd
        \<lparr>ua_status = STATUS_OK, ua_error_message = [], ua_offset = 0\<rparr>) ?s1"
    obtain start s3 where c: "clock_now ?s2 = (start, s3)" by fastforce
    obtain r4 s4 where up: "upload_loop cd grant start s3 = (r4, s4)" by fastforce
    obtain r5 s5 where sv: "save_upload cd s4 = (r5, s5)" by fastforce
    have "client_fd s3 = client_fd ?s2" using clock_now_simps [of ?s2] c by simp
    moreover have "emits b m (client_fd s) (client_fd ?s2)" using emits_messages(5) [OF assms(1), of m ?s1] by simp
    ultimately have s4: "emits b m (client_fd s) (client_fd s4)"
      using emits_upload [OF assms(1) up, of m] emits_trans by metis
    have "client_fd s' = client_fd s4 \<or> client_fd s' = client_fd s5"
      using Some Inr c up sv assms(2) by (auto simp: handle_zero_copy_upload_request_def Let_def split: sum.splits)
    then show ?thesis using s4 emits_trans [OF s4 emits_save [OF assms(1) sv]] by auto
  qed
qed

lemma emits_send_file:
  assumes cd: "codec_small b cd" and fs: "sound_storage m fs" "m < 2 ^ 63" "no_read fs = []"
    and sent: "send_file cd storage_root fs p offset s = Some (r, s')"
  shows "emits b m s s'"
proof (cases "tx_ok (tx_plan s)")
  case sock: True
  have bounded: "\<forall>k c. file_at fs k = Some c \<longrightarrow> length c \<le> m"
    using files_bounded_at [of fs] fs(1) by (auto simp: sound_storage_def)
  then have small: "\<forall>k c. file_at fs k = Some c \<longrightarrow> length c < 2 ^ 63" using fs(2) by fastforce
  have len: "length (ser_ZeroCopyDownloadHeader cd h) < 2 ^ 32 - FRAME_HEADER_SIZE" for h
    using cd by (auto simp: codec_small_def intro: le_less_trans)
  obtain a s1 where an: "send_file_announce cd storage_root fs p offset s = (a, s1)" by fastforce
  then show ?thesis using sock len
  proof (cases rule: send_file_announce_sends)
    case (yes full_path n h)
    let ?f = "\<lparr>message_type = MSG_ZERO_COPY_DOWNLOAD_HEADER, payload = ser_ZeroCopyDownloadHeader cd h\<rparr>"
    obtain k where "fs_file_size fs full_path = Inr k" by (rule send_file_announce_size [OF an [unfolded yes(1)]])
    then obtain c t where node: "os_node fs full_path = Some (File c t)"
      by (auto simp: fs_file_size_def split: option.splits node.splits)
    then have opened: "open_in fs full_path = Some (File c t)" using fs(3) by (simp add: open_in_def)
    note range = announced_range [OF an [unfolded yes(1)] opened small]
    have "file_at fs (os_key (cwd fs) full_path) = Some c"
      using node by (auto simp: os_node_def file_at_def split: if_splits option.splits node.splits)
    then have m: "length (drop (unat offset) c) \<le> m" using bounded by fastforce
    obtain s2 where s2: "send_file_linux c offset n s1 = Some (True, s2)" "tx_ok (tx_plan s2)"
      "tx s2 = tx s1 @ take (unat n) (drop (unat offset) c)"
      using send_file_linux_sends [OF yes(3), of offset n c] range(1,2) by auto
    have "unat n = length (drop (unat offset) c)" using range(1) by simp
    moreover have "word_of_nat (unat n) = n" by simp
    ultimately have n: "n = word_of_nat (length (drop (unat offset) c))" by metis
    have "take (unat n) (drop (unat offset) c) = drop (unat offset) c" using range(1) by simp
    moreover have "raw_frame (drop (unat offset) c) = encode_raw_data_header n @ drop (unat offset) c"
      by (simp only: raw_frame_def n [symmetric])
    ultimately have "tx s2 = tx s @ concat (map item_bytes [Sent_frame ?f, Sent_raw (drop (unat offset) c)])"
      using yes(4) s2(3) by simp
    moreover have "list_all (item_ok b m) [Sent_frame ?f, Sent_raw (drop (unat offset) c)]"
      using cd m by (simp add: codec_small_def server_messages_def)
    moreover have "s' = s2" using sent an yes(1) opened s2(1) by (simp add: send_file_def)
    ultimately show ?thesis using s2(2) unfolding emits_def by blast
  qed (use an sent in \<open>simp_all add: send_file_def\<close>)
qed (simp add: emits_def)

lemma emits_download_request:
  assumes cd: "codec_small b cd" and fs: "sound_storage m (disk s)" "m < 2 ^ 63" "no_read (disk s) = []"
    and h: "handle_zero_copy_download_request cd msg s = Some (r, s')"
  shows "emits b m (client_fd s) (client_fd s')"
proof (cases "parse_ZeroCopyDownloadRequest cd msg (int_size msg)")
  case None
  then show ?thesis using h emits_messages(1) [OF cd] by (auto simp: handle_zero_copy_download_request_def)
next
  case (Some req)
  obtain a fd where a: "send_file cd (file_root s) (disk s) (dr_relative_path req) (dr_offset req) (client_fd s) = Some (a, fd)"
    using h Some by (auto simp: handle_zero_copy_download_request_def Let_def split: option.splits)
  have fd: "emits b m (client_fd s) fd" by (rule emits_send_file [OF cd fs a])
  then show ?thesis
    using h Some a emits_trans [OF fd] emits_messages(1) [OF cd, of m "s\<lparr>sess_state := TRANSFERRING, client_fd := fd\<rparr>"]
    by (auto simp: handle_zero_copy_download_request_def Let_def split: sum.splits if_splits)
qed

lemma emits_dispatch:
  assumes cd: "codec_small b cd" and fs: "sound_storage m (disk s)" "m < 2 ^ 63" "no_read (disk s) = []"
    and d: "dispatch cd grant f s = Some (r, s')"
  shows "emits b m (client_fd s) (client_fd s')"
proof -
  note sent = emits_messages [OF cd, of m]
  have hello: "emits b m (client_fd s) (client_fd s')" if "handle_client_hello cd msg s = (r, s')" for msg
    using that sent(1) [of s] sent(3) [of "s\<lparr>client_id := i, protocol_version := v\<rparr>" for i v]
      sent(3) [of "s\<lparr>client_id := i, protocol_version := v, negotiated_block_size := n\<rparr>" for i v n]
    by (auto simp: handle_client_hello_def Let_def split: option.splits)
  have nego: "emits b m (client_fd s) (client_fd s')" if "handle_negotiation_request cd msg s = (r, s')" for msg
    using that sent(1) [of s] sent(4) [of "s\<lparr>sess_state := NEGOTIATING\<rparr>"]
    by (auto simp: handle_negotiation_request_def Let_def split: option.splits sum.splits)
  have sigs: "emits b m (client_fd s) (client_fd s')" if "handle_delta_sync_signature_request cd grant msg s = (r, s')" for msg
    using that sent(1) [of s] sent(6) [of "s\<lparr>sess_state := NEGOTIATING, file_mutex := l\<rparr>" for l]
    by (auto simp: handle_delta_sync_signature_request_def Let_def split: option.splits sum.splits prod.splits)
  have blocks: "emits b m (client_fd s) (client_fd s')" if "handle_delta_sync_block_data cd msg s = (r, s')" for msg
    using that sent(1) [of s] sent(7) [of "s\<lparr>sess_state := TRANSFERRING, disk := fs, file_mutex := l, delta_sync_handler := h\<rparr>" for fs l h]
    by (auto simp: handle_delta_sync_block_data_def block_completion_def Let_def split: option.splits sum.splits prod.splits if_splits)
  have listing: "emits b m (client_fd s) (client_fd s')" if "handle_list_files_request cd msg s = (r, s')" for msg
    using that sent(1) [of s] sent(8) [of s]
    by (auto simp: handle_list_files_request_def Let_def split: option.splits sum.splits)
  show ?thesis
    using d hello nego sigs blocks listing emits_upload_request [OF cd] emits_download_request [OF cd fs] sent(1) [of s]
    by (auto simp: dispatch_def Let_def split: if_splits)
qed

section \<open>Claims about the output\<close>

text \<open>Reads, messages and the end of the session only append items.\<close>

lemma run_emits:
  assumes cd: "codec_small b cd" and inv: "session_inv s" and run: "run cd grant s = Some (r, s')"
    and readable: "no_read (disk s) = []"
  shows "emits b (max_file (disk s)) (client_fd s) (client_fd s')"
proof -
  let ?R = "\<lambda>s s'. no_read (disk s) = [] \<longrightarrow> no_read (disk s') = [] \<and> max_file (disk s') = max_file (disk s) \<and>
    emits b (max_file (disk s)) (client_fd s) (client_fd s')"
  have "?R s s'"
  proof (rule run_relates [OF inv run])
    fix s :: Session and f r s'
    assume inv: "session_inv s" and d: "dispatch cd grant f s = Some (r, s')"
    then have fs: "sound_storage (max_file (disk s)) (disk s)" "max_file (disk s) < 2 ^ 63" "storage_wf (disk s)"
      "ds_storage_root (delta_sync_handler s) = file_root s" by (simp_all add: session_inv_def sound_storage_def)
    have "no_read (disk s') = no_read (disk s) \<and> max_file (disk s') = max_file (disk s)"
      using dispatch_evolves [OF d fs(3,4)] by (simp add: evolves_def split: option.splits)
    then show "?R s s'" using emits_dispatch [OF cd fs(1,2) _ d] by simp
  next
    fix s :: Session and a fd
    assume "read_frame grant (client_fd s) = (a, fd)"
    then show "?R s (s\<lparr>client_fd := fd\<rparr>)" using read_frame_tx by (simp add: emits_nothing)
  next
    fix s t u :: Session
    assume "?R s t" "?R t u"
    then show "?R s u" by (auto intro: emits_trans)
  qed simp_all
  with readable show ?thesis by simp
qed

text \<open>
  C5. The output of a session is well formed as long as nothing fails underneath: when every stored file can be
  read, the socket takes what is sent (with short and interrupted writes, but without errors) and the encoded
  messages fit into frames, then, whatever the client sends and however the session ends, by disconnection, by an
  exception or waiting for a silent client, everything sent is a sequence of complete items, each a frame of one
  of the server's message types or a raw-data header followed by exactly the announced bytes; and a client with
  enough memory reads exactly these frames (raw data of up to 4 GiB).
\<close>

theorem session_output_decodable:
  assumes inv: "session_inv s" and cd: "codec_small b cd" and readable: "no_read (disk s) = []"
    and sock: "tx_ok (tx_plan (client_fd s))" "tx (client_fd s) = []"
  shows "\<exists>r s' items. run cd grant s = Some (r, s') \<and> tx (client_fd s') = concat (map item_bytes items) \<and>
    list_all (item_ok b (max_file (disk s))) items \<and>
    (\<forall>client memory. rx_bytes (rx client) = tx (client_fd s') \<and> b \<le> memory \<and> max_file (disk s) \<le> memory \<and>
       max_file (disk s) < 2 ^ 32 \<longrightarrow> read_frames memory (length items) client = Some (map item_frame items))"
proof -
  obtain r s' where run: "run cd grant s = Some (r, s')" using run_returns [OF inv] by blast
  obtain items where items: "list_all (item_ok b (max_file (disk s))) items" "tx (client_fd s') = concat (map item_bytes items)"
    using run_emits [OF cd inv run readable] sock by (auto simp: emits_def)
  have "b < 2 ^ 32 - 1" using cd by (simp add: codec_small_def FRAME_HEADER_SIZE_def)
  with run items read_items [OF _ items(1)] show ?thesis by (intro exI [of _ r] exI [of _ s'] exI [of _ items]) auto
qed

lemma demo_codec_small: "codec_small 1 demo_codec"
  by (simp add: codec_small_def demo_codec_def FRAME_HEADER_SIZE_def)

theorem session_output_decodable_witness:
  "\<exists>r s' items. run demo_codec 64 (demo_session [Recv_data [0, 0, 0, 0, 99]]) = Some (r, s') \<and>
     tx (client_fd s') = concat (map item_bytes items) \<and> list_all (item_ok 1 (max_file demo_storage)) items"
proof -
  have "no_read demo_storage = []" by code_simp
  then show ?thesis
    using session_output_decodable [OF session_loop.start_invariant [OF demo_session_start] demo_codec_small] by fastforce
qed

text \<open>
  A file that is there but cannot be opened for reading: the header (with an empty digest) and the
  raw-data header have been sent when the open fails, and the error frame follows.
\<close>

lemma unreadable_download:
  assumes req: "parse_ZeroCopyDownloadRequest cd msg (int_size msg) = Some \<lparr>dr_relative_path = p, dr_offset = offset\<rparr>"
    and p: "plain_path p" "CHR 0x00 \<notin> set (file_root s)"
    and f: "node_at (disk s) (target_key (file_root s) (disk s) p) = Some (File c t)" "length c < 2 ^ 63"
      "target_key (file_root s) (disk s) p \<in> set (no_read (disk s))" "unat offset < length c"
    and sock: "tx_ok (tx_plan (client_fd s))"
    and len: "\<And>h. length (ser_ZeroCopyDownloadHeader cd h) < 2 ^ 32 - FRAME_HEADER_SIZE"
      "\<And>e. length (ser_ErrorPayload cd e) < 2 ^ 32 - FRAME_HEADER_SIZE"
  obtains s' header e where "handle_zero_copy_download_request cd msg s = Some (Inr (), s')" "sess_state s' = READY"
    "header = \<lparr>message_type = MSG_ZERO_COPY_DOWNLOAD_HEADER, payload = ser_ZeroCopyDownloadHeader cd
      \<lparr>dh_relative_path = p, dh_total_size = word_of_nat (length c), dh_sha256_hash = [], dh_offset = offset\<rparr>\<rparr>"
    "tx (client_fd s') = tx (client_fd s) @ encode_frame header @ encode_raw_data_header (word_of_nat (length c) - offset) @
      encode_frame \<lparr>message_type = MSG_ERROR, payload = ser_ErrorPayload cd e\<rparr>" "er_code e = FILE_NOT_FOUND"
proof -
  let ?n = "word_of_nat (length c) - offset :: u64"
  let ?header = "\<lparr>message_type = MSG_ZERO_COPY_DOWNLOAD_HEADER, payload = ser_ZeroCopyDownloadHeader cd
    \<lparr>dh_relative_path = p, dh_total_size = word_of_nat (length c), dh_sha256_hash = [], dh_offset = offset\<rparr>\<rparr>"
  have node: "os_node (disk s) (path_append (file_root s) p) = Some (File c t)" using f(1) os_node_target [OF p] by simp
  have closed: "open_in (disk s) (path_append (file_root s) p) = None"
    using node f(3) by (simp add: open_in_def target_key_def lexically_normal_plain [OF p(1)])
  then have sha: "compute_sha256 (file_root s) (disk s) p = Inr []" by (simp add: compute_sha256_def resolve_plain [OF p(1)])
  have hlen: "length (payload ?header) < 2 ^ 32 - FRAME_HEADER_SIZE" using len(1) by simp
  obtain fd where fd: "send_file_announce cd (file_root s) (disk s) p offset (client_fd s) = (Inr (Some (path_append (file_root s) p, ?n)), fd)"
    "tx_ok (tx_plan fd)" "tx fd = tx (client_fd s) @ encode_frame ?header @ encode_raw_data_header ?n"
    by (rule send_file_announce_known [OF p(1) node sha f(4,2) sock refl hlen])
  define m where "m = ''File not found or transfer failed: '' @ p"
  let ?s2 = "s\<lparr>sess_state := TRANSFERRING, client_fd := fd\<rparr>"
  have ok2: "tx_ok (tx_plan (client_fd ?s2))" using fd(2) by simp
  obtain fd' where fd': "send_error cd FILE_NOT_FOUND m ?s2 = ?s2\<lparr>client_fd := fd'\<rparr>"
    "tx fd' = tx (client_fd ?s2) @ encode_frame \<lparr>message_type = MSG_ERROR,
      payload = ser_ErrorPayload cd \<lparr>er_code = FILE_NOT_FOUND, er_message = m, er_detail = []\<rparr>\<rparr>"
    by (rule send_error_ok [OF ok2 len(2)])
  have "handle_zero_copy_download_request cd msg s = Some (Inr (), ?s2\<lparr>client_fd := fd', sess_state := READY\<rparr>)"
    using req fd(1) fd'(1) closed
    by (simp add: handle_zero_copy_download_request_def send_file_def Let_def m_def [symmetric] del: append.simps)
  then show ?thesis
    by (rule that [where header = ?header and e = "\<lparr>er_code = FILE_NOT_FOUND, er_message = m, er_detail = []\<rparr>"])
      (use fd'(2) fd(3) in simp_all)
qed

text \<open>
  C29. A file that is there but cannot be opened for reading breaks the stream: the header (with an empty
  digest) and the raw-data header have been sent when the open fails, the handler returns normally, and
  its error frame lies where the announced data should be.  A client takes the first bytes of the error
  frame for the contents of the file.
\<close>

theorem unreadable_download_breaks_stream:
  assumes req: "parse_ZeroCopyDownloadRequest cd msg (int_size msg) = Some \<lparr>dr_relative_path = p, dr_offset = offset\<rparr>"
    and p: "plain_path p" "CHR 0x00 \<notin> set (file_root s)"
    and f: "node_at (disk s) (target_key (file_root s) (disk s) p) = Some (File c t)" "length c < 2 ^ 63"
      "target_key (file_root s) (disk s) p \<in> set (no_read (disk s))" "unat offset < length c"
    and cd: "codec_small b cd" and sock: "tx_ok (tx_plan (client_fd s))" "tx (client_fd s) = []"
  shows "\<exists>s' header e. handle_zero_copy_download_request cd msg s = Some (Inr (), s') \<and> sess_state s' = READY \<and>
    message_type header = MSG_ZERO_COPY_DOWNLOAD_HEADER \<and> er_code e = FILE_NOT_FOUND \<and>
    tx (client_fd s') = encode_frame header @ encode_raw_data_header (word_of_nat (length c) - offset) @
      encode_frame \<lparr>message_type = MSG_ERROR, payload = ser_ErrorPayload cd e\<rparr> \<and>
    (\<forall>client. rx_bytes (rx client) = tx (client_fd s') \<and>
         length c - unat offset \<le> FRAME_HEADER_SIZE + length (ser_ErrorPayload cd e) \<longrightarrow>
       read_frames (2 ^ 32) 2 client = Some [header, \<lparr>message_type = MSG_RAW_DATA, payload =
         take (length c - unat offset) (encode_frame \<lparr>message_type = MSG_ERROR, payload = ser_ErrorPayload cd e\<rparr>)\<rparr>])"
proof -
  have len: "length (ser_ZeroCopyDownloadHeader cd h) < 2 ^ 32 - FRAME_HEADER_SIZE"
    "length (ser_ErrorPayload cd e) < 2 ^ 32 - FRAME_HEADER_SIZE" for h e
    using cd by (auto simp: codec_small_def intro: le_less_trans)
  obtain s' header e where s': "handle_zero_copy_download_request cd msg s = Some (Inr (), s')" "sess_state s' = READY"
    and header: "header = \<lparr>message_type = MSG_ZERO_COPY_DOWNLOAD_HEADER, payload = ser_ZeroCopyDownloadHeader cd
      \<lparr>dh_relative_path = p, dh_total_size = word_of_nat (length c), dh_sha256_hash = [], dh_offset = offset\<rparr>\<rparr>"
    and out: "tx (client_fd s') = tx (client_fd s) @ encode_frame header @ encode_raw_data_header (word_of_nat (length c) - offset) @
      encode_frame \<lparr>message_type = MSG_ERROR, payload = ser_ErrorPayload cd e\<rparr>" "er_code e = FILE_NOT_FOUND"
    by (rule unreadable_download [OF req p f sock(1) len])
  let ?err = "\<lparr>message_type = MSG_ERROR, payload = ser_ErrorPayload cd e\<rparr>" and ?m = "length c - unat offset"
  have "unat (word_of_nat (length c) :: u64) = length c" using f(2) by (simp add: unat_of_nat)
  then have n: "unat (word_of_nat (length c) - offset) = ?m" using f(4) by (simp add: unat_sub word_le_nat_alt)
  have small: "length (payload header) < 2 ^ 32 - FRAME_HEADER_SIZE" "length (encode_frame ?err) < 2 ^ 32"
    using len(1) len(2) [of e] by (simp_all add: header FRAME_HEADER_SIZE_def)
  have "read_frames (2 ^ 32) 2 client = Some [header, \<lparr>message_type = MSG_RAW_DATA, payload = take ?m (encode_frame ?err)\<rparr>]"
    if "rx_bytes (rx client) = tx (client_fd s')" "?m \<le> length (encode_frame ?err)" for client
    using that out(1) n small sock(2)
    by (intro read_announced [where n = "word_of_nat (length c) - offset" and rest = "drop ?m (encode_frame ?err)"])
      (simp_all add: FRAME_HEADER_SIZE_def)
  with s' out sock(2) header show ?thesis
    by (intro exI [of _ s'] exI [of _ header] exI [of _ e]) simp
qed

theorem unreadable_download_breaks_stream_witness:
  "\<exists>s' header. handle_zero_copy_download_request
      (demo_codec\<lparr>parse_ZeroCopyDownloadRequest := (\<lambda>_ _. Some \<lparr>dr_relative_path = ''notes'', dr_offset = 0\<rparr>)\<rparr>) [1]
      ((demo_session [])\<lparr>disk := demo_storage\<lparr>no_read := [[''srv'', ''data'', ''notes'']]\<rparr>\<rparr>) = Some (Inr (), s') \<and>
    (\<forall>client. rx_bytes (rx client) = tx (client_fd s') \<longrightarrow> read_frames (2 ^ 32) 2 client =
       Some [header, \<lparr>message_type = MSG_RAW_DATA, payload = [0, 0, 0, 1, 50]\<rparr>])"
proof -
  let ?cd = "demo_codec\<lparr>parse_ZeroCopyDownloadRequest := (\<lambda>_ _. Some \<lparr>dr_relative_path = ''notes'', dr_offset = 0\<rparr>)\<rparr>"
  let ?fs = "demo_storage\<lparr>no_read := [[''srv'', ''data'', ''notes'']]\<rparr>"
  let ?s = "(demo_session [])\<lparr>disk := ?fs\<rparr>" and ?c = "[1, 2, 3, 4, 5] :: byte list"
  have f: "node_at ?fs (target_key ''./data'' ?fs ''notes'') = Some (File ?c 100)"
    "target_key ''./data'' ?fs ''notes'' \<in> set (no_read ?fs)" by code_simp+
  have cd: "codec_small 1 ?cd" using demo_codec_small by (simp add: codec_small_def)
  have "parse_ZeroCopyDownloadRequest ?cd [1] (int_size [1]) = Some \<lparr>dr_relative_path = ''notes'', dr_offset = 0\<rparr>" by simp
  moreover have "node_at (disk ?s) (target_key (file_root ?s) (disk ?s) ''notes'') = Some (File ?c 100)"
    "target_key (file_root ?s) (disk ?s) ''notes'' \<in> set (no_read (disk ?s))" using f by simp_all
  moreover have "take (Suc (Suc (Suc (Suc (Suc 0))))) (encode_frame \<lparr>message_type = MSG_ERROR, payload = [0]\<rparr>) = [0, 0, 0, 1, 50]" by code_simp
  moreover have "ser_ErrorPayload ?cd e = [0]" for e by (simp add: demo_codec_def)
  moreover note cd
  ultimately show ?thesis
    using unreadable_download_breaks_stream [of ?cd "[1]" "''notes''" 0 ?s ?c 100 1] demo_storage_facts(2,3)
    by (auto simp: FRAME_HEADER_SIZE_def)
qed

end
