(* ===== verification/Session_Delta.thy ===== *)
theory Session_Delta
  imports Session_Storage
begin

text \<open>
  Block transfers through the event loop: the handlers of \<^verbatim>\<open>Delta_Sync\<close> driven by the frames a client sends,
  with the answers that reach it.
\<close>

section \<open>Frames that carry blocks\<close>

definition carries_block :: "codec \<Rightarrow> nat \<Rightarrow> string \<Rightarrow> WireFrame \<Rightarrow> u32 \<times> u64 \<times> byte list \<Rightarrow> bool" where
  "carries_block cd grant p f = (\<lambda>(i, off, data).
     message_type f = MSG_DELTA_SYNC_BLOCK_DATA \<and> length (payload f) < 2 ^ 32 - 1 \<and> length (payload f) \<le> grant \<and>
     parse_DeltaSyncBlockData cd (payload f) (int_size (payload f)) =
       Some \<lparr>bd_relative_path = p, bd_block_index = i, bd_block_offset = off, bd_data = data, bd_strong_hash = sha256_hex data\<rparr>)"

text \<open>One block that is not the last: staged, and nothing is sent.\<close>

lemma full_block_turn:
  assumes on: "\<not> shutdown_requested s" "sess_state s \<noteq> DISCONNECTED"
    and stream: "rx_bytes (rx (client_fd s)) = encode_frame f @ rest" and f: "carries_block cd grant p f (i, off, data)"
    and full: "unat (negotiated_block_size s) \<le> length data"
    and h: "handle_block_data (delta_sync_handler s) (disk s) (file_mutex s) p i off data (sha256_hex data) False =
      (Inr STATUS_OK, fs', locks', h')"
  obtains fd where "session_step cd grant s (s\<lparr>client_fd := fd, disk := fs', file_mutex := locks', delta_sync_handler := h', sess_state := READY\<rparr>)"
    "rx_bytes (rx fd) = rest" "tx fd = tx (client_fd s)" "tx_plan fd = tx_plan (client_fd s)"
proof -
  obtain fd where rd: "read_frame grant (client_fd s) = (Inr (Some f), fd)"
    and fd: "rx_bytes (rx fd) = rest" "tx fd = tx (client_fd s)" "tx_plan fd = tx_plan (client_fd s)"
    using read_frame_standard [OF stream, of grant] f by (auto simp: carries_block_def)
  have "handle_delta_sync_block_data cd (payload f) (s\<lparr>client_fd := fd\<rparr>) =
      (Inr (), s\<lparr>client_fd := fd, disk := fs', file_mutex := locks', delta_sync_handler := h', sess_state := READY\<rparr>)"
    using f full h by (simp add: handle_delta_sync_block_data_def carries_block_def Let_def)
  then have "dispatch cd grant f (s\<lparr>client_fd := fd\<rparr>) =
      Some (Inr (), s\<lparr>client_fd := fd, disk := fs', file_mutex := locks', delta_sync_handler := h', sess_state := READY\<rparr>)"
    using f by (simp add: dispatch_def carries_block_def)
  from turn [OF on rd this] fd show ?thesis by (rule that)
qed

lemma full_blocks_turns:
  assumes "\<not> shutdown_requested s" "sess_state s \<noteq> DISCONNECTED"
    and "rx_bytes (rx (client_fd s)) = concat (map encode_frame frames) @ rest"
    and "list_all2 (carries_block cd grant p) frames blocks"
    and "\<forall>(i, off, data) \<in> set blocks. unat (negotiated_block_size s) \<le> length data"
    and "receive_blocks (unat (negotiated_block_size s)) p blocks (delta_sync_handler s) (disk s) (file_mutex s) =
      (Inr STATUS_OK, fs', locks', h')"
  shows "\<exists>s'. (session_step cd grant)\<^sup>*\<^sup>* s s' \<and> \<not> shutdown_requested s' \<and> sess_state s' \<noteq> DISCONNECTED \<and>
    disk s' = fs' \<and> file_mutex s' = locks' \<and> delta_sync_handler s' = h' \<and> file_root s' = file_root s \<and>
    negotiated_block_size s' = negotiated_block_size s \<and> rx_bytes (rx (client_fd s')) = rest \<and>
    tx (client_fd s') = tx (client_fd s) \<and> tx_plan (client_fd s') = tx_plan (client_fd s)"
  using assms
proof (induction blocks arbitrary: s frames)
  case Nil
  then show ?case by (intro exI [of _ s]) simp
next
  case (Cons b blocks)
  obtain i off data where b: "b = (i, off, data)" by (cases b)
  obtain f fs where frames: "frames = f # fs" "carries_block cd grant p f (i, off, data)" "list_all2 (carries_block cd grant p) fs blocks"
    using Cons.prems(4) b by (cases frames) auto
  have full: "unat (negotiated_block_size s) \<le> length data" using Cons.prems(5) b by auto
  obtain fs1 l1 h1 where h: "handle_block_data (delta_sync_handler s) (disk s) (file_mutex s) p i off data (sha256_hex data) False =
      (Inr STATUS_OK, fs1, l1, h1)"
    and rest: "receive_blocks (unat (negotiated_block_size s)) p blocks h1 fs1 l1 = (Inr STATUS_OK, fs', locks', h')"
    using Cons.prems(6) b full by (auto simp: not_less split: prod.splits sum.splits if_splits)
  have stream: "rx_bytes (rx (client_fd s)) = encode_frame f @ (concat (map encode_frame fs) @ rest)"
    using Cons.prems(3) frames(1) by simp
  obtain fd where st: "session_step cd grant s (s\<lparr>client_fd := fd, disk := fs1, file_mutex := l1, delta_sync_handler := h1, sess_state := READY\<rparr>)"
    and fd: "rx_bytes (rx fd) = concat (map encode_frame fs) @ rest" "tx fd = tx (client_fd s)" "tx_plan fd = tx_plan (client_fd s)"
    by (rule full_block_turn [OF Cons.prems(1,2) stream frames(2) full h])
  let ?s1 = "s\<lparr>client_fd := fd, disk := fs1, file_mutex := l1, delta_sync_handler := h1, sess_state := READY\<rparr>"
  obtain s' where s': "(session_step cd grant)\<^sup>*\<^sup>* ?s1 s'" "\<not> shutdown_requested s'" "sess_state s' \<noteq> DISCONNECTED"
    "disk s' = fs'" "file_mutex s' = locks'" "delta_sync_handler s' = h'" "file_root s' = file_root s"
    "negotiated_block_size s' = negotiated_block_size s" "rx_bytes (rx (client_fd s')) = rest"
    "tx (client_fd s') = tx fd" "tx_plan (client_fd s') = tx_plan fd"
    using Cons.IH [of ?s1 fs] Cons.prems(1,5) fd frames(3) rest by auto
  moreover have "(session_step cd grant)\<^sup>*\<^sup>* s s'" by (rule converse_rtranclp_into_rtranclp [of "session_step cd grant", OF st s'(1)])
  ultimately show ?case using fd by auto
qed

text \<open>The last block: published, and answered with the digest of the file.\<close>

definition delta_complete :: "codec \<Rightarrow> string \<Rightarrow> byte list \<Rightarrow> WireFrame" where
  "delta_complete cd p content =
     \<lparr>message_type = MSG_DELTA_SYNC_COMPLETE, payload = ser_DeltaSyncComplete cd
        \<lparr>dc_relative_path = p, dc_status = STATUS_OK, dc_error_message = [],
         dc_final_sha256_hash = to_hex (sha256_raw content)\<rparr>\<rparr>"

lemma compute_sha256_at:
  assumes p: "plain_path p" "CHR 0x00 \<notin> set r" and f: "file_at fs (target_key r fs p) = Some c" "no_read fs = []"
  shows "compute_sha256 r fs p = Inr (to_hex (sha256_raw c))"
proof -
  obtain t where "node_at fs (target_key r fs p) = Some (File c t)"
    using f(1) by (auto simp: file_at_def split: option.splits node.splits)
  then have "os_node fs (path_append r p) = Some (File c t)" using os_node_target [OF p] by simp
  then show ?thesis using f(2) by (simp add: compute_sha256_def resolve_plain [OF p(1)] open_in_def)
qed

lemma final_block_turn:
  assumes on: "\<not> shutdown_requested s" "sess_state s \<noteq> DISCONNECTED"
    and stream: "rx_bytes (rx (client_fd s)) = encode_frame f @ rest" and f: "carries_block cd grant p f (i, off, data)"
    and short: "length data < unat (negotiated_block_size s)"
    and h: "handle_block_data (delta_sync_handler s) (disk s) (file_mutex s) p i off data (sha256_hex data) True =
      (Inr STATUS_OK, fs', locks', h')"
    and sha: "compute_sha256 (file_root s) fs' p = Inr (to_hex (sha256_raw content))"
    and sock: "tx_ok (tx_plan (client_fd s))" and len: "length (payload (delta_complete cd p content)) < 2 ^ 32 - FRAME_HEADER_SIZE"
  obtains fd where "session_step cd grant s (s\<lparr>client_fd := fd, disk := fs', file_mutex := locks', delta_sync_handler := h', sess_state := READY\<rparr>)"
    "rx_bytes (rx fd) = rest" "tx fd = tx (client_fd s) @ encode_frame (delta_complete cd p content)"
proof -
  obtain fd where rd: "read_frame grant (client_fd s) = (Inr (Some f), fd)"
    and fd: "rx_bytes (rx fd) = rest" "tx fd = tx (client_fd s)" "tx_plan fd = tx_plan (client_fd s)"
    using read_frame_standard [OF stream, of grant] f by (auto simp: carries_block_def)
  let ?s2 = "s\<lparr>client_fd := fd, sess_state := TRANSFERRING, disk := fs', file_mutex := locks', delta_sync_handler := h'\<rparr>"
  have ok: "tx_ok (tx_plan (client_fd ?s2))" using sock fd(3) by simp
  obtain fd' where fd': "send_message (message_type (delta_complete cd p content)) (payload (delta_complete cd p content)) ?s2 = ?s2\<lparr>client_fd := fd'\<rparr>"
    "rx fd' = rx fd" "tx fd' = tx fd @ encode_frame (delta_complete cd p content)"
    using send_message_ok [OF ok len, of "message_type (delta_complete cd p content)"] by (auto simp: delta_complete_def)
  have "handle_delta_sync_block_data cd (payload f) (s\<lparr>client_fd := fd\<rparr>) =
      (Inr (), s\<lparr>client_fd := fd', disk := fs', file_mutex := locks', delta_sync_handler := h', sess_state := READY\<rparr>)"
    using f short h sha fd'(1)
    by (simp add: handle_delta_sync_block_data_def carries_block_def block_completion_def delta_complete_def Let_def)
  then have "dispatch cd grant f (s\<lparr>client_fd := fd\<rparr>) =
      Some (Inr (), s\<lparr>client_fd := fd', disk := fs', file_mutex := locks', delta_sync_handler := h', sess_state := READY\<rparr>)"
    using f by (simp add: dispatch_def carries_block_def)
  from turn [OF on rd this] show ?thesis by (rule that) (use fd fd' in simp_all)
qed

section \<open>Block transfers\<close>

text \<open>
  When a client's frames carry all blocks of a file whose length is not a multiple of the negotiated block
  size, in order, the event loop takes exactly these frames from the stream, the server's file becomes the
  client's, no other file changes, and there is exactly one answer.
\<close>

lemma session_delta_spec:
  assumes inv: "session_inv s" and p: "plain_path p" "CHR 0x00 \<notin> set (file_root s)"
    and fs: "healthy (disk s)" "writable_place (file_root s) (disk s) p"
    and fresh: "node_at (disk s) (temp_key (file_root s) (disk s) p) = None"
    and content: "length content mod unat (negotiated_block_size s) \<noteq> 0" "0 < negotiated_block_size s"
      "length content \<le> max_file (disk s)"
    and frames: "list_all2 (carries_block cd grant p) frames (blocks_of (unat (negotiated_block_size s)) content)"
    and stream: "rx_bytes (rx (client_fd s)) = concat (map encode_frame frames) @ rest"
    and sock: "tx_ok (tx_plan (client_fd s))" and len: "length (payload (delta_complete cd p content)) < 2 ^ 32 - FRAME_HEADER_SIZE"
  shows "\<exists>s'. (session_step cd grant)\<^sup>*\<^sup>* s s' \<and> sess_state s' = READY \<and> rx_bytes (rx (client_fd s')) = rest \<and>
    tx (client_fd s') = tx (client_fd s) @ encode_frame (delta_complete cd p content) \<and>
    (\<forall>k. file_at (disk s') k = (if k = target_key (file_root s) (disk s) p then Some content else file_at (disk s) k))"
proof -
  let ?bs = "unat (negotiated_block_size s)" and ?h = "delta_sync_handler s"
  have root: "ds_storage_root ?h = file_root s" and wf: "storage_wf (disk s)" and q: "quiet (file_mutex s)"
    and on: "\<not> shutdown_requested s" "sess_state s \<noteq> DISCONNECTED" and small: "length content < 2 ^ 63"
    using inv content(3) by (auto simp: session_inv_def sound_storage_def)
  have bs: "0 < ?bs" using content(2) by (simp add: word_gt_0 unat_gt_0)
  obtain first i off data fs1 l1 h1 fs2 l2 h2 where blocks: "blocks_of ?bs content = first @ [(i, off, data)]"
      "\<forall>(i, off, data) \<in> set first. ?bs \<le> length data" "length data < ?bs"
    and r1: "receive_blocks ?bs p first ?h (disk s) (file_mutex s) = (Inr STATUS_OK, fs1, l1, h1)"
    and r2: "receive_blocks ?bs p [(i, off, data)] h1 fs1 l1 = (Inr STATUS_OK, fs2, l2, h2)"
    and done2: "\<forall>k. file_at fs2 k = (if k = target_key (file_root s) (disk s) p then Some content else file_at (disk s) k)"
    by (rule delta_transfer_split [of p ?h "disk s", unfolded root, OF p fs(1) wf fs(2) fresh q bs content(1) small content(3)])
  obtain fs' f where frames': "frames = fs' @ [f]" "list_all2 (carries_block cd grant p) fs' first" "carries_block cd grant p f (i, off, data)"
    using frames blocks(1) by (auto simp: list_all2_append2 list_all2_Cons2)
  have stream1: "rx_bytes (rx (client_fd s)) = concat (map encode_frame fs') @ (encode_frame f @ rest)"
    using stream frames'(1) by simp
  obtain s1 where s1: "(session_step cd grant)\<^sup>*\<^sup>* s s1" "\<not> shutdown_requested s1" "sess_state s1 \<noteq> DISCONNECTED"
    and s1f: "disk s1 = fs1" "file_mutex s1 = l1" "delta_sync_handler s1 = h1" "file_root s1 = file_root s"
      "negotiated_block_size s1 = negotiated_block_size s" "rx_bytes (rx (client_fd s1)) = encode_frame f @ rest"
      "tx (client_fd s1) = tx (client_fd s)" "tx_plan (client_fd s1) = tx_plan (client_fd s)"
    using full_blocks_turns [OF on stream1 frames'(2) blocks(2) r1] by blast
  have inv1: "session_inv s1" "cwd fs1 = cwd (disk s)" "no_read fs1 = []"
    using session_steps_env [OF s1(1) inv] s1f(1) fs(1) by (auto simp: healthy_def)
  have h: "handle_block_data h1 fs1 l1 p i off data (sha256_hex data) True = (Inr STATUS_OK, fs2, l2, h2)"
    using r2 blocks(3) by (auto split: prod.splits sum.splits if_splits)
  have "evolves (ds_storage_root h1) p fs1 fs2"
    using evolves_block_data [OF h] inv1(1) s1f(1) by (simp add: session_inv_def sound_storage_def)
  then have env2: "cwd fs2 = cwd (disk s)" "no_read fs2 = []" using inv1(2,3) by (simp_all add: evolves_def)
  then have "file_at fs2 (target_key (file_root s) fs2 p) = Some content" using done2 by (simp add: target_key_def)
  then have sha: "compute_sha256 (file_root s1) fs2 p = Inr (to_hex (sha256_raw content))"
    using compute_sha256_at [OF p] env2(2) s1f(4) by simp
  obtain fd where st: "session_step cd grant s1 (s1\<lparr>client_fd := fd, disk := fs2, file_mutex := l2, delta_sync_handler := h2, sess_state := READY\<rparr>)"
    and fd: "rx_bytes (rx fd) = rest" "tx fd = tx (client_fd s1) @ encode_frame (delta_complete cd p content)"
    by (rule final_block_turn [OF s1(2,3) s1f(6) frames'(3) _ _ sha _ len]) (use h blocks(3) s1f sock in simp_all)
  have "(session_step cd grant)\<^sup>*\<^sup>* s (s1\<lparr>client_fd := fd, disk := fs2, file_mutex := l2, delta_sync_handler := h2, sess_state := READY\<rparr>)"
    by (rule rtranclp.rtrancl_into_rtrancl [OF s1(1) st])
  with fd s1f(7) done2 show ?thesis by (intro exI conjI) (assumption | simp)+
qed

text \<open>A session with a block size of two bytes, and a client that sends the blocks of a file.\<close>

definition delta_codec :: "byte list \<Rightarrow> codec" where
  "delta_codec content = demo_codec\<lparr>parse_DeltaSyncBlockData := (\<lambda>msg _.
     let (i, off, data) = blocks_of 2 content ! length msg in
     Some \<lparr>bd_relative_path = ''sub/new'', bd_block_index = i, bd_block_offset = off, bd_data = data, bd_strong_hash = sha256_hex data\<rparr>)\<rparr>"

definition block_frames :: "nat \<Rightarrow> WireFrame list" where
  "block_frames n = map (\<lambda>i. \<lparr>message_type = MSG_DELTA_SYNC_BLOCK_DATA, payload = replicate i 0\<rparr>) [0..<n]"

definition delta_session :: "recv_event list \<Rightarrow> Session" where
  "delta_session evs = Session_init \<lparr>rx = evs, tx_plan = [], tx = []\<rparr> ''10.0.0.7:4242'' ''./data'' demo_storage FileMutex_init [] 2"

lemma delta_session_simps [simp]:
  "client_fd (delta_session evs) = \<lparr>rx = evs, tx_plan = [], tx = []\<rparr>" "disk (delta_session evs) = demo_storage"
  "file_root (delta_session evs) = ''./data''" "negotiated_block_size (delta_session evs) = 2"
  by (simp_all add: delta_session_def Session_init_def)

lemma delta_session_inv: "session_inv (delta_session evs)"
proof -
  have "session_start (delta_session evs)"
    unfolding session_start_def delta_session_def
    by (intro exI conjI) (rule refl | simp add: demo_storage_facts demo_storage_bounded)+
  then show ?thesis by (rule session_loop.start_invariant)
qed

lemma delta_frames:
  assumes "length (blocks_of 2 content) \<le> 64"
  shows "list_all2 (carries_block (delta_codec content) 64 ''sub/new'') (block_frames (length (blocks_of 2 content))) (blocks_of 2 content)"
  using assms by (auto simp: list_all2_conv_all_nth block_frames_def carries_block_def delta_codec_def split_beta)

text \<open>
  C28. A file whose length is a multiple of the negotiated block size is never finished: the session takes
  a block for the final one only when it is shorter than the block size, so all frames are consumed, the
  file is complete in its staging file, no file of the storage has changed otherwise, and the client, which
  waits for DeltaSyncComplete, has been sent nothing.
\<close>

theorem session_delta_unanswered:
  assumes inv: "session_inv s" and p: "plain_path p" "CHR 0x00 \<notin> set (file_root s)"
    and fs: "healthy (disk s)" "writable_place (file_root s) (disk s) p"
    and fresh: "node_at (disk s) (temp_key (file_root s) (disk s) p) = None"
    and content: "length content mod unat (negotiated_block_size s) = 0" "0 < negotiated_block_size s"
      "length content \<le> max_file (disk s)"
    and frames: "list_all2 (carries_block cd grant p) frames (blocks_of (unat (negotiated_block_size s)) content)"
    and stream: "rx_bytes (rx (client_fd s)) = concat (map encode_frame frames) @ rest"
  shows "\<exists>s'. (session_step cd grant)\<^sup>*\<^sup>* s s' \<and> rx_bytes (rx (client_fd s')) = rest \<and>
    tx (client_fd s') = tx (client_fd s) \<and>
    content_or_empty (file_at (disk s') (temp_key (file_root s) (disk s) p)) = content \<and>
    (\<forall>k. k \<noteq> temp_key (file_root s) (disk s) p \<longrightarrow> file_at (disk s') k = file_at (disk s) k)"
proof -
  let ?bs = "unat (negotiated_block_size s)" and ?h = "delta_sync_handler s"
  have root: "ds_storage_root ?h = file_root s" and wf: "storage_wf (disk s)" and q: "quiet (file_mutex s)"
    and on: "\<not> shutdown_requested s" "sess_state s \<noteq> DISCONNECTED" and small: "length content < 2 ^ 63"
    using inv content(3) by (auto simp: session_inv_def sound_storage_def)
  have bs: "0 < ?bs" using content(2) by (simp add: word_gt_0 unat_gt_0)
  obtain fs1 l1 h1 where r: "receive_blocks ?bs p (blocks_of ?bs content) ?h (disk s) (file_mutex s) = (Inr STATUS_OK, fs1, l1, h1)"
    and fs1: "content_or_empty (file_at fs1 (temp_key (file_root s) (disk s) p)) = content"
      "\<forall>k. k \<noteq> temp_key (file_root s) (disk s) p \<longrightarrow> file_at fs1 k = file_at (disk s) k"
    and full: "\<forall>(i, off, data) \<in> set (blocks_of ?bs content). ?bs \<le> length data"
    by (rule delta_multiple_staged [of p ?h "disk s", unfolded root, OF p fs(1) wf fs(2) fresh q bs content(1) small content(3)])
  from full_blocks_turns [OF on stream frames full r] fs1 show ?thesis by metis
qed

theorem session_delta_unanswered_witness:
  "\<exists>s'. (session_step (delta_codec [1, 2]) 64)\<^sup>*\<^sup>* (delta_session [Recv_data [0, 0, 0, 0, 32]]) s' \<and>
    tx (client_fd s') = [] \<and> file_at (disk s') [''srv'', ''data'', ''sub'', ''new''] = None"
proof -
  let ?s = "delta_session [Recv_data [0, 0, 0, 0, 32]]" and ?cd = "delta_codec [1, 2]"
  have n: "length (blocks_of 2 [1, 2]) = 1" by code_simp
  have "rx_bytes (rx (client_fd ?s)) = concat (map encode_frame (block_frames 1)) @ []"
    unfolding delta_session_simps by code_simp
  moreover have "list_all2 (carries_block ?cd 64 ''sub/new'') (block_frames 1) (blocks_of (unat (negotiated_block_size ?s)) [1, 2])"
    using delta_frames [of "[1, 2]"] n by simp
  ultimately show ?thesis
    using session_delta_unanswered [of ?s "''sub/new''" "[1, 2]" ?cd 64 "block_frames 1" "[]"] delta_session_inv
      demo_storage_facts(1,3,4,6,8) demo_fresh(1,5,6) by auto
qed

end
