(* ===== verification/Client_Server.thy ===== *)
theory Client_Server
  imports Client Session_Output Session_Delta
begin

text \<open>
  A client and a session that serves it.  Both programs were written separately, against the same message
  definitions; here the model of one reads what the model of the other writes.
\<close>

section \<open>Exchanges\<close>

text \<open>
  A session and an operation of a client talk to each other: the session reads exactly what the operation
  writes; and on a connection that holds and delivers what the session sent, the operation gives \<open>r\<close> and leaves
  the client, apart from its stream, as \<open>c'\<close>.  This relates the two byte streams as a whole.  It says nothing
  about the order in which the bytes of the two directions appear: that neither side waits for bytes which the other
  sends only later is not part of it.
\<close>

definition exchange ::
    "codec \<Rightarrow> nat \<Rightarrow> Session \<Rightarrow> Session \<Rightarrow> (TcpClient \<Rightarrow> 'a outcome \<times> TcpClient) \<Rightarrow> TcpClient \<Rightarrow> 'a outcome \<Rightarrow> TcpClient \<Rightarrow> bool" where
  "exchange cd grant s s' act c r c' \<longleftrightarrow>
     (\<exists>asked answered rest. (session_step cd grant)\<^sup>*\<^sup>* s s' \<and>
        rx_bytes (rx (client_fd s)) = asked @ rest \<and> rx_bytes (rx (client_fd s')) = rest \<and>
        tx (client_fd s') = tx (client_fd s) @ answered \<and>
        (\<forall>st. incoming st = answered \<and> takes st = None \<longrightarrow>
           (\<exists>st'. act (c\<lparr>tc_stream := Some st\<rparr>) = (r, c'\<lparr>tc_stream := Some st'\<rparr>) \<and> outgoing st' = outgoing st @ asked)))"

lemma exchangeI:
  assumes "(session_step cd grant)\<^sup>*\<^sup>* s s'"
    and "rx_bytes (rx (client_fd s)) = asked @ rest" "rx_bytes (rx (client_fd s')) = rest"
    and "tx (client_fd s') = tx (client_fd s) @ answered"
    and "\<And>st :: tcp_stream. incoming st = answered \<Longrightarrow> takes st = None \<Longrightarrow>
      act (c\<lparr>tc_stream := Some st\<rparr>) = (r, c'\<lparr>tc_stream := Some (st\<lparr>incoming := later, outgoing := outgoing st @ asked\<rparr>)\<rparr>)"
  shows "exchange cd grant s s' act c r c'"
  unfolding exchange_def
proof (intro exI conjI allI impI)
  fix st :: tcp_stream assume "incoming st = answered \<and> takes st = None"
  then show "act (c\<lparr>tc_stream := Some st\<rparr>) = (r, c'\<lparr>tc_stream := Some (st\<lparr>incoming := later, outgoing := outgoing st @ asked\<rparr>)\<rparr>)"
    using assms(5) by blast
  show "outgoing (st\<lparr>incoming := later, outgoing := outgoing st @ asked\<rparr>) = outgoing st @ asked" by simp
qed (use assms(1-4) in simp_all)

text \<open>What protobuf promises for a message: what one side encodes, the other decodes.\<close>

definition server_decodes :: "('m \<Rightarrow> byte list) \<Rightarrow> (byte list \<Rightarrow> int \<Rightarrow> 'm option) \<Rightarrow> nat \<Rightarrow> 'm \<Rightarrow> bool" where
  "server_decodes enc parse grant m \<longleftrightarrow>
     length (enc m) < 2 ^ 31 \<and> length (enc m) \<le> grant \<and> parse (enc m) (int_size (enc m)) = Some m"

definition client_decodes :: "('m \<Rightarrow> byte list) \<Rightarrow> (byte list \<Rightarrow> 'm option) \<Rightarrow> nat \<Rightarrow> 'm \<Rightarrow> bool" where
  "client_decodes ser dec grant m \<longleftrightarrow> length (ser m) < 2 ^ 31 \<and> length (ser m) \<le> grant \<and> dec (ser m) = Some m"

text \<open>A session between two messages, on a connection without failures.\<close>

definition session_open :: "Session \<Rightarrow> bool" where
  "session_open s \<longleftrightarrow> \<not> shutdown_requested s \<and> sess_state s \<noteq> DISCONNECTED \<and> tx_ok (tx_plan (client_fd s))"

lemma frame_turn:
  assumes on: "session_open s" and stream: "rx_bytes (rx (client_fd s)) = encode_frame \<lparr>message_type = ty, payload = enc m\<rparr> @ rest"
    and msg: "server_decodes enc parse grant m"
  obtains fd where "rx_bytes (rx fd) = rest" "tx fd = tx (client_fd s)" "tx_plan fd = tx_plan (client_fd s)"
    "\<And>s'. dispatch cd grant \<lparr>message_type = ty, payload = enc m\<rparr> (s\<lparr>client_fd := fd\<rparr>) = Some (Inr (), s') \<Longrightarrow> session_step cd grant s s'"
proof -
  obtain fd where rd: "read_frame grant (client_fd s) = (Inr (Some \<lparr>message_type = ty, payload = enc m\<rparr>), fd)"
    and fd: "rx_bytes (rx fd) = rest" "tx fd = tx (client_fd s)" "tx_plan fd = tx_plan (client_fd s)"
    using read_frame_standard [OF stream, of grant] msg by (auto simp: server_decodes_def)
  from turn [OF _ _ rd] on have "session_step cd grant s s'"
    if "dispatch cd grant \<lparr>message_type = ty, payload = enc m\<rparr> (s\<lparr>client_fd := fd\<rparr>) = Some (Inr (), s')" for s'
    using that by (simp add: session_open_def)
  with fd that show ?thesis by blast
qed

section \<open>Uploads\<close>

definition upload_ack :: "codec \<Rightarrow> WireFrame" where
  "upload_ack cd = \<lparr>message_type = MSG_ZERO_COPY_UPLOAD_ACK, payload = ser_ZeroCopyUploadAck cd
     \<lparr>ua_status = STATUS_OK, ua_error_message = [], ua_offset = 0\<rparr>\<rparr>"

text \<open>An upload that ends well was acknowledged first; progress reports may follow.\<close>

lemma upload_request_acks:
  assumes cd: "codec_small b cd" and ok: "tx_ok (tx_plan (client_fd s))"
    and req: "parse_ZeroCopyUploadRequest cd msg (int_size msg) = Some req"
    and run: "handle_zero_copy_upload_request cd grant msg s = (Inr (), s')"
  obtains later where "tx (client_fd s') = tx (client_fd s) @ encode_frame (upload_ack cd) @ later"
proof -
  let ?u = "(upload_state s)\<lparr>up_relative_path := md_relative_path (ur_metadata req),
     up_total_size := md_file_size (ur_metadata req), up_received := 0,
     up_expected_sha256 := md_sha256_hash (ur_metadata req), up_buffer := []\<rparr>"
  obtain u1 where u1: "reserve_buffer grant (unat (md_file_size (ur_metadata req))) ?u = Inr u1"
    using run req by (auto simp: handle_zero_copy_upload_request_def Let_def split: sum.splits)
  let ?s1 = "s\<lparr>upload_state := u1, sess_state := TRANSFERRING\<rparr>"
  let ?s2 = "send_message MSG_ZERO_COPY_UPLOAD_ACK (payload (upload_ack cd)) ?s1"
  have tx1: "tx_ok (tx_plan (client_fd ?s1))" using ok by simp
  have len: "length (payload (upload_ack cd)) < 2 ^ 32 - FRAME_HEADER_SIZE"
    using cd order.strict_trans1 by (fastforce simp: codec_small_def upload_ack_def)
  obtain fd where "?s2 = ?s1\<lparr>client_fd := fd\<rparr>" "tx_ok (tx_plan fd)"
    "tx fd = tx (client_fd ?s1) @ encode_frame \<lparr>message_type = MSG_ZERO_COPY_UPLOAD_ACK, payload = payload (upload_ack cd)\<rparr>"
    by (rule send_message_ok [OF tx1 len])
  then have fd: "?s2 = ?s1\<lparr>client_fd := fd\<rparr>" "tx_ok (tx_plan fd)" "tx fd = tx (client_fd s) @ encode_frame (upload_ack cd)"
    by (simp_all add: upload_ack_def)
  obtain start s3 where c: "clock_now ?s2 = (start, s3)" by fastforce
  obtain r4 s4 where up: "upload_loop cd grant start s3 = (r4, s4)" by fastforce
  obtain r5 s5 where sv: "save_upload cd s4 = (r5, s5)" by fastforce
  have "client_fd s3 = client_fd ?s2" using arg_cong [OF c, of "\<lambda>x. client_fd (snd x)"] by simp
  then have "client_fd s3 = fd" using fd(1) by simp
  then have "emits b 0 fd (client_fd s5)" using emits_trans [OF emits_upload [OF cd up, of 0] emits_save [OF cd sv, of 0]] by simp
  then obtain later where "tx (client_fd s5) = tx fd @ later" using fd(2) by (auto simp: emits_def)
  moreover have "client_fd s' = client_fd s5"
    using req u1 c up sv run by (auto simp: handle_zero_copy_upload_request_def upload_ack_def Let_def split: sum.splits)
  ultimately show ?thesis using that fd(3) by simp
qed

lemma server_upload:
  assumes on: "session_open s" and cd: "codec_small b cd"
    and stream: "rx_bytes (rx (client_fd s)) = upload_bytes cr info content @ rest"
    and msg: "server_decodes (enc_ZeroCopyUploadRequest cr) (parse_ZeroCopyUploadRequest cd) grant (upload_request info)"
    and info: "li_relative_path info = p" "li_file_size info = word_of_nat (length content)"
    and ok: "accepts_upload s grant p content" and content: "content \<noteq> []" "length content < 2 ^ 32"
  obtains s' later where "session_step cd grant s s'" "rx_bytes (rx (client_fd s')) = rest"
    "tx (client_fd s') = tx (client_fd s) @ encode_frame (upload_ack cd) @ later" "file_root s' = file_root s"
    "cwd (disk s') = cwd (disk s)" "no_read (disk s') = []"
    "\<forall>k. file_at (disk s') k = (if k = target_key (file_root s) (disk s) p then Some content
       else if k = temp_key (file_root s) (disk s) p then None else file_at (disk s) k)"
proof -
  let ?m = "enc_ZeroCopyUploadRequest cr (upload_request info)"
  have stream': "rx_bytes (rx (client_fd s)) = encode_frame \<lparr>message_type = MSG_ZERO_COPY_UPLOAD_REQUEST, payload = ?m\<rparr> @ (raw_frame content @ rest)"
    using stream by (simp add: upload_bytes_def)
  obtain fd where fd: "rx_bytes (rx fd) = raw_frame content @ rest" "tx fd = tx (client_fd s)" "tx_plan fd = tx_plan (client_fd s)"
    and step: "\<And>s'. dispatch cd grant \<lparr>message_type = MSG_ZERO_COPY_UPLOAD_REQUEST, payload = ?m\<rparr> (s\<lparr>client_fd := fd\<rparr>) = Some (Inr (), s') \<Longrightarrow> session_step cd grant s s'"
    by (rule frame_turn [OF on stream' msg]) blast
  let ?s = "s\<lparr>client_fd := fd\<rparr>"
  have req: "parse_ZeroCopyUploadRequest cd ?m (int_size ?m) = Some \<lparr>ur_metadata = ur_metadata (upload_request info)\<rparr>"
    using msg by (simp add: server_decodes_def)
  have acc: "accepts_upload ?s grant p (concat [content])" using ok by (simp add: accepts_upload_def)
  have md: "md_relative_path (ur_metadata (upload_request info)) = p"
    "md_file_size (ur_metadata (upload_request info)) = word_of_nat (length (concat [content]))"
    using info by (simp_all add: upload_request_def)
  have chunks: "rx_bytes (rx (client_fd ?s)) = concat (map raw_frame [content]) @ rest"
    "\<forall>d \<in> set [content]. d \<noteq> [] \<and> length d < 2 ^ 32"
    using fd(1) content by simp_all
  obtain s' where s': "handle_zero_copy_upload_request cd grant ?m ?s = (Inr (), s')" "rx_bytes (rx (client_fd s')) = rest"
    "file_root s' = file_root s" "cwd (disk s') = cwd (disk s)" "no_read (disk s') = []"
    "\<forall>k. file_at (disk s') k = (if k = target_key (file_root s) (disk s) p then Some content
       else if k = temp_key (file_root s) (disk s) p then None else file_at (disk s) k)"
    by (rule upload_spec [OF acc req md chunks]) auto
  have "tx_ok (tx_plan (client_fd ?s))" using on fd(3) by (simp add: session_open_def)
  then obtain later where "tx (client_fd s') = tx (client_fd s) @ encode_frame (upload_ack cd) @ later"
    using upload_request_acks [OF cd _ req s'(1)] fd(2) by auto
  moreover have "session_step cd grant s s'" using step s'(1) by (simp add: dispatch_def)
  ultimately show ?thesis using that s'(2-) by blast
qed

text \<open>The file a client is about to send, with what it says about it.\<close>

definition client_has :: "crates \<Rightarrow> TcpClient \<Rightarrow> string \<Rightarrow> byte list \<Rightarrow> LocalFileInfo \<Rightarrow> bool" where
  "client_has cr c p content info \<longleftrightarrow>
     plain_path p \<and> CHR 0x00 \<notin> set (sync_root (tc_file_ops c)) \<and> no_read (local_disk c) = [] \<and>
     file_at (local_disk c) (target_key (sync_root (tc_file_ops c)) (local_disk c) p) = Some content \<and>
     client_get_file_info cr (tc_file_ops c) p (local_disk c) = Inr info"

lemma exchange_upload:
  assumes on: "session_open s" and cd: "codec_small b cd"
    and stream: "rx_bytes (rx (client_fd s)) = upload_bytes cr info content @ rest"
    and has: "client_has cr c p content info"
    and msg: "server_decodes (enc_ZeroCopyUploadRequest cr) (parse_ZeroCopyUploadRequest cd) grant (upload_request info)"
    and ack: "client_decodes (ser_ZeroCopyUploadAck cd) (dec_ZeroCopyUploadAck cr) cgrant \<lparr>ua_status = STATUS_OK, ua_error_message = [], ua_offset = 0\<rparr>"
    and ok: "accepts_upload s grant p content" and content: "content \<noteq> []" "length content < 2 ^ 32"
  obtains s' where "exchange cd grant s s' (upload_file cr cgrant p) c (Inr (sha2_hex cr content)) c" "file_root s' = file_root s"
    "cwd (disk s') = cwd (disk s)" "no_read (disk s') = []"
    "\<forall>k. file_at (disk s') k = (if k = target_key (file_root s) (disk s) p then Some content
       else if k = temp_key (file_root s) (disk s) p then None else file_at (disk s) k)"
proof -
  note has' = has [unfolded client_has_def]
  have p: "plain_path p" "CHR 0x00 \<notin> set (sync_root (tc_file_ops c))"
    and f: "file_at (local_disk c) (target_key (sync_root (tc_file_ops c)) (local_disk c) p) = Some content" "no_read (local_disk c) = []"
    and gi: "client_get_file_info cr (tc_file_ops c) p (local_disk c) = Inr info"
    using has' by auto
  obtain s' later where s': "session_step cd grant s s'" "rx_bytes (rx (client_fd s')) = rest"
    "tx (client_fd s') = tx (client_fd s) @ encode_frame (upload_ack cd) @ later" "file_root s' = file_root s"
    "cwd (disk s') = cwd (disk s)" "no_read (disk s') = []"
    "\<forall>k. file_at (disk s') k = (if k = target_key (file_root s) (disk s) p then Some content
       else if k = temp_key (file_root s) (disk s) p then None else file_at (disk s) k)"
    by (rule server_upload [OF on cd stream msg client_file_info(1,2) [OF p f gi] ok content])
  have "exchange cd grant s s' (upload_file cr cgrant p) c (Inr (sha2_hex cr content)) c"
  proof (rule exchangeI [OF _ stream s'(2,3)])
    fix st :: tcp_stream assume "incoming st = encode_frame (upload_ack cd) @ later" "takes st = None"
    then show "upload_file cr cgrant p (c\<lparr>tc_stream := Some st\<rparr>) = (Inr (sha2_hex cr content),
        c\<lparr>tc_stream := Some (st\<lparr>incoming := later, outgoing := outgoing st @ upload_bytes cr info content\<rparr>)\<rparr>)"
      using client_upload_ok [of "c\<lparr>tc_stream := Some st\<rparr>" st "payload (upload_ack cd)" later cr] ack p f gi
      by (simp add: upload_ack_def client_decodes_def)
  qed (use s'(1) in simp)
  with that s'(4-) show ?thesis by blast
qed

section \<open>Downloads\<close>

text \<open>What a download request makes the sender put on the wire.\<close>

lemma download_spec:
  assumes p: "plain_path p" "CHR 0x00 \<notin> set (file_root t)"
    and req: "parse_ZeroCopyDownloadRequest cd msg (int_size msg) = Some \<lparr>dr_relative_path = p, dr_offset = 0\<rparr>"
    and f: "file_at (disk t) (target_key (file_root t) (disk t) p) = Some c" "no_read (disk t) = []"
    and c: "c \<noteq> []" "length c < 2 ^ 63" and sock: "tx_ok (tx_plan (client_fd t))"
    and hlen: "length (payload (download_header cd p c 0)) < 2 ^ 32 - FRAME_HEADER_SIZE"
  obtains fd where "handle_zero_copy_download_request cd msg t = Some (Inr (), t\<lparr>client_fd := fd, sess_state := READY\<rparr>)"
    "rx fd = rx (client_fd t)" "tx fd = tx (client_fd t) @ encode_frame (download_header cd p c 0) @ raw_frame c"
proof -
  obtain tm where node: "node_at (disk t) (target_key (file_root t) (disk t) p) = Some (File c tm)"
    using f(1) by (auto simp: file_at_def split: option.splits node.splits)
  have "unat (0 :: u64) < length c" using c(1) by simp
  from send_file_sends [OF p node f(2) this c(2) sock hlen] obtain fd
    where "send_file cd (file_root t) (disk t) p 0 (client_fd t) = Some (Inr True, fd)" "rx fd = rx (client_fd t)"
      "tx fd = tx (client_fd t) @ encode_frame (download_header cd p c 0) @ raw_frame c"
    by (auto simp: raw_frame_def)
  then show ?thesis
    using req by (intro that [of fd]) (simp_all add: handle_zero_copy_download_request_def Let_def)
qed


definition download_bytes :: "crates \<Rightarrow> string \<Rightarrow> byte list" where
  "download_bytes cr p = encode_frame \<lparr>message_type = MSG_ZERO_COPY_DOWNLOAD_REQUEST,
     payload = enc_ZeroCopyDownloadRequest cr \<lparr>dr_relative_path = p, dr_offset = 0\<rparr>\<rparr>"

definition header_message :: "string \<Rightarrow> byte list \<Rightarrow> ZeroCopyDownloadHeader" where
  "header_message p content = \<lparr>dh_relative_path = p, dh_total_size = word_of_nat (length content),
     dh_sha256_hash = to_hex (sha256_raw content), dh_offset = 0\<rparr>"

lemma exchange_download:
  assumes on: "session_open s" and stream: "rx_bytes (rx (client_fd s)) = download_bytes cr p @ rest"
    and msg: "server_decodes (enc_ZeroCopyDownloadRequest cr) (parse_ZeroCopyDownloadRequest cd) grant \<lparr>dr_relative_path = p, dr_offset = 0\<rparr>"
    and header: "client_decodes (ser_ZeroCopyDownloadHeader cd) (dec_ZeroCopyDownloadHeader cr) cgrant (header_message p content)"
    and sha: "\<And>d. sha2_hex cr d = to_hex (fips_sha256 d)"
    and root: "CHR 0x00 \<notin> set (file_root s)"
    and f: "file_at (disk s) (target_key (file_root s) (disk s) p) = Some content" "no_read (disk s) = []"
    and content: "content \<noteq> []" "length content < 2 ^ 63" "length content \<le> cgrant"
    and place: "client_place (tc_file_ops c) (local_disk c) p" "length content \<le> max_file (local_disk c)"
  obtains s' c' where "exchange cd grant s s' (download_file cr cgrant p) c (Inr (to_hex (fips_sha256 content))) c'"
    "disk s' = disk s"
    "\<forall>k. file_at (local_disk c') k = (if k = target_key (sync_root (tc_file_ops c)) (local_disk c) p then Some content
       else if k = client_temp_key (sync_root (tc_file_ops c)) (local_disk c) p then None else file_at (local_disk c) k)"
proof -
  have p: "plain_path p" using place(1) by (simp add: client_place_def)
  have stream': "rx_bytes (rx (client_fd s)) = encode_frame \<lparr>message_type = MSG_ZERO_COPY_DOWNLOAD_REQUEST,
      payload = enc_ZeroCopyDownloadRequest cr \<lparr>dr_relative_path = p, dr_offset = 0\<rparr>\<rparr> @ rest"
    using stream by (simp add: download_bytes_def)
  let ?m = "enc_ZeroCopyDownloadRequest cr \<lparr>dr_relative_path = p, dr_offset = 0\<rparr>"
  obtain fd where fd: "rx_bytes (rx fd) = rest" "tx fd = tx (client_fd s)" "tx_plan fd = tx_plan (client_fd s)"
    and step: "\<And>s'. dispatch cd grant \<lparr>message_type = MSG_ZERO_COPY_DOWNLOAD_REQUEST, payload = ?m\<rparr> (s\<lparr>client_fd := fd\<rparr>) = Some (Inr (), s') \<Longrightarrow> session_step cd grant s s'"
    by (rule frame_turn [OF on stream' msg]) blast
  have hdr: "download_header cd p content 0 = \<lparr>message_type = MSG_ZERO_COPY_DOWNLOAD_HEADER, payload = ser_ZeroCopyDownloadHeader cd (header_message p content)\<rparr>"
    by (simp add: download_header_def header_message_def)
  have "length (payload (download_header cd p content 0)) < 2 ^ 32 - FRAME_HEADER_SIZE"
    using header by (simp add: hdr client_decodes_def FRAME_HEADER_SIZE_def)
  then obtain fd' where fd': "handle_zero_copy_download_request cd ?m (s\<lparr>client_fd := fd\<rparr>) = Some (Inr (), s\<lparr>client_fd := fd', sess_state := READY\<rparr>)"
    "rx fd' = rx fd" "tx fd' = tx fd @ encode_frame (download_header cd p content 0) @ raw_frame content"
    using download_spec [of p "s\<lparr>client_fd := fd\<rparr>" cd ?m content] p root f content(1,2) on fd(3) msg
    by (auto simp: session_open_def server_decodes_def)
  let ?ops = "tc_file_ops c" and ?s' = "s\<lparr>client_fd := fd', sess_state := READY\<rparr>"
  obtain fs where w: "client_write_file ?ops p content (local_disk c) = (Inr (), fs)" "cwd fs = cwd (local_disk c)" "no_read fs = []"
    and files: "\<forall>k. file_at fs k = (if k = target_key (sync_root ?ops) (local_disk c) p then Some content
       else if k = client_temp_key (sync_root ?ops) (local_disk c) p then None else file_at (local_disk c) k)"
    by (rule client_write_file_ok [OF place])
  have "file_at fs (target_key (sync_root ?ops) fs p) = Some content" using files w(2) by (simp add: target_key_def)
  then have hash: "client_sha256 cr ?ops p fs = Inr (sha2_hex cr content)"
    using client_reads(2) [of p ?ops fs content cr] w(3) place(1) by (simp add: client_place_def)
  have step': "(session_step cd grant)\<^sup>*\<^sup>* s ?s'" using step fd'(1) by (simp add: dispatch_def)
  have "exchange cd grant s ?s' (download_file cr cgrant p) c (Inr (to_hex (fips_sha256 content))) (c\<lparr>local_disk := fs\<rparr>)"
  proof (rule exchangeI [OF step' stream])
    show "tx (client_fd ?s') = tx (client_fd s) @ encode_frame (download_header cd p content 0) @ raw_frame content @ []"
      using fd'(3) fd(2) by simp
    show "download_file cr cgrant p (c\<lparr>tc_stream := Some st\<rparr>) = (Inr (to_hex (fips_sha256 content)),
        c\<lparr>local_disk := fs, tc_stream := Some (st\<lparr>incoming := [], outgoing := outgoing st @ download_bytes cr p\<rparr>)\<rparr>)"
      if "incoming st = encode_frame (download_header cd p content 0) @ raw_frame content @ []" "takes st = None" for st :: tcp_stream
      using client_download_ok [of "c\<lparr>tc_stream := Some st\<rparr>" st "ser_ZeroCopyDownloadHeader cd (header_message p content)" content "[]" cr
          "header_message p content" cgrant p fs] that w(1) hash header content sha
      by (simp add: hdr client_decodes_def header_message_def download_bytes_def sha256_raw_eq)
  qed (use fd(1) fd'(2) in simp)
  moreover have "disk ?s' = disk s" by simp
  ultimately show ?thesis by (rule that) (use files in simp)
qed

section \<open>Negotiation\<close>

definition negotiation_bytes :: "crates \<Rightarrow> string \<Rightarrow> TcpClient \<Rightarrow> byte list" where
  "negotiation_bytes cr p c = encode_frame \<lparr>message_type = MSG_NEGOTIATION_REQUEST,
     payload = enc_NegotiationRequest cr (negotiation_request cr p c)\<rparr>"

lemma negotiation_request_stream [simp]: "negotiation_request cr p (c\<lparr>tc_stream := x\<rparr>) = negotiation_request cr p c"
  by (simp add: negotiation_request_def)

definition response_message :: "Negotiator.NegotiationResult \<Rightarrow> NegotiationResponse" where
  "response_message result =
     \<lparr>np_file_mode = ns_file_mode result, np_transfer_mode = ns_transfer_mode result,
      np_server_file_size = ns_server_file_size result, np_server_sha256_hash = ns_server_sha256 result,
      np_block_size = ns_block_size result\<rparr>"

lemma server_negotiation:
  assumes on: "session_open s" and stream: "rx_bytes (rx (client_fd s)) = negotiation_bytes cr p c @ rest"
    and msg: "server_decodes (enc_NegotiationRequest cr) (parse_NegotiationRequest cd) grant (negotiation_request cr p c)"
    and result: "negotiate (negotiator s) (disk s) p (nr_client_file_size (negotiation_request cr p c))
      (nr_client_last_modified_ns (negotiation_request cr p c)) (nr_client_sha256_hash (negotiation_request cr p c)) = Inr result"
    and len: "length (ser_NegotiationResponse cd (response_message result)) < 2 ^ 31"
  obtains fd where "session_step cd grant s (s\<lparr>client_fd := fd, sess_state := READY\<rparr>)" "rx_bytes (rx fd) = rest"
    "tx fd = tx (client_fd s) @ encode_frame \<lparr>message_type = MSG_NEGOTIATION_RESPONSE,
       payload = ser_NegotiationResponse cd (response_message result)\<rparr>" "tx_ok (tx_plan fd)"
proof -
  let ?r = "negotiation_request cr p c" and ?resp = "ser_NegotiationResponse cd (response_message result)"
  obtain fd where fd: "rx_bytes (rx fd) = rest" "tx fd = tx (client_fd s)" "tx_plan fd = tx_plan (client_fd s)"
    and step: "\<And>s'. dispatch cd grant \<lparr>message_type = MSG_NEGOTIATION_REQUEST, payload = enc_NegotiationRequest cr ?r\<rparr> (s\<lparr>client_fd := fd\<rparr>) =
      Some (Inr (), s') \<Longrightarrow> session_step cd grant s s'"
    by (rule frame_turn [OF on stream [unfolded negotiation_bytes_def] msg]) blast
  let ?s1 = "s\<lparr>client_fd := fd, sess_state := NEGOTIATING\<rparr>"
  have ok: "tx_ok (tx_plan (client_fd ?s1))" using on fd(3) by (simp add: session_open_def)
  have small: "length ?resp < 2 ^ 32 - FRAME_HEADER_SIZE" using len by (simp add: FRAME_HEADER_SIZE_def)
  obtain fd' where fd': "send_message MSG_NEGOTIATION_RESPONSE ?resp ?s1 = ?s1\<lparr>client_fd := fd'\<rparr>" "rx fd' = rx (client_fd ?s1)" "tx_ok (tx_plan fd')"
    "tx fd' = tx (client_fd ?s1) @ encode_frame \<lparr>message_type = MSG_NEGOTIATION_RESPONSE, payload = ?resp\<rparr>"
    by (rule send_message_ok [OF ok small])
  have path: "nr_relative_path ?r = p" by (simp add: negotiation_request_def)
  have "handle_negotiation_request cd (enc_NegotiationRequest cr ?r) (s\<lparr>client_fd := fd\<rparr>) = (Inr (), s\<lparr>client_fd := fd', sess_state := READY\<rparr>)"
    using msg result path fd'(1) by (simp add: handle_negotiation_request_def server_decodes_def response_message_def Let_def)
  then have "session_step cd grant s (s\<lparr>client_fd := fd', sess_state := READY\<rparr>)" using step by (simp add: dispatch_def)
  then show ?thesis by (rule that) (use fd fd' in simp_all)
qed

section \<open>A file that the server does not have\<close>

definition missing_error :: "codec \<Rightarrow> string \<Rightarrow> WireFrame" where
  "missing_error cd p = \<lparr>message_type = MSG_ERROR, payload = ser_ErrorPayload cd
     \<lparr>er_code = FILE_NOT_FOUND, er_message = ''File not found or transfer failed: '' @ p, er_detail = []\<rparr>\<rparr>"

lemma server_missing_download:
  assumes on: "session_open s" and stream: "rx_bytes (rx (client_fd s)) = download_bytes cr p @ rest"
    and msg: "server_decodes (enc_ZeroCopyDownloadRequest cr) (parse_ZeroCopyDownloadRequest cd) grant \<lparr>dr_relative_path = p, dr_offset = 0\<rparr>"
    and p: "plain_path p" "CHR 0x00 \<notin> set (file_root s)" and node: "node_at (disk s) (target_key (file_root s) (disk s) p) = None"
    and len: "length (payload (missing_error cd p)) < 2 ^ 31"
  obtains fd where "session_step cd grant s (s\<lparr>client_fd := fd, sess_state := READY\<rparr>)" "rx_bytes (rx fd) = rest"
    "tx fd = tx (client_fd s) @ encode_frame (missing_error cd p)"
proof -
  let ?m = "enc_ZeroCopyDownloadRequest cr \<lparr>dr_relative_path = p, dr_offset = 0\<rparr>"
  obtain fd where fd: "rx_bytes (rx fd) = rest" "tx fd = tx (client_fd s)" "tx_plan fd = tx_plan (client_fd s)"
    and step: "\<And>s'. dispatch cd grant \<lparr>message_type = MSG_ZERO_COPY_DOWNLOAD_REQUEST, payload = ?m\<rparr> (s\<lparr>client_fd := fd\<rparr>) = Some (Inr (), s') \<Longrightarrow> session_step cd grant s s'"
    by (rule frame_turn [OF on stream [unfolded download_bytes_def] msg]) blast
  let ?s1 = "s\<lparr>sess_state := TRANSFERRING, client_fd := fd\<rparr>"
  have ok: "tx_ok (tx_plan (client_fd ?s1))" using on fd(3) by (simp add: session_open_def)
  have small: "length (payload (missing_error cd p)) < 2 ^ 32 - FRAME_HEADER_SIZE" using len by (simp add: FRAME_HEADER_SIZE_def)
  obtain fd' where fd': "send_message MSG_ERROR (payload (missing_error cd p)) ?s1 = ?s1\<lparr>client_fd := fd'\<rparr>" "rx fd' = rx (client_fd ?s1)"
    "tx fd' = tx (client_fd ?s1) @ encode_frame \<lparr>message_type = MSG_ERROR, payload = payload (missing_error cd p)\<rparr>"
    by (rule send_message_ok [OF ok small])
  have "send_file cd (file_root s) (disk s) p 0 fd = Some (Inr False, fd)"
    using node by (simp add: send_file_def send_file_announce_def resolve_plain [OF p(1)] file_exists_def fs_exists_def os_node_target [OF p])
  then have "handle_zero_copy_download_request cd ?m (s\<lparr>client_fd := fd\<rparr>) = Some (Inr (), s\<lparr>client_fd := fd', sess_state := READY\<rparr>)"
    using msg fd'(1) by (simp add: handle_zero_copy_download_request_def server_decodes_def send_error_def missing_error_def Let_def)
  then have "session_step cd grant s (s\<lparr>client_fd := fd', sess_state := READY\<rparr>)" using step by (simp add: dispatch_def)
  then show ?thesis by (rule that) (use fd fd' in \<open>simp_all add: missing_error_def\<close>)
qed

text \<open>The client passes over the error report and waits for a header until the connection ends.\<close>

lemma client_download_refused:
  assumes st: "tc_stream c = Some st" "takes st = None" and answer: "incoming st = encode_frame f"
    and f: "message_type f \<noteq> MSG_ZERO_COPY_DOWNLOAD_HEADER" "length (payload f) < 2 ^ 31" "length (payload f) \<le> grant"
  shows "download_file cr grant p c = (Inl (Err (Connection ''Failed to read frame length'')),
    c\<lparr>tc_stream := Some (st\<lparr>incoming := [], outgoing := outgoing st @ download_bytes cr p\<rparr>)\<rparr>)"
proof -
  define st1 where "st1 = st\<lparr>outgoing := outgoing st @ download_bytes cr p\<rparr>"
  have "client_read_frame grant st1 = (Inr f, st1\<lparr>incoming := []\<rparr>)"
    using client_read_standard [of st1 f "[]" grant] answer f by (simp add: st1_def)
  moreover have "client_read_frame grant (st1\<lparr>incoming := []\<rparr>) = (Inl (Err (Connection ''Failed to read frame length'')), st1\<lparr>incoming := []\<rparr>)"
    by (simp add: client_read_frame_def and_then_def stream_read_exact_def)
  then have last: "read_expected_loop (Suc n) grant MSG_ZERO_COPY_DOWNLOAD_HEADER (st1\<lparr>incoming := []\<rparr>) =
      (Inl (Err (Connection ''Failed to read frame length'')), st1\<lparr>incoming := []\<rparr>)" for n
    by (simp add: and_then_def)
  have "(100 :: nat) = Suc (Suc 98)" by simp
  with calculation last [of 98] f(1) have "read_expected grant MSG_ZERO_COPY_DOWNLOAD_HEADER st1 =
      (Inl (Err (Connection ''Failed to read frame length'')), st1\<lparr>incoming := []\<rparr>)"
    by (simp only: read_expected_def read_expected_loop.simps(2) [of "Suc 98"] and_then_def) simp
  then show ?thesis
    using st on_stream_write [OF st] by (simp add: download_file_def client_step download_bytes_def st1_def on_stream_def)
qed

text \<open>
  C9. A file that the server does not have is not transferred by \<^verbatim>\<open>sync_file\<close>, whether the client has it or not:
  the server answers the negotiation with FRESH, the client takes that for a request to download, the server
  reports that there is no such file, and the client passes over the report and waits for a header that never
  comes; when the connection ends the call fails.  Neither side's files change.
\<close>

theorem sync_new_file_fails:
  assumes s: "session_open s" "session_inv s" and p: "plain_path p" "CHR 0x00 \<notin> set (file_root s)"
    and node: "node_at (disk s) (target_key (file_root s) (disk s) p) = None" "no_read (disk s) = []"
    and stream: "rx_bytes (rx (client_fd s)) = negotiation_bytes cr p c @ download_bytes cr p @ rest"
    and msgs: "server_decodes (enc_NegotiationRequest cr) (parse_NegotiationRequest cd) grant (negotiation_request cr p c)"
      "server_decodes (enc_ZeroCopyDownloadRequest cr) (parse_ZeroCopyDownloadRequest cd) grant \<lparr>dr_relative_path = p, dr_offset = 0\<rparr>"
    and resp: "client_decodes (ser_NegotiationResponse cd) (dec_NegotiationResponse cr) cgrant
      \<lparr>np_file_mode = FRESH, np_transfer_mode = ZERO_COPY, np_server_file_size = 0, np_server_sha256_hash = [],
       np_block_size = ng_block_size (negotiator s)\<rparr>"
    and len: "length (payload (missing_error cd p)) < 2 ^ 31" "length (payload (missing_error cd p)) \<le> cgrant"
  shows "\<exists>s'. exchange cd grant s s' (sync_file cr cgrant p) c (Inl (Err (Connection ''Failed to read frame length''))) c \<and>
    disk s' = disk s"
proof -
  let ?res = "\<lparr>ns_file_mode = FRESH, ns_transfer_mode = ZERO_COPY, ns_server_file_size = 0, ns_server_sha256 = [],
      ns_block_size = ng_block_size (negotiator s)\<rparr>"
  let ?m1 = "ser_NegotiationResponse cd (response_message ?res)"
  have root: "ng_storage_root (negotiator s) = file_root s" using s(2) by (simp add: session_inv_def)
  have result: "negotiate (negotiator s) (disk s) p n t h = Inr ?res" for n t h
    using negotiate_spec [of p "negotiator s" "disk s" n t h] p node by (simp add: root)
  have rm: "response_message ?res = \<lparr>np_file_mode = FRESH, np_transfer_mode = ZERO_COPY, np_server_file_size = 0, np_server_sha256_hash = [],
       np_block_size = ng_block_size (negotiator s)\<rparr>" by (simp add: response_message_def)
  have m1: "length ?m1 < 2 ^ 31" "length ?m1 \<le> cgrant" "dec_NegotiationResponse cr ?m1 = Some (response_message ?res)"
    using resp unfolding rm client_decodes_def by auto
  obtain fd where fd: "session_step cd grant s (s\<lparr>client_fd := fd, sess_state := READY\<rparr>)" "rx_bytes (rx fd) = download_bytes cr p @ rest"
    "tx fd = tx (client_fd s) @ encode_frame \<lparr>message_type = MSG_NEGOTIATION_RESPONSE, payload = ?m1\<rparr>" "tx_ok (tx_plan fd)"
    by (rule server_negotiation [OF s(1) stream msgs(1) result m1(1)])
  let ?s1 = "s\<lparr>client_fd := fd, sess_state := READY\<rparr>"
  have on1: "session_open ?s1" using s(1) fd(4) by (simp add: session_open_def)
  obtain fd' where fd': "session_step cd grant ?s1 (?s1\<lparr>client_fd := fd', sess_state := READY\<rparr>)" "rx_bytes (rx fd') = rest"
    "tx fd' = tx (client_fd ?s1) @ encode_frame (missing_error cd p)"
    by (rule server_missing_download [of ?s1, OF on1 _ msgs(2) p(1) _ _ len(1)]) (use fd p node in auto)
  let ?s2 = "?s1\<lparr>client_fd := fd', sess_state := READY\<rparr>" and ?err = "Inl (Err (Connection ''Failed to read frame length''))"
  have steps: "(session_step cd grant)\<^sup>*\<^sup>* s ?s2"
    by (rule converse_rtranclp_into_rtranclp [of "session_step cd grant", OF fd(1)]) (use fd'(1) in simp)
  let ?answer = "encode_frame \<lparr>message_type = MSG_NEGOTIATION_RESPONSE, payload = ?m1\<rparr> @ encode_frame (missing_error cd p)"
  have "exchange cd grant s ?s2 (sync_file cr cgrant p) c ?err c"
  proof (rule exchangeI [OF steps, where asked = "negotiation_bytes cr p c @ download_bytes cr p" and answered = ?answer and rest = rest and later = "[]"])
    fix st :: tcp_stream assume st: "incoming st = ?answer" "takes st = None"
    let ?st1 = "st\<lparr>incoming := encode_frame (missing_error cd p), outgoing := outgoing st @ negotiation_bytes cr p c\<rparr>"
    have "client_negotiate cr cgrant p (c\<lparr>tc_stream := Some st\<rparr>) =
        (Inr \<lparr>cn_file_mode = FRESH, cn_transfer_mode = ZERO_COPY, cn_server_file_size = 0, cn_server_sha256 = [],
            cn_block_size = ng_block_size (negotiator s)\<rparr>, c\<lparr>tc_stream := Some ?st1\<rparr>)"
      using client_negotiate_ok [of "c\<lparr>tc_stream := Some st\<rparr>" st ?m1 "encode_frame (missing_error cd p)" cr "response_message ?res" cgrant p] st m1
      by (simp add: response_message_def negotiation_bytes_def)
    moreover have "download_file cr cgrant p (c\<lparr>tc_stream := Some ?st1\<rparr>) = (?err,
        c\<lparr>tc_stream := Some (st\<lparr>incoming := [], outgoing := outgoing st @ negotiation_bytes cr p c @ download_bytes cr p\<rparr>)\<rparr>)"
      using client_download_refused [of "c\<lparr>tc_stream := Some ?st1\<rparr>" ?st1 "missing_error cd p" cgrant cr p] st len
      by (simp add: missing_error_def)
    ultimately show "sync_file cr cgrant p (c\<lparr>tc_stream := Some st\<rparr>) = (?err,
        c\<lparr>tc_stream := Some (st\<lparr>incoming := [], outgoing := outgoing st @ negotiation_bytes cr p c @ download_bytes cr p\<rparr>)\<rparr>)"
      by (simp add: sync_file_def and_then_def)
  qed (use stream fd(3) fd'(2,3) in simp_all)
  then show ?thesis by (intro exI [of _ ?s2]) simp
qed

section \<open>A file that the server has\<close>

text \<open>The first part of \<^verbatim>\<open>sync_file\<close>: the server reports its copy, and whether the client's is the same.\<close>

definition copy_report :: "Session \<Rightarrow> byte list \<Rightarrow> string \<Rightarrow> NegotiationResponse" where
  "copy_report s stored hash =
     (let same = hash = to_hex (fips_sha256 stored) in
      \<lparr>np_file_mode = (if same then UNCHANGED else MODIFIED), np_transfer_mode = (if same then TRANSFER_MODE_UNSPECIFIED else DELTA_SYNC),
       np_server_file_size = word_of_nat (length stored), np_server_sha256_hash = to_hex (fips_sha256 stored),
       np_block_size = ng_block_size (negotiator s)\<rparr>)"

lemma sync_start:
  assumes s: "session_open s" "session_inv s" and p: "plain_path p" "CHR 0x00 \<notin> set (file_root s)"
    and f: "file_at (disk s) (target_key (file_root s) (disk s) p) = Some stored" "no_read (disk s) = []"
    and stream: "rx_bytes (rx (client_fd s)) = negotiation_bytes cr p c @ rest"
    and msg: "server_decodes (enc_NegotiationRequest cr) (parse_NegotiationRequest cd) grant (negotiation_request cr p c)"
  defines "rep \<equiv> copy_report s stored (nr_client_sha256_hash (negotiation_request cr p c))"
  assumes resp: "client_decodes (ser_NegotiationResponse cd) (dec_NegotiationResponse cr) cgrant rep"
  defines "answer \<equiv> encode_frame \<lparr>message_type = MSG_NEGOTIATION_RESPONSE, payload = ser_NegotiationResponse cd rep\<rparr>"
  obtains fd where "session_step cd grant s (s\<lparr>client_fd := fd, sess_state := READY\<rparr>)" "rx_bytes (rx fd) = rest"
    "tx fd = tx (client_fd s) @ answer" "tx_ok (tx_plan fd)"
    "\<And>st more. incoming st = answer @ more \<Longrightarrow> takes st = None \<Longrightarrow> client_negotiate cr cgrant p (c\<lparr>tc_stream := Some st\<rparr>) =
       (Inr \<lparr>cn_file_mode = np_file_mode rep, cn_transfer_mode = np_transfer_mode rep, cn_server_file_size = np_server_file_size rep,
          cn_server_sha256 = np_server_sha256_hash rep, cn_block_size = np_block_size rep\<rparr>,
        c\<lparr>tc_stream := Some (st\<lparr>incoming := more, outgoing := outgoing st @ negotiation_bytes cr p c\<rparr>)\<rparr>)"
proof -
  let ?r = "negotiation_request cr p c"
  obtain tm where node: "node_at (disk s) (target_key (file_root s) (disk s) p) = Some (File stored tm)"
    using f(1) by (auto simp: file_at_def split: option.splits node.splits)
  have root: "ng_storage_root (negotiator s) = file_root s" using s(2) by (simp add: session_inv_def)
  let ?same = "nr_client_sha256_hash ?r = to_hex (fips_sha256 stored)"
  define res where "res = \<lparr>ns_file_mode = (if ?same then UNCHANGED else MODIFIED),
      ns_transfer_mode = (if ?same then TRANSFER_MODE_UNSPECIFIED else DELTA_SYNC), ns_server_file_size = word_of_nat (length stored),
      ns_server_sha256 = to_hex (fips_sha256 stored), ns_block_size = ng_block_size (negotiator s)\<rparr>"
  have res: "negotiate (negotiator s) (disk s) p (nr_client_file_size ?r) (nr_client_last_modified_ns ?r) (nr_client_sha256_hash ?r) = Inr res"
    "response_message res = rep"
    using negotiate_spec [of p "negotiator s" "disk s"] p node f(2)
    by (simp_all add: root rep_def copy_report_def response_message_def res_def Let_def)
  have len: "length (ser_NegotiationResponse cd rep) < 2 ^ 31" "length (ser_NegotiationResponse cd rep) \<le> cgrant"
    "dec_NegotiationResponse cr (ser_NegotiationResponse cd rep) = Some rep"
    using resp by (auto simp: client_decodes_def)
  obtain fd where fd: "session_step cd grant s (s\<lparr>client_fd := fd, sess_state := READY\<rparr>)" "rx_bytes (rx fd) = rest"
    "tx fd = tx (client_fd s) @ answer" "tx_ok (tx_plan fd)"
    using server_negotiation [OF s(1) stream msg res(1), unfolded res(2), OF len(1)] by (auto simp: answer_def)
  then show ?thesis
  proof (rule that)
    fix st :: tcp_stream and more assume "incoming st = answer @ more" "takes st = None"
    then show "client_negotiate cr cgrant p (c\<lparr>tc_stream := Some st\<rparr>) =
       (Inr \<lparr>cn_file_mode = np_file_mode rep, cn_transfer_mode = np_transfer_mode rep, cn_server_file_size = np_server_file_size rep,
          cn_server_sha256 = np_server_sha256_hash rep, cn_block_size = np_block_size rep\<rparr>,
        c\<lparr>tc_stream := Some (st\<lparr>incoming := more, outgoing := outgoing st @ negotiation_bytes cr p c\<rparr>)\<rparr>)"
      using client_negotiate_ok [of "c\<lparr>tc_stream := Some st\<rparr>" st "ser_NegotiationResponse cd rep" more cr rep cgrant p] len
      by (simp add: answer_def negotiation_bytes_def)
  qed
qed

lemma sync_decided:
  assumes s: "session_open s" "session_inv s" and p: "plain_path p" "CHR 0x00 \<notin> set (file_root s)"
    and f: "file_at (disk s) (target_key (file_root s) (disk s) p) = Some stored" "no_read (disk s) = []"
    and stream: "rx_bytes (rx (client_fd s)) = negotiation_bytes cr p c @ rest"
    and msg: "server_decodes (enc_NegotiationRequest cr) (parse_NegotiationRequest cd) grant (negotiation_request cr p c)"
  defines "rep \<equiv> copy_report s stored (nr_client_sha256_hash (negotiation_request cr p c))"
  assumes resp: "client_decodes (ser_NegotiationResponse cd) (dec_NegotiationResponse cr) cgrant rep"
    and act: "\<And>st c1. client_negotiate cr cgrant p (c\<lparr>tc_stream := Some st\<rparr>) =
       (Inr \<lparr>cn_file_mode = np_file_mode rep, cn_transfer_mode = np_transfer_mode rep, cn_server_file_size = np_server_file_size rep,
          cn_server_sha256 = np_server_sha256_hash rep, cn_block_size = np_block_size rep\<rparr>, c\<lparr>tc_stream := Some c1\<rparr>) \<Longrightarrow>
       sync_file cr cgrant p (c\<lparr>tc_stream := Some st\<rparr>) = (r, c\<lparr>tc_stream := Some c1\<rparr>)"
  shows "\<exists>s'. exchange cd grant s s' (sync_file cr cgrant p) c r c \<and> disk s' = disk s"
proof -
  let ?answer = "encode_frame \<lparr>message_type = MSG_NEGOTIATION_RESPONSE, payload = ser_NegotiationResponse cd rep\<rparr>"
  obtain fd where fd: "session_step cd grant s (s\<lparr>client_fd := fd, sess_state := READY\<rparr>)" "rx_bytes (rx fd) = rest" "tx fd = tx (client_fd s) @ ?answer @ []"
    and neg: "\<And>st more. incoming st = ?answer @ more \<Longrightarrow> takes st = None \<Longrightarrow> client_negotiate cr cgrant p (c\<lparr>tc_stream := Some st\<rparr>) =
       (Inr \<lparr>cn_file_mode = np_file_mode rep, cn_transfer_mode = np_transfer_mode rep, cn_server_file_size = np_server_file_size rep,
          cn_server_sha256 = np_server_sha256_hash rep, cn_block_size = np_block_size rep\<rparr>,
        c\<lparr>tc_stream := Some (st\<lparr>incoming := more, outgoing := outgoing st @ negotiation_bytes cr p c\<rparr>)\<rparr>)"
    by (rule sync_start [OF s p f stream msg resp [unfolded rep_def], folded rep_def]) simp
  have "exchange cd grant s (s\<lparr>client_fd := fd, sess_state := READY\<rparr>) (sync_file cr cgrant p) c r c"
    by (rule exchangeI [OF _ stream, where answered = "?answer @ []" and later = "[]"]) (use fd neg act in auto)
  then show ?thesis by (intro exI [of _ "s\<lparr>client_fd := fd, sess_state := READY\<rparr>"]) simp
qed

text \<open>
  C39. A file that both sides have with the same contents: \<^verbatim>\<open>sync_file\<close> returns its digest after one question and one
  answer, and nothing changes on either side.
\<close>

theorem sync_unchanged:
  assumes s: "session_open s" "session_inv s" and p: "plain_path p" "CHR 0x00 \<notin> set (file_root s)" "CHR 0x00 \<notin> set (sync_root (tc_file_ops c))"
    and f: "file_at (disk s) (target_key (file_root s) (disk s) p) = Some content" "no_read (disk s) = []"
      "file_at (local_disk c) (target_key (sync_root (tc_file_ops c)) (local_disk c) p) = Some content" "no_read (local_disk c) = []"
    and sha: "sha2_hex cr content = to_hex (fips_sha256 content)"
    and stream: "rx_bytes (rx (client_fd s)) = negotiation_bytes cr p c @ rest"
    and msgs: "server_decodes (enc_NegotiationRequest cr) (parse_NegotiationRequest cd) grant (negotiation_request cr p c)"
      "client_decodes (ser_NegotiationResponse cd) (dec_NegotiationResponse cr) cgrant (copy_report s content (to_hex (fips_sha256 content)))"
  shows "\<exists>s'. exchange cd grant s s' (sync_file cr cgrant p) c (Inr (to_hex (fips_sha256 content))) c \<and> disk s' = disk s"
proof -
  have hash: "nr_client_sha256_hash (negotiation_request cr p c) = to_hex (fips_sha256 content)"
    using client_reads(2) [OF p(1,3) f(3,4), of cr] sha by (simp add: negotiation_request_def unwrap_or_def)
  show ?thesis
    by (rule sync_decided [OF s p(1,2) f(1,2) stream msgs(1), unfolded hash, OF msgs(2)])
      (simp add: sync_file_def and_then_def copy_report_def)
qed

text \<open>
  C38. A file that only the server has is not downloaded by \<^verbatim>\<open>sync_file\<close>: the empty digest that the client reports
  makes the server answer MODIFIED, the client starts to compute signatures of a file it does not have, and the
  call fails.  Nothing changes on either side.
\<close>

theorem sync_missing_local_fails:
  assumes s: "session_open s" "session_inv s" and p: "plain_path p" "CHR 0x00 \<notin> set (file_root s)" "CHR 0x00 \<notin> set (sync_root (tc_file_ops c))"
    and f: "file_at (disk s) (target_key (file_root s) (disk s) p) = Some stored" "no_read (disk s) = []"
    and none: "node_at (local_disk c) (target_key (sync_root (tc_file_ops c)) (local_disk c) p) = None"
    and same: "sync_root (delta_engine c) = sync_root (tc_file_ops c)"
    and stream: "rx_bytes (rx (client_fd s)) = negotiation_bytes cr p c @ rest"
    and msgs: "server_decodes (enc_NegotiationRequest cr) (parse_NegotiationRequest cd) grant (negotiation_request cr p c)"
      "client_decodes (ser_NegotiationResponse cd) (dec_NegotiationResponse cr) cgrant (copy_report s stored [])"
  shows "\<exists>s'. exchange cd grant s s' (sync_file cr cgrant p) c (Inl (Err (FileIo ''Cannot stat''))) c \<and> disk s' = disk s"
proof -
  have node: "os_node (local_disk c) (client_resolve_path (tc_file_ops c) p) = None"
    using none client_names(5-8) [OF p(1,3), of "local_disk c" "local_disk c"] by (simp add: os_node_def)
  then have hash: "nr_client_sha256_hash (negotiation_request cr p c) = []"
    by (simp add: negotiation_request_def client_sha256_def sha256_file_def rs_open_def open_in_def unwrap_or_def)
  have "client_resolve_path (delta_engine c) p = client_resolve_path (tc_file_ops c) p" using same by (simp add: client_resolve_path_def)
  then have sigs: "compute_signatures cgrant cr (delta_engine c) p (local_disk c) = Inl (Err (FileIo ''Cannot stat''))"
    using node by (simp add: compute_signatures_def client_file_size_def rs_metadata_def)
  have ne: "to_hex (fips_sha256 stored) \<noteq> []" using file_digest.digest_nonempty [of stored] by (simp add: sha256_raw_eq)
  show ?thesis
    by (rule sync_decided [OF s p(1,2) f stream msgs(1), unfolded hash, OF msgs(2)])
      (use ne sigs in \<open>simp add: sync_file_def delta_sync_upload_def client_step copy_report_def\<close>)
qed

section \<open>Block transfers\<close>

definition signature_bytes :: "crates \<Rightarrow> u32 \<Rightarrow> u32 \<Rightarrow> string \<Rightarrow> byte list \<Rightarrow> byte list" where
  "signature_bytes cr conn_bs bs p content = encode_frame \<lparr>message_type = MSG_DELTA_SYNC_SIGNATURE_REQUEST,
     payload = enc_DeltaSyncSignatureRequest cr (signature_message conn_bs bs p content)\<rparr>"

definition blocks_bytes :: "crates \<Rightarrow> u32 \<Rightarrow> string \<Rightarrow> byte list \<Rightarrow> u32 list \<Rightarrow> byte list" where
  "blocks_bytes cr bs p content ids = concat (map (encode_frame \<circ> block_frame cr) (block_messages bs p content ids))"

text \<open>The signatures in the client's message are the ones the server's comparison is specified for.\<close>

lemma message_signatures:
  "map signature_of_message (sr_signatures (signature_message conn_bs bs p content)) = signatures_of bs content"
  by (simp add: signature_message_def build_signature_request_def file_signatures_def signatures_of_def signature_of_message_def Let_def)

lemma server_signatures:
  assumes on: "session_open s" and stream: "rx_bytes (rx (client_fd s)) = signature_bytes cr conn_bs bs p content @ rest"
    and msg: "server_decodes (enc_DeltaSyncSignatureRequest cr) (parse_DeltaSyncSignatureRequest cd) grant (signature_message conn_bs bs p content)"
    and run: "handle_signature_request (delta_sync_handler s) grant (disk s) (file_mutex s) p (word_of_nat (length content)) conn_bs (signatures_of bs content) =
      (Inr \<lparr>req_relative_path = p, requested_indices = ids\<rparr>, locks)"
  defines "resp \<equiv> ser_DeltaSyncBlockRequest cd \<lparr>br_relative_path = p, br_requested_block_indices = ids\<rparr>"
  assumes len: "length resp < 2 ^ 31"
  obtains fd where "session_step cd grant s (s\<lparr>client_fd := fd, file_mutex := locks, sess_state := READY\<rparr>)" "rx_bytes (rx fd) = rest"
    "tx fd = tx (client_fd s) @ encode_frame \<lparr>message_type = MSG_DELTA_SYNC_BLOCK_REQUEST, payload = resp\<rparr>" "tx_ok (tx_plan fd)"
proof -
  let ?sm = "signature_message conn_bs bs p content"
  obtain fd where fd: "rx_bytes (rx fd) = rest" "tx fd = tx (client_fd s)" "tx_plan fd = tx_plan (client_fd s)"
    and step: "\<And>s'. dispatch cd grant \<lparr>message_type = MSG_DELTA_SYNC_SIGNATURE_REQUEST, payload = enc_DeltaSyncSignatureRequest cr ?sm\<rparr> (s\<lparr>client_fd := fd\<rparr>) =
      Some (Inr (), s') \<Longrightarrow> session_step cd grant s s'"
    by (rule frame_turn [OF on stream [unfolded signature_bytes_def] msg]) blast
  let ?s1 = "s\<lparr>client_fd := fd, sess_state := NEGOTIATING, file_mutex := locks\<rparr>"
  have ok: "tx_ok (tx_plan (client_fd ?s1))" using on fd(3) by (simp add: session_open_def)
  have small: "length resp < 2 ^ 32 - FRAME_HEADER_SIZE" using len by (simp add: FRAME_HEADER_SIZE_def)
  obtain fd' where fd': "send_message MSG_DELTA_SYNC_BLOCK_REQUEST resp ?s1 = ?s1\<lparr>client_fd := fd'\<rparr>" "rx fd' = rx (client_fd ?s1)" "tx_ok (tx_plan fd')"
    "tx fd' = tx (client_fd ?s1) @ encode_frame \<lparr>message_type = MSG_DELTA_SYNC_BLOCK_REQUEST, payload = resp\<rparr>"
    by (rule send_message_ok [OF ok small])
  have fields: "sr_relative_path ?sm = p" "sr_file_size ?sm = word_of_nat (length content)" "sr_block_size ?sm = conn_bs"
    by (simp_all add: signature_message_def build_signature_request_def)
  have "handle_delta_sync_signature_request cd grant (enc_DeltaSyncSignatureRequest cr ?sm) (s\<lparr>client_fd := fd\<rparr>) =
      (Inr (), s\<lparr>client_fd := fd', file_mutex := locks, sess_state := READY\<rparr>)"
    using msg run fd'(1) fields message_signatures [of conn_bs bs p content]
    by (simp add: handle_delta_sync_signature_request_def server_decodes_def resp_def Let_def)
  then have "session_step cd grant s (s\<lparr>client_fd := fd', file_mutex := locks, sess_state := READY\<rparr>)" using step by (simp add: dispatch_def)
  then show ?thesis by (rule that) (use fd fd' in simp_all)
qed

text \<open>
  A whole conversation: signatures, the requested indices, their blocks, the completion.  What the blocks do to
  the session is left open.
\<close>

lemma delta_conversation:
  assumes on: "session_open s" and bs: "fo_block_size (delta_engine c) = bs"
    and stream: "rx_bytes (rx (client_fd s)) = signature_bytes cr (tc_block_size c) bs p content @ blocks_bytes cr bs p content ids @ rest"
    and readable: "block_readable cgrant (delta_engine c) (local_disk c) p content" "sync_root (tc_file_ops c) = sync_root (delta_engine c)"
    and sha: "\<And>d. sha2_hex cr d = to_hex (fips_sha256 d)"
    and run: "handle_signature_request (delta_sync_handler s) grant (disk s) (file_mutex s) p (word_of_nat (length content)) (tc_block_size c) (signatures_of bs content) =
      (Inr \<lparr>req_relative_path = p, requested_indices = ids\<rparr>, locks)"
    and msg: "server_decodes (enc_DeltaSyncSignatureRequest cr) (parse_DeltaSyncSignatureRequest cd) grant (signature_message (tc_block_size c) bs p content)"
    and req: "client_decodes (ser_DeltaSyncBlockRequest cd) (dec_DeltaSyncBlockRequest cr) cgrant \<lparr>br_relative_path = p, br_requested_block_indices = ids\<rparr>"
    and compl: "client_decodes (ser_DeltaSyncComplete cd) (dec_DeltaSyncComplete cr) cgrant
      \<lparr>dc_relative_path = p, dc_status = STATUS_OK, dc_error_message = [], dc_final_sha256_hash = to_hex (sha256_raw final)\<rparr>"
    and blocks: "\<And>fd. rx_bytes (rx fd) = blocks_bytes cr bs p content ids @ rest \<Longrightarrow> tx_ok (tx_plan fd) \<Longrightarrow>
      session_step cd grant s (s\<lparr>client_fd := fd, file_mutex := locks, sess_state := READY\<rparr>) \<Longrightarrow>
      \<exists>s'. (session_step cd grant)\<^sup>*\<^sup>* (s\<lparr>client_fd := fd, file_mutex := locks, sess_state := READY\<rparr>) s' \<and>
        rx_bytes (rx (client_fd s')) = rest \<and> tx (client_fd s') = tx fd @ encode_frame (delta_complete cd p final) \<and> Q s'"
  obtains s' answer where "(session_step cd grant)\<^sup>*\<^sup>* s s'" "rx_bytes (rx (client_fd s')) = rest" "tx (client_fd s') = tx (client_fd s) @ answer" "Q s'"
    "\<And>st. incoming st = answer \<Longrightarrow> takes st = None \<Longrightarrow> delta_sync_upload cr cgrant p (c\<lparr>tc_stream := Some st\<rparr>) =
       (Inr (to_hex (sha256_raw final)), c\<lparr>tc_stream := Some (st\<lparr>incoming := [],
          outgoing := outgoing st @ signature_bytes cr (tc_block_size c) bs p content @ blocks_bytes cr bs p content ids\<rparr>)\<rparr>)"
proof -
  let ?m1 = "ser_DeltaSyncBlockRequest cd \<lparr>br_relative_path = p, br_requested_block_indices = ids\<rparr>"
  let ?done = "\<lparr>dc_relative_path = p, dc_status = STATUS_OK, dc_error_message = [], dc_final_sha256_hash = to_hex (sha256_raw final)\<rparr>"
  have m1: "length ?m1 < 2 ^ 31" "length ?m1 \<le> cgrant" "dec_DeltaSyncBlockRequest cr ?m1 = Some \<lparr>br_relative_path = p, br_requested_block_indices = ids\<rparr>"
    using req by (auto simp: client_decodes_def)
  obtain fd where fd: "session_step cd grant s (s\<lparr>client_fd := fd, file_mutex := locks, sess_state := READY\<rparr>)" "rx_bytes (rx fd) = blocks_bytes cr bs p content ids @ rest"
    "tx fd = tx (client_fd s) @ encode_frame \<lparr>message_type = MSG_DELTA_SYNC_BLOCK_REQUEST, payload = ?m1\<rparr>" "tx_ok (tx_plan fd)"
    by (rule server_signatures [OF on stream msg run m1(1)])
  obtain s' where s': "(session_step cd grant)\<^sup>*\<^sup>* (s\<lparr>client_fd := fd, file_mutex := locks, sess_state := READY\<rparr>) s'"
    "rx_bytes (rx (client_fd s')) = rest" "tx (client_fd s') = tx fd @ encode_frame (delta_complete cd p final)" "Q s'"
    using blocks [OF fd(2,4,1)] by blast
  have steps: "(session_step cd grant)\<^sup>*\<^sup>* s s'" by (rule converse_rtranclp_into_rtranclp [of "session_step cd grant", OF fd(1) s'(1)])
  have hex: "sha2_hex cr d = sha256_hex d" for d by (simp add: sha sha256_hex_eq sha256_raw_eq)
  show ?thesis
  proof (rule that [OF steps s'(2) _ s'(4)])
    show "tx (client_fd s') = tx (client_fd s) @ encode_frame \<lparr>message_type = MSG_DELTA_SYNC_BLOCK_REQUEST, payload = ?m1\<rparr> @
        encode_frame \<lparr>message_type = MSG_DELTA_SYNC_COMPLETE, payload = ser_DeltaSyncComplete cd ?done\<rparr> @ []"
      using s'(3) fd(3) by (simp add: delta_complete_def)
    show "delta_sync_upload cr cgrant p (c\<lparr>tc_stream := Some st\<rparr>) = (Inr (to_hex (sha256_raw final)), c\<lparr>tc_stream := Some (st\<lparr>incoming := [],
        outgoing := outgoing st @ signature_bytes cr (tc_block_size c) bs p content @ blocks_bytes cr bs p content ids\<rparr>)\<rparr>)"
      if "incoming st = encode_frame \<lparr>message_type = MSG_DELTA_SYNC_BLOCK_REQUEST, payload = ?m1\<rparr> @
          encode_frame \<lparr>message_type = MSG_DELTA_SYNC_COMPLETE, payload = ser_DeltaSyncComplete cd ?done\<rparr> @ []" "takes st = None" for st :: tcp_stream
      using client_delta_ok [of "c\<lparr>tc_stream := Some st\<rparr>" st cgrant p content cr ?m1 "ser_DeltaSyncComplete cd ?done" "[]"
          "\<lparr>br_relative_path = p, br_requested_block_indices = ids\<rparr>" ?done] that readable hex m1 compl bs
      by (simp add: client_decodes_def signature_bytes_def blocks_bytes_def)
  qed
qed

text \<open>All blocks of a file, as the client sends them and as the server expects them.\<close>

lemma all_blocks_carried:
  assumes bs: "block_count (unat bs) (length content) < 2 ^ 32"
  defines "ids \<equiv> map word_of_nat [0..<block_count (unat bs) (length content)]"
  assumes msgs: "\<forall>b \<in> set (block_messages bs p content ids). server_decodes (enc_DeltaSyncBlockData cr) (parse_DeltaSyncBlockData cd) grant b"
  shows "list_all2 (carries_block cd grant p) (map (block_frame cr) (block_messages bs p content ids)) (blocks_of (unat bs) content)"
proof -
  let ?n = "block_count (unat bs) (length content)"
  have idx: "unat (word_of_nat i :: u32) = i" if "i < ?n" for i using that bs by (simp add: unat_of_nat)
  have "filter (\<lambda>i. unat i < ?n) ids = ids" using idx by (auto simp: ids_def intro!: filter_True)
  then have msgs_eq: "block_messages bs p content ids = map (\<lambda>i. requested_block bs p content (word_of_nat i)) [0..<?n]"
    by (simp add: block_messages_def ids_def comp_def)
  have "carries_block cd grant p (block_frame cr (requested_block bs p content (word_of_nat i))) (word_of_nat i, block_of (unat bs) content i)"
    if "i < ?n" for i
  proof -
    have "server_decodes (enc_DeltaSyncBlockData cr) (parse_DeltaSyncBlockData cd) grant (requested_block bs p content (word_of_nat i))"
      using msgs that unfolding msgs_eq by auto
    then show ?thesis
      by (simp add: carries_block_def block_frame_def server_decodes_def block_of_def requested_block_def block_at_def idx [OF that] Let_def)
  qed
  then show ?thesis unfolding msgs_eq blocks_of_def by (simp add: list_all2_conv_all_nth)
qed

text \<open>
  C7. A block transfer of a file that the server does not have, from the client's call to the file on the server:
  when both sides agree on the block size and it does not divide the length of the file, the client sends its
  signatures, the server asks for every block, the client sends them, and gets the digest of its file as the
  result.  The server's file is then the client's, and no other file has changed.
\<close>

theorem client_delta_transfer:
  assumes s: "session_open s" "session_inv s" and p: "plain_path p" "CHR 0x00 \<notin> set (file_root s)"
    and fs: "healthy (disk s)" "writable_place (file_root s) (disk s) p" "node_at (disk s) (target_key (file_root s) (disk s) p) = None"
      "node_at (disk s) (temp_key (file_root s) (disk s) p) = None"
    and bs: "negotiated_block_size s = bs" "tc_block_size c = bs" "fo_block_size (delta_engine c) = bs"
    and readable: "block_readable cgrant (delta_engine c) (local_disk c) p content" "sync_root (tc_file_ops c) = sync_root (delta_engine c)"
    and content: "length content mod unat bs \<noteq> 0" "length content \<le> max_file (disk s)"
    and sha: "\<And>d. sha2_hex cr d = to_hex (fips_sha256 d)"
    and ids: "ids = map word_of_nat [0..<block_count (unat bs) (length content)]"
    and stream: "rx_bytes (rx (client_fd s)) = signature_bytes cr bs bs p content @ blocks_bytes cr bs p content ids @ rest"
    and msgs: "server_decodes (enc_DeltaSyncSignatureRequest cr) (parse_DeltaSyncSignatureRequest cd) grant (signature_message bs bs p content)"
      "\<forall>b \<in> set (block_messages bs p content ids). server_decodes (enc_DeltaSyncBlockData cr) (parse_DeltaSyncBlockData cd) grant b"
      "client_decodes (ser_DeltaSyncBlockRequest cd) (dec_DeltaSyncBlockRequest cr) cgrant \<lparr>br_relative_path = p, br_requested_block_indices = ids\<rparr>"
      "client_decodes (ser_DeltaSyncComplete cd) (dec_DeltaSyncComplete cr) cgrant
        \<lparr>dc_relative_path = p, dc_status = STATUS_OK, dc_error_message = [], dc_final_sha256_hash = to_hex (fips_sha256 content)\<rparr>"
  shows "\<exists>s'. exchange cd grant s s' (delta_sync_upload cr cgrant p) c (Inr (to_hex (fips_sha256 content))) c \<and>
    (\<forall>k. file_at (disk s') k = (if k = target_key (file_root s) (disk s) p then Some content else file_at (disk s) k))"
proof -
  note r = readable(1) [unfolded block_readable_def bs(3)]
  have root: "ds_storage_root (delta_sync_handler s) = file_root s" using s(2) by (simp add: session_inv_def)
  have pos: "0 < unat bs" "block_count (unat bs) (length content) < 2 ^ 32" "length content < 2 ^ 63" using r by auto
  have run: "handle_signature_request (delta_sync_handler s) grant (disk s) (file_mutex s) p (word_of_nat (length content)) (tc_block_size c) (signatures_of bs content) =
      (Inr \<lparr>req_relative_path = p, requested_indices = ids\<rparr>, file_mutex s)"
    using missing_file_request [of p "delta_sync_handler s" "disk s" bs "length content"] p fs(3) pos by (simp add: root bs(2) ids)
  let ?Q = "\<lambda>s'. \<forall>k. file_at (disk s') k = (if k = target_key (file_root s) (disk s) p then Some content else file_at (disk s) k)"
  have blocks: "\<exists>s'. (session_step cd grant)\<^sup>*\<^sup>* (s\<lparr>client_fd := fd, file_mutex := file_mutex s, sess_state := READY\<rparr>) s' \<and>
      rx_bytes (rx (client_fd s')) = rest \<and> tx (client_fd s') = tx fd @ encode_frame (delta_complete cd p content) \<and> ?Q s'"
    if fd: "rx_bytes (rx fd) = blocks_bytes cr bs p content ids @ rest" "tx_ok (tx_plan fd)"
      and st: "session_step cd grant s (s\<lparr>client_fd := fd, file_mutex := file_mutex s, sess_state := READY\<rparr>)" for fd
  proof -
    let ?s1 = "s\<lparr>client_fd := fd, file_mutex := file_mutex s, sess_state := READY\<rparr>"
    have inv1: "session_inv ?s1" using session_step_inv [OF s(2) st] by simp
    have frames: "list_all2 (carries_block cd grant p) (map (block_frame cr) (block_messages bs p content ids)) (blocks_of (unat (negotiated_block_size ?s1)) content)"
      using all_blocks_carried [OF pos(2)] msgs(2) by (simp add: ids bs(1))
    have len: "length (payload (delta_complete cd p content)) < 2 ^ 32 - FRAME_HEADER_SIZE"
      using msgs(4) by (simp add: delta_complete_def client_decodes_def FRAME_HEADER_SIZE_def sha256_raw_eq)
    show ?thesis
      using session_delta_spec [OF inv1 p(1) _ _ _ _ _ _ _ frames _ _ len, of rest] p(2) fs content bs(1) pos(1) fd
      by (auto simp: blocks_bytes_def unat_gt_0 word_neq_0_conv)
  qed
  have compl: "client_decodes (ser_DeltaSyncComplete cd) (dec_DeltaSyncComplete cr) cgrant
      \<lparr>dc_relative_path = p, dc_status = STATUS_OK, dc_error_message = [], dc_final_sha256_hash = to_hex (sha256_raw content)\<rparr>"
    using msgs(4) by (simp add: sha256_raw_eq)
  have stream': "rx_bytes (rx (client_fd s)) = signature_bytes cr (tc_block_size c) bs p content @ blocks_bytes cr bs p content ids @ rest"
    using stream bs(2) by simp
  obtain s' answer where s': "(session_step cd grant)\<^sup>*\<^sup>* s s'" "rx_bytes (rx (client_fd s')) = rest" "tx (client_fd s') = tx (client_fd s) @ answer" "?Q s'"
    and client: "\<And>st. incoming st = answer \<Longrightarrow> takes st = None \<Longrightarrow> delta_sync_upload cr cgrant p (c\<lparr>tc_stream := Some st\<rparr>) =
       (Inr (to_hex (sha256_raw content)), c\<lparr>tc_stream := Some (st\<lparr>incoming := [],
          outgoing := outgoing st @ signature_bytes cr (tc_block_size c) bs p content @ blocks_bytes cr bs p content ids\<rparr>)\<rparr>)"
    by (rule delta_conversation [OF s(1) bs(3) stream' readable sha run _ msgs(3) compl, where Q = ?Q]) (use msgs(1) bs(2) blocks in auto)
  have "exchange cd grant s s' (delta_sync_upload cr cgrant p) c (Inr (to_hex (fips_sha256 content))) c"
    by (rule exchangeI [OF s'(1) _ s'(2,3), where later = "[]" and asked = "signature_bytes cr bs bs p content @ blocks_bytes cr bs p content ids"])
      (use stream client in \<open>simp_all add: bs(2) sha256_raw_eq\<close>)
  with s'(4) show ?thesis by blast
qed

section \<open>A file that changed at its end\<close>

text \<open>Two files that agree in their first \<open>n\<close> blocks and have one more: the server asks for that one.\<close>

lemma tail_block_count:
  assumes "0 < bs" and "length same = n * bs" and "x \<noteq> []" "length x \<le> bs"
  shows "block_count bs (length (same @ x)) = Suc n"
proof -
  have "length (same @ x) + bs - 1 = (length x - 1) + Suc n * bs" using assms(2,3) by (cases x) simp_all
  moreover have "((length x - 1) + Suc n * bs) div bs = Suc n + (length x - 1) div bs"
    using assms(1) by (intro div_mult_self1) simp
  moreover have "(length x - 1) div bs = 0" using assms by (intro div_less) (cases x; simp)
  ultimately show ?thesis by (simp only: block_count_def add_0_right)
qed

lemma changed_tail_request:
  assumes p: "plain_path p" "CHR 0x00 \<notin> set (ds_storage_root h)"
    and f: "file_at fs (target_key (ds_storage_root h) fs p) = Some (same @ old)" "no_read fs = []"
    and bs: "0 < unat bs" "unat bs \<le> grant" and n: "length same = n * unat bs" "Suc n < 2 ^ 32"
    and tails: "old \<noteq> []" "length old \<le> unat bs" "new \<noteq> []" "length new \<le> unat bs"
      "adler32 old \<noteq> adler32 new \<or> fips_sha256 old \<noteq> fips_sha256 new"
    and small: "n * unat bs + unat bs < 2 ^ 63" and q: "quiet locks"
  obtains locks' where "handle_signature_request h grant fs locks p (word_of_nat (length (same @ new))) bs (signatures_of bs (same @ new)) =
      (Inr \<lparr>req_relative_path = p, requested_indices = [word_of_nat n]\<rparr>, locks')" "quiet locks'"
proof -
  let ?c = "same @ old" and ?d = "same @ new"
  note count = tail_block_count [OF bs(1) n(1)]
  have cnt: "block_count (unat bs) (length ?c) = Suc n" "block_count (unat bs) (length ?d) = Suc n"
    using count tails by blast+
  have lens: "length ?c < 2 ^ 63" "length ?d < 2 ^ 63" using n(1) tails small by simp_all
  obtain sb cb locks' where req: "handle_signature_request h grant fs locks p (word_of_nat (length ?d)) bs (signatures_of bs ?d) =
      (Inr \<lparr>req_relative_path = p, requested_indices = filter (block_differs (unat bs) ?c (signatures_of bs ?d)) (index_range 0 sb) @ index_range sb cb\<rparr>, locks')"
    and ub: "unat sb = Suc n" "unat cb = Suc n" and q': "quiet locks'"
    using signature_request_spec [OF p f bs lens, of locks "signatures_of bs ?d"] cnt n(2) q by auto
  have "block_differs (unat bs) ?c (signatures_of bs ?d) (word_of_nat i) \<longleftrightarrow> i = n" if "i \<le> n" for i
  proof -
    have i: "unat (word_of_nat i :: u32) = i" using that n(2) by (simp add: unat_of_nat)
    have "block_at (unat bs) ?c i = block_at (unat bs) ?d i" if "i < n"
    proof -
      have "Suc i * unat bs \<le> n * unat bs" using that by (intro mult_right_mono) simp_all
      then show ?thesis using n(1) by (simp add: block_at_def)
    qed
    moreover have "block_at (unat bs) ?c n = old" "block_at (unat bs) ?d n = new" using n(1) tails by (simp_all add: block_at_def)
    ultimately show ?thesis
      using that i client_map_signatures [of bs ?d "word_of_nat i"] cnt(2) n(2) tails(5)
      by (cases "i = n") (auto simp: block_differs_def sha256_hex_inject)
  qed
  then have "filter (block_differs (unat bs) ?c (signatures_of bs ?d)) (map word_of_nat [0..<Suc n]) = [word_of_nat n]"
    by (simp add: filter_map comp_def)
  with that req ub q' show ?thesis by (simp add: index_range_def)
qed

text \<open>The one block arrives as the last one: staged alone in a new file, and published.\<close>

lemma tail_block_published:
  assumes s: "session_open s" "session_inv s" and p: "plain_path p" "CHR 0x00 \<notin> set (file_root s)"
    and fs: "healthy (disk s)" "writable_place (file_root s) (disk s) p" "node_at (disk s) (temp_key (file_root s) (disk s) p) = None"
    and stream: "rx_bytes (rx (client_fd s)) = encode_frame f @ rest" and f: "carries_block cd grant p f (i, word_of_nat offset, data)"
    and data: "data \<noteq> []" "length data < unat (negotiated_block_size s)" "offset + length data \<le> max_file (disk s)"
    and len: "length (payload (delta_complete cd p (replicate offset 0 @ data))) < 2 ^ 31"
  obtains s' where "session_step cd grant s s'" "rx_bytes (rx (client_fd s')) = rest"
    "tx (client_fd s') = tx (client_fd s) @ encode_frame (delta_complete cd p (replicate offset 0 @ data))"
    "\<forall>k. file_at (disk s') k = (if k = target_key (file_root s) (disk s) p then Some (replicate offset 0 @ data) else file_at (disk s) k)"
proof -
  let ?h = "delta_sync_handler s" and ?new = "replicate offset 0 @ data"
  have root: "ds_storage_root ?h = file_root s" and wf: "storage_wf (disk s)" and q: "quiet (file_mutex s)" and max: "max_file (disk s) < 2 ^ 63"
    using s(2) by (auto simp: session_inv_def sound_storage_def)
  have off: "sint (word_of_nat offset :: u64) = int offset" using sint_offset [of offset] data(3) max by simp
  have none: "content_or_empty (file_at (disk s) (temp_key (file_root s) (disk s) p)) = []" "file_at (disk s) (temp_key (file_root s) (disk s) p) = None"
    using fs(3) by (simp_all add: file_at_def content_or_empty_def)
  obtain fs' locks' h' where r: "receive_blocks (unat (negotiated_block_size s)) p [(i, word_of_nat offset, data)] ?h (disk s) (file_mutex s) =
      (Inr STATUS_OK, fs', locks', h')"
    and files: "\<forall>k. file_at fs' k = (if k = target_key (file_root s) (disk s) p then Some (overwrite [] offset data)
       else if k = temp_key (file_root s) (disk s) p then None else file_at (disk s) k)"
    using receive_final_block [of p ?h "disk s" "word_of_nat offset" data "file_mutex s" "unat (negotiated_block_size s)" i,
        unfolded root none(1) off, OF p fs(1) wf fs(2)] data(2,3) q by auto
  have files': "\<forall>k. file_at fs' k = (if k = target_key (file_root s) (disk s) p then Some ?new else file_at (disk s) k)"
    using files none(2) data(1) by (simp add: overwrite_def)
  have h: "handle_block_data ?h (disk s) (file_mutex s) p i (word_of_nat offset) data (sha256_hex data) True = (Inr STATUS_OK, fs', locks', h')"
    using receive_one_block [OF r] data(2) by simp
  have "evolves (ds_storage_root ?h) p (disk s) fs'" using evolves_block_data [OF h] wf by simp
  then have "cwd fs' = cwd (disk s)" "no_read fs' = []" using fs(1) by (simp_all add: evolves_def healthy_def)
  then have sha: "compute_sha256 (file_root s) fs' p = Inr (to_hex (sha256_raw ?new))"
    using compute_sha256_at [OF p, of fs' ?new] files' by (simp add: target_key_def)
  have small: "length (payload (delta_complete cd p ?new)) < 2 ^ 32 - FRAME_HEADER_SIZE" using len by (simp add: FRAME_HEADER_SIZE_def)
  have on: "\<not> shutdown_requested s" "sess_state s \<noteq> DISCONNECTED" "tx_ok (tx_plan (client_fd s))" using s(1) by (simp_all add: session_open_def)
  obtain fd where st: "session_step cd grant s (s\<lparr>client_fd := fd, disk := fs', file_mutex := locks', delta_sync_handler := h', sess_state := READY\<rparr>)"
    "rx_bytes (rx fd) = rest" "tx fd = tx (client_fd s) @ encode_frame (delta_complete cd p ?new)"
    by (rule final_block_turn [OF on(1,2) stream f data(2) h sha on(3) small])
  from st(1) show ?thesis by (rule that) (use st(2,3) files' in simp_all)
qed

lemma tail_delta_conversation:
  assumes s: "session_open s" "session_inv s" and p: "plain_path p" "CHR 0x00 \<notin> set (file_root s)"
    and fs: "healthy (disk s)" "writable_place (file_root s) (disk s) p" "node_at (disk s) (temp_key (file_root s) (disk s) p) = None"
      "file_at (disk s) (target_key (file_root s) (disk s) p) = Some (same @ old)"
    and bs: "negotiated_block_size s = bs" "tc_block_size c = bs" "fo_block_size (delta_engine c) = bs" "unat bs \<le> grant"
    and readable: "block_readable cgrant (delta_engine c) (local_disk c) p (same @ new)" "sync_root (tc_file_ops c) = sync_root (delta_engine c)"
    and files: "length same = n * unat bs" "Suc n < 2 ^ 32" "old \<noteq> []" "length old \<le> unat bs" "new \<noteq> []" "length new < unat bs"
      "n * unat bs + unat bs \<le> max_file (disk s)"
    and differ: "adler32 old \<noteq> adler32 new \<or> fips_sha256 old \<noteq> fips_sha256 new" and sha: "\<And>d. sha2_hex cr d = to_hex (fips_sha256 d)"
    and stream: "rx_bytes (rx (client_fd s)) = signature_bytes cr bs bs p (same @ new) @ blocks_bytes cr bs p (same @ new) [word_of_nat n] @ rest"
    and msgs: "server_decodes (enc_DeltaSyncSignatureRequest cr) (parse_DeltaSyncSignatureRequest cd) grant (signature_message bs bs p (same @ new))"
      "server_decodes (enc_DeltaSyncBlockData cr) (parse_DeltaSyncBlockData cd) grant (requested_block bs p (same @ new) (word_of_nat n))"
      "client_decodes (ser_DeltaSyncBlockRequest cd) (dec_DeltaSyncBlockRequest cr) cgrant \<lparr>br_relative_path = p, br_requested_block_indices = [word_of_nat n]\<rparr>"
      "client_decodes (ser_DeltaSyncComplete cd) (dec_DeltaSyncComplete cr) cgrant \<lparr>dc_relative_path = p, dc_status = STATUS_OK, dc_error_message = [],
         dc_final_sha256_hash = to_hex (fips_sha256 (replicate (n * unat bs) 0 @ new))\<rparr>"
  defines "result \<equiv> replicate (n * unat bs) 0 @ new"
  obtains s' answer where "(session_step cd grant)\<^sup>*\<^sup>* s s'" "rx_bytes (rx (client_fd s')) = rest" "tx (client_fd s') = tx (client_fd s) @ answer"
    "\<forall>k. file_at (disk s') k = (if k = target_key (file_root s) (disk s) p then Some result else file_at (disk s) k)"
    "\<And>st. incoming st = answer \<Longrightarrow> takes st = None \<Longrightarrow> delta_sync_upload cr cgrant p (c\<lparr>tc_stream := Some st\<rparr>) =
       (Inr (to_hex (fips_sha256 result)), c\<lparr>tc_stream := Some (st\<lparr>incoming := [],
          outgoing := outgoing st @ signature_bytes cr bs bs p (same @ new) @ blocks_bytes cr bs p (same @ new) [word_of_nat n]\<rparr>)\<rparr>)"
proof -
  let ?c = "same @ new" and ?h = "delta_sync_handler s" and ?ids = "[word_of_nat n :: u32]"
  note r = readable(1) [unfolded block_readable_def bs(3)]
  have root: "ds_storage_root ?h = file_root s" and q: "quiet (file_mutex s)" and max: "max_file (disk s) < 2 ^ 63"
    using s(2) by (auto simp: session_inv_def)
  have pos: "0 < unat bs" and nr: "no_read (disk s) = []" using r fs(1) by (auto simp: healthy_def)
  obtain locks where run: "handle_signature_request ?h grant (disk s) (file_mutex s) p (word_of_nat (length ?c)) (tc_block_size c) (signatures_of bs ?c) =
      (Inr \<lparr>req_relative_path = p, requested_indices = ?ids\<rparr>, locks)"
    unfolding bs(2)
    by (rule changed_tail_request [of p ?h "disk s" same old bs grant n new "file_mutex s"]) (use p fs(4) nr pos bs(4) files differ max q root in auto)
  have blk: "block_messages bs p ?c ?ids = [requested_block bs p ?c (word_of_nat n)]"
    using tail_block_count [OF pos files(1,5)] files(2,6) by (simp add: block_messages_def unat_of_nat)
  have carried: "carries_block cd grant p (block_frame cr (requested_block bs p ?c (word_of_nat n))) (word_of_nat n, word_of_nat (n * unat bs), new)"
    using msgs(2) files(1,2,6) by (simp add: carries_block_def block_frame_def server_decodes_def requested_block_def block_at_def unat_of_nat Let_def)
  let ?Q = "\<lambda>s'. \<forall>k. file_at (disk s') k = (if k = target_key (file_root s) (disk s) p then Some result else file_at (disk s) k)"
  have compl: "client_decodes (ser_DeltaSyncComplete cd) (dec_DeltaSyncComplete cr) cgrant
      \<lparr>dc_relative_path = p, dc_status = STATUS_OK, dc_error_message = [], dc_final_sha256_hash = to_hex (sha256_raw result)\<rparr>"
    using msgs(4) by (simp add: sha256_raw_eq result_def)
  have blocks: "\<exists>s'. (session_step cd grant)\<^sup>*\<^sup>* (s\<lparr>client_fd := fd, file_mutex := locks, sess_state := READY\<rparr>) s' \<and>
      rx_bytes (rx (client_fd s')) = rest \<and> tx (client_fd s') = tx fd @ encode_frame (delta_complete cd p result) \<and> ?Q s'"
    if fd: "rx_bytes (rx fd) = blocks_bytes cr bs p ?c ?ids @ rest" "tx_ok (tx_plan fd)"
      and st: "session_step cd grant s (s\<lparr>client_fd := fd, file_mutex := locks, sess_state := READY\<rparr>)" for fd
  proof -
    let ?s2 = "s\<lparr>client_fd := fd, file_mutex := locks, sess_state := READY\<rparr>"
    have s2: "session_open ?s2" "session_inv ?s2" using s(1) fd(2) session_step_inv [OF s(2) st] by (simp_all add: session_open_def)
    have stream2: "rx_bytes (rx (client_fd ?s2)) = encode_frame (block_frame cr (requested_block bs p ?c (word_of_nat n))) @ rest"
      using fd(1) by (simp add: blocks_bytes_def blk)
    obtain s' where s': "session_step cd grant ?s2 s'" "rx_bytes (rx (client_fd s')) = rest"
      "tx (client_fd s') = tx (client_fd ?s2) @ encode_frame (delta_complete cd p result)"
      "\<forall>k. file_at (disk s') k = (if k = target_key (file_root ?s2) (disk ?s2) p then Some result else file_at (disk ?s2) k)"
      by (rule tail_block_published [OF s2 p(1) _ _ _ _ stream2 carried, folded result_def])
        (use p(2) fs files bs(1) compl in \<open>auto simp: delta_complete_def client_decodes_def\<close>)
    then show ?thesis by (intro exI [of _ s']) auto
  qed
  show ?thesis
    by (rule delta_conversation [where Q = ?Q and locks = locks, OF s(1) bs(3) _ readable sha run _ msgs(3) compl blocks])
      (use stream msgs(1) that in \<open>auto simp: bs(2) sha256_raw_eq\<close>)
qed

text \<open>
  C8. A file that both sides have and that differs only in its last, incomplete block: \<^verbatim>\<open>sync_file\<close> reports success,
  but the server's file is not the client's.  The server asks for the one block that differs, stages it in a new
  file and publishes that file, so that everything before the block is replaced by zero bytes; the digest the
  client gets as its result is the one of this file.
\<close>

theorem sync_modified_zeroes:
  assumes s: "session_open s" "session_inv s" and p: "plain_path p" "CHR 0x00 \<notin> set (file_root s)"
    and fs: "healthy (disk s)" "writable_place (file_root s) (disk s) p" "node_at (disk s) (temp_key (file_root s) (disk s) p) = None"
      "file_at (disk s) (target_key (file_root s) (disk s) p) = Some (same @ old)"
    and bs: "negotiated_block_size s = bs" "tc_block_size c = bs" "fo_block_size (delta_engine c) = bs" "unat bs \<le> grant"
    and readable: "block_readable cgrant (delta_engine c) (local_disk c) p (same @ new)" "sync_root (tc_file_ops c) = sync_root (delta_engine c)"
    and files: "length same = n * unat bs" "Suc n < 2 ^ 32" "old \<noteq> []" "length old \<le> unat bs" "new \<noteq> []" "length new < unat bs"
      "n * unat bs + unat bs \<le> max_file (disk s)"
    and differ: "adler32 old \<noteq> adler32 new \<or> fips_sha256 old \<noteq> fips_sha256 new" "fips_sha256 (same @ old) \<noteq> fips_sha256 (same @ new)"
    and sha: "\<And>d. sha2_hex cr d = to_hex (fips_sha256 d)"
    and stream: "rx_bytes (rx (client_fd s)) = negotiation_bytes cr p c @ signature_bytes cr bs bs p (same @ new) @
      blocks_bytes cr bs p (same @ new) [word_of_nat n] @ rest"
    and msgs: "server_decodes (enc_NegotiationRequest cr) (parse_NegotiationRequest cd) grant (negotiation_request cr p c)"
      "server_decodes (enc_DeltaSyncSignatureRequest cr) (parse_DeltaSyncSignatureRequest cd) grant (signature_message bs bs p (same @ new))"
      "server_decodes (enc_DeltaSyncBlockData cr) (parse_DeltaSyncBlockData cd) grant (requested_block bs p (same @ new) (word_of_nat n))"
      "client_decodes (ser_NegotiationResponse cd) (dec_NegotiationResponse cr) cgrant (copy_report s (same @ old) (to_hex (fips_sha256 (same @ new))))"
      "client_decodes (ser_DeltaSyncBlockRequest cd) (dec_DeltaSyncBlockRequest cr) cgrant \<lparr>br_relative_path = p, br_requested_block_indices = [word_of_nat n]\<rparr>"
      "client_decodes (ser_DeltaSyncComplete cd) (dec_DeltaSyncComplete cr) cgrant \<lparr>dc_relative_path = p, dc_status = STATUS_OK, dc_error_message = [],
         dc_final_sha256_hash = to_hex (fips_sha256 (replicate (n * unat bs) 0 @ new))\<rparr>"
  shows "\<exists>s'. exchange cd grant s s' (sync_file cr cgrant p) c (Inr (to_hex (fips_sha256 (replicate (n * unat bs) 0 @ new)))) c \<and>
    (\<forall>k. file_at (disk s') k = (if k = target_key (file_root s) (disk s) p then Some (replicate (n * unat bs) 0 @ new) else file_at (disk s) k))"
proof -
  let ?c = "same @ new" and ?new = "replicate (n * unat bs) 0 @ new" and ?ids = "[word_of_nat n :: u32]"
  note r = readable(1) [unfolded block_readable_def bs(3)]
  have nr: "no_read (disk s) = []" using fs(1) by (simp add: healthy_def)
  have hash: "nr_client_sha256_hash (negotiation_request cr p c) = to_hex (fips_sha256 ?c)"
    using client_reads(2) [of p "tc_file_ops c" "local_disk c" ?c cr] r readable(2) sha by (simp add: negotiation_request_def unwrap_or_def)
  define rep where "rep = copy_report s (same @ old) (to_hex (fips_sha256 ?c))"
  let ?ans1 = "encode_frame \<lparr>message_type = MSG_NEGOTIATION_RESPONSE, payload = ser_NegotiationResponse cd rep\<rparr>"
  let ?asked2 = "signature_bytes cr bs bs p ?c @ blocks_bytes cr bs p ?c ?ids"
  obtain fd where fd: "session_step cd grant s (s\<lparr>client_fd := fd, sess_state := READY\<rparr>)" "rx_bytes (rx fd) = signature_bytes cr bs bs p ?c @ blocks_bytes cr bs p ?c ?ids @ rest"
      "tx fd = tx (client_fd s) @ ?ans1" "tx_ok (tx_plan fd)"
    and neg: "\<And>st more. incoming st = ?ans1 @ more \<Longrightarrow> takes st = None \<Longrightarrow> client_negotiate cr cgrant p (c\<lparr>tc_stream := Some st\<rparr>) =
       (Inr \<lparr>cn_file_mode = np_file_mode rep, cn_transfer_mode = np_transfer_mode rep, cn_server_file_size = np_server_file_size rep,
          cn_server_sha256 = np_server_sha256_hash rep, cn_block_size = np_block_size rep\<rparr>,
        c\<lparr>tc_stream := Some (st\<lparr>incoming := more, outgoing := outgoing st @ negotiation_bytes cr p c\<rparr>)\<rparr>)"
    by (rule sync_start [OF s p fs(4) nr stream msgs(1), unfolded hash, OF msgs(4), folded rep_def]) simp
  let ?s1 = "s\<lparr>client_fd := fd, sess_state := READY\<rparr>"
  have s1: "session_open ?s1" "session_inv ?s1" using s fd(4) session_step_inv [OF s(2) fd(1)] by (simp_all add: session_open_def)
  obtain s' answer where s': "(session_step cd grant)\<^sup>*\<^sup>* ?s1 s'" "rx_bytes (rx (client_fd s')) = rest" "tx (client_fd s') = tx (client_fd ?s1) @ answer"
      "\<forall>k. file_at (disk s') k = (if k = target_key (file_root s) (disk s) p then Some ?new else file_at (disk s) k)"
    and client: "\<And>st. incoming st = answer \<Longrightarrow> takes st = None \<Longrightarrow> delta_sync_upload cr cgrant p (c\<lparr>tc_stream := Some st\<rparr>) =
       (Inr (to_hex (fips_sha256 ?new)), c\<lparr>tc_stream := Some (st\<lparr>incoming := [], outgoing := outgoing st @ ?asked2\<rparr>)\<rparr>)"
    by (rule tail_delta_conversation [OF s1 p(1) _ _ _ _ _ _ bs(2-4) readable files(1-6) _ differ(1) sha _ msgs(2,3,5,6)])
      (use p(2) fs bs(1) files(7) fd(2) in auto)
  have steps: "(session_step cd grant)\<^sup>*\<^sup>* s s'" by (rule converse_rtranclp_into_rtranclp [of "session_step cd grant", OF fd(1) s'(1)])
  have modes: "np_file_mode rep = MODIFIED" "np_transfer_mode rep = DELTA_SYNC"
    using differ(2) by (auto simp: rep_def copy_report_def to_hex_inject Let_def)
  have "exchange cd grant s s' (sync_file cr cgrant p) c (Inr (to_hex (fips_sha256 ?new))) c"
    by (rule exchangeI [OF steps _ s'(2), where asked = "negotiation_bytes cr p c @ ?asked2" and answered = "?ans1 @ answer" and later = "[]"])
      (use stream s'(3) fd(3) neg client modes in \<open>simp_all add: sync_file_def and_then_def\<close>)
  with s'(4) show ?thesis by blast
qed

section \<open>The handshake\<close>

definition hello_bytes :: "crates \<Rightarrow> TcpClient \<Rightarrow> byte list" where
  "hello_bytes cr c = encode_frame \<lparr>message_type = MSG_CLIENT_HELLO, payload = enc_ClientHello cr (client_hello c)\<rparr>"

text \<open>The block sizes that either end takes over from the other: 4 KiB to 1 MiB.\<close>

definition negotiable :: "u32 \<Rightarrow> bool" where
  "negotiable b \<longleftrightarrow> 4096 \<le> b \<and> b \<le> 1048576"

text \<open>
  C40. The handshake from both ends, for whatever block sizes they were configured with.  The session takes over
  the client's block size if it is negotiable (4 KiB to 1 MiB) and otherwise keeps its own; the client takes over the
  answer if it is negotiable and otherwise keeps its own.  So afterwards both sides have the same block size exactly
  when one of the two was negotiable or they were the same before: two unlike ends that both lie outside of the
  range stay apart, and nobody notices.  Neither the client's delta engine nor the server's delta handler and
  negotiator learn of the outcome: they keep the block size they were built with.
\<close>

theorem client_handshake:
  assumes s: "session_open s" and stream: "rx_bytes (rx (client_fd s)) = hello_bytes cr c @ rest"
    and b: "b = (if negotiable (tc_block_size c) then tc_block_size c else negotiated_block_size s)"
    and msgs: "server_decodes (enc_ClientHello cr) (parse_ClientHello cd) grant (client_hello c)"
      "client_decodes (ser_ServerHello cd) (dec_ServerHello cr) cgrant (hello_answer b)"
  shows "\<exists>s' answer. session_step cd grant s s' \<and> rx_bytes (rx (client_fd s')) = rest \<and> tx (client_fd s') = tx (client_fd s) @ answer \<and>
    negotiated_block_size s' = b \<and> delta_sync_handler s' = delta_sync_handler s \<and> negotiator s' = negotiator s \<and>
    (\<forall>st. incoming st = answer \<and> takes st = None \<longrightarrow>
      (\<exists>c'. connect cr cgrant (Some st) c = (Inr (), c') \<and> connected c' \<and> delta_engine c' = delta_engine c \<and>
        tc_block_size c' = (if negotiable b then b else tc_block_size c) \<and>
        (tc_block_size c' = negotiated_block_size s' \<longleftrightarrow> negotiable (tc_block_size c) \<or>
          negotiable (negotiated_block_size s) \<or> tc_block_size c = negotiated_block_size s) \<and>
        tc_stream c' = Some (st\<lparr>incoming := [], outgoing := outgoing st @ hello_bytes cr c\<rparr>)))"
proof -
  let ?f = "\<lparr>message_type = MSG_SERVER_HELLO, payload = ser_ServerHello cd (hello_answer b)\<rparr>"
  obtain fd where fd: "rx_bytes (rx fd) = rest" "tx fd = tx (client_fd s)" "tx_plan fd = tx_plan (client_fd s)"
    and step: "\<And>s'. dispatch cd grant \<lparr>message_type = MSG_CLIENT_HELLO, payload = enc_ClientHello cr (client_hello c)\<rparr> (s\<lparr>client_fd := fd\<rparr>) =
      Some (Inr (), s') \<Longrightarrow> session_step cd grant s s'"
    by (rule frame_turn [OF s stream [unfolded hello_bytes_def] msgs(1)]) blast
  let ?s = "s\<lparr>client_fd := fd\<rparr>" and ?m = "enc_ClientHello cr (client_hello c)"
  have hello: "parse_ClientHello cd ?m (int_size ?m) = Some (client_hello c)" and sock: "tx_ok (tx_plan (client_fd ?s))"
    using msgs(1) s fd(3) by (simp_all add: server_decodes_def session_open_def)
  have b': "b = (if 4096 \<le> ch_block_size (client_hello c) \<and> ch_block_size (client_hello c) \<le> 1048576
      then ch_block_size (client_hello c) else negotiated_block_size ?s)"
    using b by (simp add: client_hello_def negotiable_def)
  have len: "length (ser_ServerHello cd (hello_answer b)) < 2 ^ 32 - FRAME_HEADER_SIZE"
    using msgs(2) by (simp add: client_decodes_def FRAME_HEADER_SIZE_def)
  obtain fd' where fd': "handle_client_hello cd ?m ?s = (Inr (), ?s\<lparr>client_id := ch_client_id (client_hello c),
      protocol_version := ch_protocol_version (client_hello c), negotiated_block_size := b, client_fd := fd', sess_state := READY\<rparr>)"
    "rx fd' = rx (client_fd ?s)" "tx fd' = tx (client_fd ?s) @ encode_frame ?f"
    by (rule handshake_spec [OF hello sock, folded b', OF len])
  let ?s' = "?s\<lparr>client_id := ch_client_id (client_hello c), protocol_version := ch_protocol_version (client_hello c),
      negotiated_block_size := b, client_fd := fd', sess_state := READY\<rparr>"
  have "session_step cd grant s ?s'" using step fd'(1) by (simp add: dispatch_def)
  moreover have "\<exists>c'. connect cr cgrant (Some st) c = (Inr (), c') \<and> connected c' \<and> delta_engine c' = delta_engine c \<and>
        tc_block_size c' = (if negotiable b then b else tc_block_size c) \<and>
        (tc_block_size c' = b \<longleftrightarrow> negotiable (tc_block_size c) \<or>
          negotiable (negotiated_block_size s) \<or> tc_block_size c = negotiated_block_size s) \<and>
        tc_stream c' = Some (st\<lparr>incoming := [], outgoing := outgoing st @ hello_bytes cr c\<rparr>)"
    if st: "incoming st = encode_frame ?f" "takes st = None" for st :: tcp_stream
  proof -
    have "client_read_frame cgrant (st\<lparr>outgoing := outgoing st @ hello_bytes cr c\<rparr>) =
        (Inr ?f, st\<lparr>outgoing := outgoing st @ hello_bytes cr c, incoming := []\<rparr>)"
      using client_read_standard [of "st\<lparr>outgoing := outgoing st @ hello_bytes cr c\<rparr>" ?f "[]" cgrant] st msgs(2)
      by (simp add: client_decodes_def)
    then show ?thesis
      using st msgs(2) b
      by (auto simp: connect_def and_then_def client_write_unbroken hello_bytes_def decoded_def client_decodes_def hello_answer_def
          negotiable_def)
  qed
  ultimately show ?thesis
    by (intro exI [of _ ?s'] exI [of _ "encode_frame ?f"]) (use fd fd' in simp)
qed

section \<open>Frames in both directions\<close>

text \<open>
  C21. Both implementations of the frame format agree: the client reads every frame and every raw-data frame that the
  server writes, and the server, for raw data below 4 GiB, every one that the client writes; each read takes exactly
  the bytes of the frame.
\<close>

theorem wire_interoperable:
  assumes len: "length (payload f) < 2 ^ 32 - 1" "length (payload f) \<le> grant"
    and data: "length data < 2 ^ 32" "length data \<le> grant"
  shows "(incoming st = encode_frame f @ rest \<longrightarrow> client_read_frame grant st = (Inr f, st\<lparr>incoming := rest\<rparr>)) \<and>
    (incoming st = encode_raw_data_header (word_of_nat (length data)) @ data @ rest \<longrightarrow>
       client_read_frame grant st = (Inr \<lparr>message_type = MSG_RAW_DATA, payload = data\<rparr>, st\<lparr>incoming := rest\<rparr>)) \<and>
    (rx_bytes (rx s) = client_encode_frame (message_type f) (payload f) @ rest \<longrightarrow>
       (\<exists>s'. read_frame grant s = (Inr (Some f), s') \<and> rx_bytes (rx s') = rest)) \<and>
    (rx_bytes (rx s) = client_encode_raw_data_header (word_of_nat (length data)) @ data @ rest \<longrightarrow>
       (\<exists>s'. read_frame grant s = (Inr (Some \<lparr>message_type = MSG_RAW_DATA, payload = data\<rparr>), s') \<and> rx_bytes (rx s') = rest))"
proof -
  have n: "unat (word_of_nat (length data) :: u64) = length data" using data(1) by (simp add: unat_of_nat)
  have "length data \<le> vector_max_size" using data(1) by (simp add: vector_max_size_def)
  then have "incoming st = encode_raw_data_header (word_of_nat (length data)) @ data @ rest \<longrightarrow>
       client_read_frame grant st = (Inr \<lparr>message_type = MSG_RAW_DATA, payload = data\<rparr>, st\<lparr>incoming := rest\<rparr>)"
    using client_read_raw [of st "word_of_nat (length data)" data rest grant] n data(2) by simp
  moreover have "rx_bytes (rx s) = client_encode_frame (message_type f) (payload f) @ rest \<longrightarrow>
       (\<exists>s'. read_frame grant s = (Inr (Some f), s') \<and> rx_bytes (rx s') = rest)"
    using read_frame_standard [of s f rest grant] len by (cases f) (auto simp: client_encode_frame_eq)
  moreover have "rx_bytes (rx s) = client_encode_raw_data_header (word_of_nat (length data)) @ data @ rest \<longrightarrow>
       (\<exists>s'. read_frame grant s = (Inr (Some \<lparr>message_type = MSG_RAW_DATA, payload = data\<rparr>), s') \<and> rx_bytes (rx s') = rest)"
    using read_frame_raw [of s "word_of_nat (length data)" data rest grant] n data by (auto simp: client_encode_raw_data_header_eq)
  moreover have "incoming st = encode_frame f @ rest \<longrightarrow> client_read_frame grant st = (Inr f, st\<lparr>incoming := rest\<rparr>)"
    using client_read_standard [of st f rest grant] len by simp
  ultimately show ?thesis by blast
qed

section \<open>Examples\<close>

text \<open>Crates that write one byte for every message, and a client whose files are those of the example storage.\<close>

definition demo_crates :: crates where
  "demo_crates = \<lparr>sha2_hex = (\<lambda>d. to_hex (sha256_raw d)), dir_len = 4096,
     enc_ClientHello = (\<lambda>_. [0]), enc_NegotiationRequest = (\<lambda>_. [0]), enc_ZeroCopyDownloadRequest = (\<lambda>_. [0]),
     enc_ZeroCopyUploadRequest = (\<lambda>_. [0]), enc_DeltaSyncSignatureRequest = (\<lambda>_. [0]),
     enc_DeltaSyncBlockData = (\<lambda>b. replicate (unat (bd_block_index b)) 0), enc_ListFilesRequest = (\<lambda>_. [0]),
     dec_ServerHello = (\<lambda>_. None), dec_NegotiationResponse = (\<lambda>_. None), dec_ZeroCopyDownloadHeader = (\<lambda>_. None),
     dec_ZeroCopyUploadAck = (\<lambda>_. None), dec_DeltaSyncBlockRequest = (\<lambda>_. None),
     dec_DeltaSyncComplete = (\<lambda>_. None), dec_ListFilesResponse = (\<lambda>_. None)\<rparr>"

definition demo_client :: "u32 \<Rightarrow> storage \<Rightarrow> TcpClient" where
  "demo_client bs fs = TcpClient_new ''server:9090'' ''./data'' bs ''77'' fs"

lemma demo_client_simps [simp]:
  "local_disk (demo_client bs fs) = fs" "sync_root (tc_file_ops (demo_client bs fs)) = ''./data''"
  "sync_root (delta_engine (demo_client bs fs)) = ''./data''" "fo_block_size (delta_engine (demo_client bs fs)) = bs"
  "tc_block_size (demo_client bs fs) = bs"
  by (simp_all add: demo_client_def TcpClient_new_def)

lemma demo_crates_simps [simp]:
  "enc_ClientHello demo_crates = (\<lambda>_. [0])" "enc_NegotiationRequest demo_crates = (\<lambda>_. [0])"
  "enc_ZeroCopyDownloadRequest demo_crates = (\<lambda>_. [0])" "enc_ZeroCopyUploadRequest demo_crates = (\<lambda>_. [0])"
  "enc_DeltaSyncSignatureRequest demo_crates = (\<lambda>_. [0])"
  "enc_DeltaSyncBlockData demo_crates = (\<lambda>b. replicate (unat (bd_block_index b)) 0)"
  by (simp_all add: demo_crates_def)

lemma demo_codec_simps [simp]:
  "ser_ServerHello demo_codec = (\<lambda>_. [0])" "ser_NegotiationResponse demo_codec = (\<lambda>_. [0])"
  "ser_ZeroCopyDownloadHeader demo_codec = (\<lambda>_. [0])" "ser_ZeroCopyUploadAck demo_codec = (\<lambda>_. [0])"
  "ser_DeltaSyncBlockRequest demo_codec = (\<lambda>_. [0])" "ser_DeltaSyncComplete demo_codec = (\<lambda>_. [0])"
  "ser_ErrorPayload demo_codec = (\<lambda>_. [0])"
  by (simp_all add: demo_codec_def)

lemma demo_sha: "sha2_hex demo_crates d = to_hex (fips_sha256 d)"
  by (simp add: demo_crates_def sha256_raw_eq)

lemma demo_open [simp]: "session_open (demo_session evs)" "session_open (delta_session evs)"
  by (simp_all add: session_open_def delta_session_def Session_init_def)

lemma demo_inv: "session_inv (demo_session evs)"
  by (rule session_loop.start_invariant [OF demo_session_start])

lemma demo_negotiator [simp]: "ng_block_size (negotiator (demo_session evs)) = 65536"
  by (simp add: demo_session_def Session_init_def)

text \<open>The messages do not depend on the decoders.\<close>

lemma negotiation_request_crates:
  assumes "sha2_hex cr = sha2_hex cr'" and "dir_len cr = dir_len cr'"
  shows "negotiation_request cr p c = negotiation_request cr' p c"
  using assms by (simp add: negotiation_request_def client_file_size_def client_sha256_def sha256_file_def split: option.split node.split)

lemma demo_updates [simp]:
  "negotiation_request (cr\<lparr>dec_NegotiationResponse := d1\<rparr>) p c = negotiation_request cr p c"
  "negotiation_request (cr\<lparr>dec_DeltaSyncBlockRequest := d2\<rparr>) p c = negotiation_request cr p c"
  "negotiation_request (cr\<lparr>dec_DeltaSyncComplete := d3\<rparr>) p c = negotiation_request cr p c"
  by (rule negotiation_request_crates; simp)+

lemma encode_frame_nonempty [simp]: "encode_frame f \<noteq> []"
  by (simp add: encode_frame_be)

lemmas demo_bytes = negotiation_bytes_def download_bytes_def signature_bytes_def blocks_bytes_def block_frame_def

theorem sync_new_file_fails_witness:
  "\<exists>s'. exchange (demo_codec\<lparr>parse_NegotiationRequest := (\<lambda>_ _. Some (negotiation_request demo_crates ''sub/new'' (demo_client 65536 demo_storage))),
        parse_ZeroCopyDownloadRequest := (\<lambda>_ _. Some \<lparr>dr_relative_path = ''sub/new'', dr_offset = 0\<rparr>)\<rparr>) 64
      (demo_session [Recv_data (negotiation_bytes demo_crates ''sub/new'' (demo_client 65536 demo_storage)), Recv_data (download_bytes demo_crates ''sub/new'')]) s'
      (sync_file (demo_crates\<lparr>dec_NegotiationResponse := (\<lambda>_. Some \<lparr>np_file_mode = FRESH, np_transfer_mode = ZERO_COPY,
        np_server_file_size = 0, np_server_sha256_hash = [], np_block_size = 65536\<rparr>)\<rparr>) 64 ''sub/new'')
      (demo_client 65536 demo_storage) (Inl (Err (Connection ''Failed to read frame length''))) (demo_client 65536 demo_storage) \<and>
    disk s' = demo_storage"
proof -
  let ?c = "demo_client 65536 demo_storage"
  let ?s = "demo_session [Recv_data (negotiation_bytes demo_crates ''sub/new'' ?c), Recv_data (download_bytes demo_crates ''sub/new'')]"
  let ?cr = "demo_crates\<lparr>dec_NegotiationResponse := (\<lambda>_. Some \<lparr>np_file_mode = FRESH, np_transfer_mode = ZERO_COPY,
        np_server_file_size = 0, np_server_sha256_hash = [], np_block_size = 65536\<rparr>)\<rparr>"
  let ?cd = "demo_codec\<lparr>parse_NegotiationRequest := (\<lambda>_ _. Some (negotiation_request demo_crates ''sub/new'' ?c)),
        parse_ZeroCopyDownloadRequest := (\<lambda>_ _. Some \<lparr>dr_relative_path = ''sub/new'', dr_offset = 0\<rparr>)\<rparr>"
  have "node_at (disk ?s) (target_key (file_root ?s) (disk ?s) ''sub/new'') = None" "no_read (disk ?s) = []"
    unfolding demo_session_simps by code_simp+
  moreover have "rx_bytes (rx (client_fd ?s)) = negotiation_bytes ?cr ''sub/new'' ?c @ download_bytes ?cr ''sub/new'' @ []"
    by (simp add: demo_bytes)
  ultimately show ?thesis
    using sync_new_file_fails [of ?s "''sub/new''" ?cr ?c "[]" ?cd 64 64] demo_inv demo_storage_facts(1,3)
    by (simp add: server_decodes_def client_decodes_def missing_error_def)
qed

theorem sync_unchanged_witness:
  "\<exists>s'. exchange (demo_codec\<lparr>parse_NegotiationRequest := (\<lambda>_ _. Some (negotiation_request demo_crates ''notes'' (demo_client 65536 demo_storage)))\<rparr>) 64
      (demo_session [Recv_data (negotiation_bytes demo_crates ''notes'' (demo_client 65536 demo_storage))]) s'
      (sync_file (demo_crates\<lparr>dec_NegotiationResponse := (\<lambda>_. Some (copy_report (demo_session []) [1, 2, 3, 4, 5] (to_hex (fips_sha256 [1, 2, 3, 4, 5]))))\<rparr>) 64 ''notes'')
      (demo_client 65536 demo_storage) (Inr (to_hex (fips_sha256 [1, 2, 3, 4, 5]))) (demo_client 65536 demo_storage) \<and>
    disk s' = demo_storage"
proof -
  let ?c = "demo_client 65536 demo_storage" and ?x = "[1, 2, 3, 4, 5] :: byte list"
  let ?s = "demo_session [Recv_data (negotiation_bytes demo_crates ''notes'' ?c)]"
  let ?cr = "demo_crates\<lparr>dec_NegotiationResponse := (\<lambda>_. Some (copy_report (demo_session []) ?x (to_hex (fips_sha256 ?x))))\<rparr>"
  let ?cd = "demo_codec\<lparr>parse_NegotiationRequest := (\<lambda>_ _. Some (negotiation_request demo_crates ''notes'' ?c))\<rparr>"
  have "file_at demo_storage (target_key ''./data'' demo_storage ''notes'') = Some ?x" "no_read demo_storage = []" by code_simp+
  moreover have "rx_bytes (rx (client_fd ?s)) = negotiation_bytes ?cr ''notes'' ?c @ []" by (simp add: demo_bytes)
  moreover have "copy_report ?s = copy_report (demo_session [])" by (simp add: copy_report_def fun_eq_iff)
  ultimately show ?thesis
    using sync_unchanged [of ?s "''notes''" ?c ?x ?cr "[]" ?cd 64 64] demo_inv demo_storage_facts(2,3) demo_sha
    by (simp add: server_decodes_def client_decodes_def)
qed

theorem sync_missing_local_fails_witness:
  "\<exists>s'. exchange (demo_codec\<lparr>parse_NegotiationRequest := (\<lambda>_ _. Some (negotiation_request demo_crates ''notes'' (demo_client 65536 (demo_storage\<lparr>nodes := []\<rparr>))))\<rparr>) 64
      (demo_session [Recv_data (negotiation_bytes demo_crates ''notes'' (demo_client 65536 (demo_storage\<lparr>nodes := []\<rparr>)))]) s'
      (sync_file (demo_crates\<lparr>dec_NegotiationResponse := (\<lambda>_. Some (copy_report (demo_session []) [1, 2, 3, 4, 5] []))\<rparr>) 64 ''notes'')
      (demo_client 65536 (demo_storage\<lparr>nodes := []\<rparr>)) (Inl (Err (FileIo ''Cannot stat''))) (demo_client 65536 (demo_storage\<lparr>nodes := []\<rparr>)) \<and>
    disk s' = demo_storage"
proof -
  let ?c = "demo_client 65536 (demo_storage\<lparr>nodes := []\<rparr>)" and ?x = "[1, 2, 3, 4, 5] :: byte list"
  let ?s = "demo_session [Recv_data (negotiation_bytes demo_crates ''notes'' ?c)]"
  let ?cr = "demo_crates\<lparr>dec_NegotiationResponse := (\<lambda>_. Some (copy_report (demo_session []) ?x []))\<rparr>"
  let ?cd = "demo_codec\<lparr>parse_NegotiationRequest := (\<lambda>_ _. Some (negotiation_request demo_crates ''notes'' ?c))\<rparr>"
  have "file_at demo_storage (target_key ''./data'' demo_storage ''notes'') = Some ?x" "no_read demo_storage = []"
    "node_at (demo_storage\<lparr>nodes := []\<rparr>) (target_key ''./data'' (demo_storage\<lparr>nodes := []\<rparr>) ''notes'') = None"
    by code_simp+
  moreover have "rx_bytes (rx (client_fd ?s)) = negotiation_bytes ?cr ''notes'' ?c @ []" by (simp add: demo_bytes)
  moreover have "copy_report ?s = copy_report (demo_session [])" by (simp add: copy_report_def fun_eq_iff)
  ultimately show ?thesis
    using sync_missing_local_fails [of ?s "''notes''" ?c ?x ?cr "[]" ?cd 64 64] demo_inv demo_storage_facts(2,3)
    by (simp add: server_decodes_def client_decodes_def)
qed

text \<open>A client of 2 KiB: it takes over 64 KiB from the server; it and a server of 1 KiB stay apart.\<close>

definition hello_session :: "u32 \<Rightarrow> Session" where
  "hello_session m = Session_init \<lparr>rx = [Recv_data (hello_bytes demo_crates (demo_client 2048 demo_storage))], tx_plan = [], tx = []\<rparr>
     ''10.0.0.7:4242'' ''./data'' demo_storage FileMutex_init [] m"

definition hello_codec :: codec where
  "hello_codec = demo_codec\<lparr>parse_ClientHello := (\<lambda>_ _. Some (client_hello (demo_client 2048 demo_storage)))\<rparr>"

definition hello_crates :: "u32 \<Rightarrow> crates" where
  "hello_crates m = demo_crates\<lparr>dec_ServerHello := (\<lambda>_. Some (hello_answer m))\<rparr>"

theorem client_handshake_witness:
  "(\<exists>s' st c'. session_step hello_codec 64 (hello_session 65536) s' \<and> negotiated_block_size s' = 65536 \<and>
      connect (hello_crates 65536) 64 (Some st) (demo_client 2048 demo_storage) = (Inr (), c') \<and>
      tc_block_size c' = 65536 \<and> fo_block_size (delta_engine c') = 2048) \<and>
   (\<exists>s' st c'. session_step hello_codec 64 (hello_session 1024) s' \<and> negotiated_block_size s' = 1024 \<and>
      connect (hello_crates 1024) 64 (Some st) (demo_client 2048 demo_storage) = (Inr (), c') \<and> tc_block_size c' = 2048)"
proof -
  let ?c = "demo_client 2048 demo_storage"
  have shake: "\<exists>s' st c'. session_step hello_codec 64 (hello_session m) s' \<and> negotiated_block_size s' = m \<and>
      connect (hello_crates m) 64 (Some st) ?c = (Inr (), c') \<and>
      tc_block_size c' = (if negotiable m then m else 2048) \<and> fo_block_size (delta_engine c') = 2048" for m
  proof -
    have on: "session_open (hello_session m)" by (simp add: session_open_def hello_session_def Session_init_def)
    have stream: "rx_bytes (rx (client_fd (hello_session m))) = hello_bytes (hello_crates m) ?c @ []"
      by (simp add: hello_bytes_def hello_session_def hello_crates_def Session_init_def)
    have b: "m = (if negotiable (tc_block_size ?c) then tc_block_size ?c else negotiated_block_size (hello_session m))"
      by (simp add: negotiable_def hello_session_def Session_init_def)
    have msgs: "server_decodes (enc_ClientHello (hello_crates m)) (parse_ClientHello hello_codec) 64 (client_hello ?c)"
      "client_decodes (ser_ServerHello hello_codec) (dec_ServerHello (hello_crates m)) 64 (hello_answer m)"
      by (simp_all add: server_decodes_def client_decodes_def hello_crates_def hello_codec_def)
    obtain s' answer where s': "session_step hello_codec 64 (hello_session m) s'" "negotiated_block_size s' = m"
      and c': "\<And>st. incoming st = answer \<Longrightarrow> takes st = None \<Longrightarrow> \<exists>c'. connect (hello_crates m) 64 (Some st) ?c = (Inr (), c') \<and>
        delta_engine c' = delta_engine ?c \<and> tc_block_size c' = (if negotiable m then m else tc_block_size ?c)"
      using client_handshake [OF on stream b msgs] by blast
    obtain c' where "connect (hello_crates m) 64 (Some \<lparr>incoming = answer, outgoing = [], takes = None\<rparr>) ?c = (Inr (), c')"
      "delta_engine c' = delta_engine ?c" "tc_block_size c' = (if negotiable m then m else 2048)"
      using c' [of "\<lparr>incoming = answer, outgoing = [], takes = None\<rparr>"] by auto
    moreover from this(2) have "fo_block_size (delta_engine c') = 2048" by simp
    ultimately show ?thesis using s' by blast
  qed
  have "negotiable 65536" "\<not> negotiable 1024" by (simp_all add: negotiable_def)
  with shake [of 65536] shake [of 1024] show ?thesis by auto
qed

theorem wire_interoperable_witness:
  "client_read_frame 64 \<lparr>incoming = encode_frame \<lparr>message_type = 7, payload = [1, 2]\<rparr> @ [9], outgoing = [], takes = None\<rparr> =
     (Inr \<lparr>message_type = 7, payload = [1, 2]\<rparr>, \<lparr>incoming = [9], outgoing = [], takes = None\<rparr>) \<and>
   (\<exists>s'. read_frame 64 \<lparr>rx = [Recv_data (client_encode_frame 7 [1, 2])], tx_plan = [], tx = []\<rparr> = (Inr (Some \<lparr>message_type = 7, payload = [1, 2]\<rparr>), s'))"
proof -
  have "rx_bytes [Recv_data (client_encode_frame 7 [1, 2])] = client_encode_frame 7 [1, 2] @ []" by (simp add: client_encode_frame_eq)
  then show ?thesis
    using wire_interoperable [of "\<lparr>message_type = 7, payload = [1, 2]\<rparr>" 64 "[]" "\<lparr>incoming = encode_frame \<lparr>message_type = 7, payload = [1, 2]\<rparr> @ [9], outgoing = [], takes = None\<rparr>" "[9]"]
      wire_interoperable [of "\<lparr>message_type = 7, payload = [1, 2]\<rparr>" 64 "[]" _ "[]" "\<lparr>rx = [Recv_data (client_encode_frame 7 [1, 2])], tx_plan = [], tx = []\<rparr>"]
    by auto
qed

text \<open>A client with two files.\<close>

definition laptop :: "byte list \<Rightarrow> byte list \<Rightarrow> storage" where
  "laptop notes_data new_data = demo_storage\<lparr>nodes := [([''srv''], Dir), ([''srv'', ''data''], Dir),
     ([''srv'', ''data'', ''notes''], File notes_data 100), ([''srv'', ''data'', ''sub''], Dir), ([''srv'', ''data'', ''sub'', ''new''], File new_data 100)]\<rparr>"

lemma laptop_readable:
  assumes "p = ''notes'' \<and> content = a \<or> p = ''sub/new'' \<and> content = b" and "length content \<le> 1000"
  shows "block_readable 64 \<lparr>sync_root = ''./data'', fo_block_size = 2\<rparr> (laptop a b) p content"
proof -
  have "target_key ''./data'' (laptop a b) ''notes'' = [''srv'', ''data'', ''notes'']"
    "target_key ''./data'' (laptop a b) ''sub/new'' = [''srv'', ''data'', ''sub'', ''new'']"
    using demo_fresh(3,4) by (simp_all add: target_key_def laptop_def)
  then have "file_at (laptop a b) (target_key ''./data'' (laptop a b) p) = Some content"
    using assms(1) by (auto simp: file_at_def node_at_def laptop_def)
  moreover have "block_count 2 (length content) < 2 ^ 32" using assms(2) by (simp add: block_count_def)
  moreover have "no_read (laptop a b) = []" using demo_storage_facts(4) by (simp add: laptop_def healthy_def)
  ultimately show ?thesis
    using assms demo_storage_facts(1-3) by (auto simp: block_readable_def MAX_RW_COUNT_def)
qed

definition block_codec :: "string \<Rightarrow> byte list \<Rightarrow> codec" where
  "block_codec p content = demo_codec\<lparr>
     parse_DeltaSyncSignatureRequest := (\<lambda>_ _. Some (signature_message 2 2 p content)),
     parse_DeltaSyncBlockData := (\<lambda>msg _. Some (requested_block 2 p content (word_of_nat (length msg))))\<rparr>"

definition block_crates :: "string \<Rightarrow> u32 list \<Rightarrow> byte list \<Rightarrow> crates" where
  "block_crates p ids final = demo_crates\<lparr>
     dec_DeltaSyncBlockRequest := (\<lambda>_. Some \<lparr>br_relative_path = p, br_requested_block_indices = ids\<rparr>),
     dec_DeltaSyncComplete := (\<lambda>_. Some \<lparr>dc_relative_path = p, dc_status = STATUS_OK, dc_error_message = [],
       dc_final_sha256_hash = to_hex (fips_sha256 final)\<rparr>)\<rparr>"

lemma block_decodes:
  "server_decodes (enc_DeltaSyncSignatureRequest (block_crates p ids final)) (parse_DeltaSyncSignatureRequest (block_codec p content)) 64 (signature_message 2 2 p content)"
  "unat i \<le> 64 \<Longrightarrow> server_decodes (enc_DeltaSyncBlockData (block_crates p ids final)) (parse_DeltaSyncBlockData (block_codec p content)) 64 (requested_block 2 p content i)"
  "client_decodes (ser_DeltaSyncBlockRequest (block_codec p content)) (dec_DeltaSyncBlockRequest (block_crates p ids final)) 64 \<lparr>br_relative_path = p, br_requested_block_indices = ids\<rparr>"
  "client_decodes (ser_DeltaSyncComplete (block_codec p content)) (dec_DeltaSyncComplete (block_crates p ids final)) 64
     \<lparr>dc_relative_path = p, dc_status = STATUS_OK, dc_error_message = [], dc_final_sha256_hash = to_hex (fips_sha256 final)\<rparr>"
  "sha2_hex (block_crates p ids final) d = to_hex (fips_sha256 d)"
  by (simp_all add: server_decodes_def client_decodes_def block_codec_def block_crates_def requested_block_def Let_def demo_sha)

theorem client_delta_transfer_witness:
  "\<exists>s'. exchange (block_codec ''sub/new'' [1, 2, 3]) 64
      (delta_session [Recv_data (signature_bytes (block_crates ''sub/new'' [0, 1] [1, 2, 3]) 2 2 ''sub/new'' [1, 2, 3] @
         blocks_bytes (block_crates ''sub/new'' [0, 1] [1, 2, 3]) 2 ''sub/new'' [1, 2, 3] [0, 1])]) s'
      (delta_sync_upload (block_crates ''sub/new'' [0, 1] [1, 2, 3]) 64 ''sub/new'') (demo_client 2 (laptop [] [1, 2, 3]))
      (Inr (to_hex (fips_sha256 [1, 2, 3]))) (demo_client 2 (laptop [] [1, 2, 3])) \<and>
    file_at (disk s') [''srv'', ''data'', ''sub'', ''new''] = Some [1, 2, 3]"
proof -
  let ?p = "''sub/new''" and ?x = "[1, 2, 3] :: byte list" and ?ids = "[0, 1] :: u32 list"
  let ?cr = "block_crates ?p ?ids ?x" and ?cd = "block_codec ?p ?x" and ?c = "demo_client 2 (laptop [] ?x)"
  let ?s = "delta_session [Recv_data (signature_bytes ?cr 2 2 ?p ?x @ blocks_bytes ?cr 2 ?p ?x ?ids)]"
  have ids: "?ids = map word_of_nat [0..<block_count (unat (2 :: u32)) (length ?x)]" by code_simp
  have fs: "node_at demo_storage (target_key ''./data'' demo_storage ?p) = None" by code_simp
  have readable: "block_readable 64 \<lparr>sync_root = ''./data'', fo_block_size = 2\<rparr> (laptop [] ?x) ?p ?x" by (rule laptop_readable) simp_all
  have engine: "delta_engine ?c = \<lparr>sync_root = ''./data'', fo_block_size = 2\<rparr>" by (simp add: demo_client_def TcpClient_new_def)
  have small: "\<forall>b \<in> set (block_messages 2 ?p ?x ?ids). server_decodes (enc_DeltaSyncBlockData ?cr) (parse_DeltaSyncBlockData ?cd) 64 b"
    using block_decodes(2) by (auto simp: block_messages_def)
  have stream: "rx_bytes (rx (client_fd ?s)) = signature_bytes ?cr 2 2 ?p ?x @ blocks_bytes ?cr 2 ?p ?x ?ids @ []"
    by (simp add: signature_bytes_def)
  have "\<exists>s'. exchange ?cd 64 ?s s' (delta_sync_upload ?cr 64 ?p) ?c (Inr (to_hex (fips_sha256 ?x))) ?c \<and>
      (\<forall>k. file_at (disk s') k = (if k = target_key (file_root ?s) (disk ?s) ?p then Some ?x else file_at (disk ?s) k))"
    by (rule client_delta_transfer [OF demo_open(2) delta_session_inv _ _ _ _ _ _ _ _ _ _ _ _ _ block_decodes(5) ids stream block_decodes(1) small block_decodes(3,4)])
      (use demo_storage_facts demo_fresh fs readable in \<open>simp_all add: engine\<close>)
  then show ?thesis using demo_fresh(3) by auto
qed

text \<open>The first bytes of two digests, computed by the server's routine.\<close>

lemma demo_digest_old: "hd (sha256_raw [1, 2, 3, 4, 5]) = 0x74"
  by code_simp

lemma demo_digest_new: "hd (sha256_raw [1, 2, 3, 4, 9]) = 0xf2"
  by code_simp

theorem sync_modified_zeroes_witness:
  "\<exists>s'. exchange ((block_codec ''notes'' [1, 2, 3, 4, 9])\<lparr>parse_NegotiationRequest := (\<lambda>_ _. Some (negotiation_request demo_crates ''notes'' (demo_client 2 (laptop [1, 2, 3, 4, 9] []))))\<rparr>) 64
      (delta_session [Recv_data (negotiation_bytes demo_crates ''notes'' (demo_client 2 (laptop [1, 2, 3, 4, 9] [])) @
         signature_bytes demo_crates 2 2 ''notes'' [1, 2, 3, 4, 9] @ blocks_bytes demo_crates 2 ''notes'' [1, 2, 3, 4, 9] [2])]) s'
      (sync_file ((block_crates ''notes'' [2] [0, 0, 0, 0, 9])\<lparr>dec_NegotiationResponse := (\<lambda>_. Some (copy_report (delta_session []) [1, 2, 3, 4, 5] (to_hex (fips_sha256 [1, 2, 3, 4, 9]))))\<rparr>) 64 ''notes'')
      (demo_client 2 (laptop [1, 2, 3, 4, 9] [])) (Inr (to_hex (fips_sha256 [0, 0, 0, 0, 9]))) (demo_client 2 (laptop [1, 2, 3, 4, 9] [])) \<and>
    file_at (disk s') [''srv'', ''data'', ''notes''] = Some [0, 0, 0, 0, 9]"
proof -
  let ?p = "''notes''" and ?same = "[1, 2, 3, 4] :: byte list" and ?c = "demo_client 2 (laptop [1, 2, 3, 4, 9] [])" and ?new = "[1, 2, 3, 4, 9] :: byte list"
  let ?cd = "(block_codec ?p ?new)\<lparr>parse_NegotiationRequest := (\<lambda>_ _. Some (negotiation_request demo_crates ?p ?c))\<rparr>"
  let ?cr = "(block_crates ?p [2] [0, 0, 0, 0, 9])\<lparr>dec_NegotiationResponse := (\<lambda>_. Some (copy_report (delta_session []) [1, 2, 3, 4, 5] (to_hex (fips_sha256 ?new))))\<rparr>"
  let ?s = "delta_session [Recv_data (negotiation_bytes demo_crates ?p ?c @ signature_bytes demo_crates 2 2 ?p ?new @ blocks_bytes demo_crates 2 ?p ?new [2])]"
  have engine: "delta_engine ?c = \<lparr>sync_root = ''./data'', fo_block_size = 2\<rparr>" by (simp add: demo_client_def TcpClient_new_def)
  have readable: "block_readable 64 \<lparr>sync_root = ''./data'', fo_block_size = 2\<rparr> (laptop ?new []) ?p (?same @ [9])" by (rule laptop_readable) simp_all
  have stream: "rx_bytes (rx (client_fd ?s)) = negotiation_bytes ?cr ?p ?c @ signature_bytes ?cr 2 2 ?p (?same @ [9]) @ blocks_bytes ?cr 2 ?p (?same @ [9]) [word_of_nat 2] @ []"
    by (simp add: demo_bytes block_crates_def comp_def)
  have differ: "adler32 [5] \<noteq> adler32 [9] \<or> fips_sha256 [5] \<noteq> fips_sha256 [9]" by (rule disjI1) code_simp
  have differ2: "fips_sha256 (?same @ [5]) \<noteq> fips_sha256 (?same @ [9])" using demo_digest_old demo_digest_new by (auto simp: sha256_raw_eq)
  have report: "copy_report ?s = copy_report (delta_session [])" by (simp add: copy_report_def fun_eq_iff delta_session_def Session_init_def)
  have zeros: "replicate (2 * unat (2 :: u32)) 0 @ [9] = ([0, 0, 0, 0, 9] :: byte list)"
  proof -
    have "2 * unat (2 :: u32) = Suc (Suc (Suc (Suc 0)))" by simp
    then show ?thesis by (simp only: replicate.simps append.simps)
  qed
  have sha: "sha2_hex ?cr d = to_hex (fips_sha256 d)" for d using block_decodes(5) by simp
  have m1: "server_decodes (enc_NegotiationRequest ?cr) (parse_NegotiationRequest ?cd) 64 (negotiation_request ?cr ?p ?c)"
    by (simp add: server_decodes_def block_crates_def)
  have m4: "client_decodes (ser_NegotiationResponse ?cd) (dec_NegotiationResponse ?cr) 64 (copy_report ?s (?same @ [5]) (to_hex (fips_sha256 (?same @ [9]))))"
    by (simp add: client_decodes_def report block_codec_def)
  have m2: "server_decodes (enc_DeltaSyncSignatureRequest ?cr) (parse_DeltaSyncSignatureRequest ?cd) 64 (signature_message 2 2 ?p (?same @ [9]))"
    and m3: "server_decodes (enc_DeltaSyncBlockData ?cr) (parse_DeltaSyncBlockData ?cd) 64 (requested_block 2 ?p (?same @ [9]) (word_of_nat 2))"
    and m5: "client_decodes (ser_DeltaSyncBlockRequest ?cd) (dec_DeltaSyncBlockRequest ?cr) 64 \<lparr>br_relative_path = ?p, br_requested_block_indices = [word_of_nat 2]\<rparr>"
    using block_decodes(1,3) [where p = ?p and ids = "[2]" and final = "[0, 0, 0, 0, 9]" and content = ?new]
      block_decodes(2) [where i = 2 and p = ?p and ids = "[2]" and final = "[0, 0, 0, 0, 9]" and content = ?new] by simp_all
  have m6: "client_decodes (ser_DeltaSyncComplete ?cd) (dec_DeltaSyncComplete ?cr) 64 \<lparr>dc_relative_path = ?p, dc_status = STATUS_OK, dc_error_message = [],
       dc_final_sha256_hash = to_hex (fips_sha256 (replicate (2 * unat (2 :: u32)) 0 @ [9]))\<rparr>"
    unfolding zeros using block_decodes(4) [where p = ?p and ids = "[2]" and final = "[0, 0, 0, 0, 9]" and content = ?new] by simp
  have "\<exists>s'. exchange ?cd 64 ?s s' (sync_file ?cr 64 ?p) ?c (Inr (to_hex (fips_sha256 (replicate (2 * unat (2 :: u32)) 0 @ [9])))) ?c \<and>
      (\<forall>k. file_at (disk s') k = (if k = target_key (file_root ?s) (disk ?s) ?p then Some (replicate (2 * unat (2 :: u32)) 0 @ [9]) else file_at (disk ?s) k))"
    by (rule sync_modified_zeroes [where n = 2 and old = "[5]", OF demo_open(2) delta_session_inv _ _ _ _ _ _ _ _ _ _ _ _ _ _ _ _ _ _ _ differ differ2 sha stream m1 m2 m3 m4 m5 m6])
      (use demo_storage_facts demo_fresh readable in \<open>simp_all add: engine\<close>)
  then show ?thesis using demo_fresh(4) unfolding zeros by auto
qed

end
