(* ===== verification/Upload_Race.thy ===== *)
theory Upload_Race
  imports Session_Storage
begin

text \<open>
  Two uploads of one name at the same time.  The upload handler takes no lock, so the file operations
  behind \<^verbatim>\<open>write_file_atomic\<close> and \<^verbatim>\<open>atomic_rename_tmp\<close> of several sessions interleave.  Here the saving of an
  upload is split at these operations; alone it does what \<open>save_upload\<close> does, together with another one it
  can publish a mixture of both files.
\<close>

section \<open>Saving an upload, operation by operation\<close>

text \<open>
  Where a session is: before creating the directories, opening the staging file, writing it, renaming it,
  or at the end, with the result of \<^verbatim>\<open>write_file_atomic\<close>.  An open stream refers to a file, not to a name:
  the name its file has now, \<open>None\<close> when it has lost its name to another file.
\<close>

datatype save_point = Save_dirs | Save_open | Save_write "key option" | Save_rename | Save_done bool

record upload_save =
  us_path :: string
  us_data :: "byte list"
  us_at :: save_point

definition save_start :: "string \<Rightarrow> byte list \<Rightarrow> upload_save" where
  "save_start p data = \<lparr>us_path = p, us_data = data, us_at = Save_dirs\<rparr>"

definition save_io :: "string \<Rightarrow> upload_save \<Rightarrow> storage \<Rightarrow> (save_point \<times> storage) result" where
  "save_io storage_root u fs =
     (case us_at u of
        Save_dirs \<Rightarrow>
          bind_result (tmp_path_for storage_root (us_path u)) (\<lambda>_.
          bind_result (ensure_parent_dirs storage_root fs (us_path u)) (\<lambda>(_, fs1). Inr (Save_open, fs1)))
      | Save_open \<Rightarrow>
          bind_result (tmp_path_for storage_root (us_path u)) (\<lambda>tmp.
            case open_trunc fs tmp of
              None \<Rightarrow> Inr (Save_done False, fs)
            | Some fs1 \<Rightarrow> Inr (Save_write (Some (os_key (cwd fs1) tmp)), fs1))
      | Save_write None \<Rightarrow> Inr (Save_rename, fs)
      | Save_write (Some k) \<Rightarrow>
          (case seek_write fs k 0 (us_data u) of (ok, fs1) \<Rightarrow> Inr (if ok then Save_rename else Save_done False, fs1))
      | Save_rename \<Rightarrow>
          bind_result (atomic_rename_tmp storage_root fs (us_path u)) (\<lambda>(_, fs1). Inr (Save_done True, fs1))
      | Save_done ok \<Rightarrow> Inr (Save_done ok, fs))"

text \<open>A rename gives the open files their new names.\<close>

definition follow_rename :: "string \<Rightarrow> upload_save \<Rightarrow> storage \<Rightarrow> upload_save \<Rightarrow> upload_save" where
  "follow_rename storage_root u fs other =
     (let target = target_key storage_root fs (us_path u); temp = temp_key storage_root fs (us_path u) in
      case (us_at u, us_at other) of
        (Save_rename, Save_write (Some k)) \<Rightarrow>
          if map_sum (\<lambda>_. ()) fst (atomic_rename_tmp storage_root fs (us_path u)) = Inr True \<and> temp \<noteq> target
          then if k = temp then other\<lparr>us_at := Save_write (Some target)\<rparr>
               else if k = target then other\<lparr>us_at := Save_write None\<rparr> else other
          else other
      | _ \<Rightarrow> other)"

inductive saves_step :: "string \<Rightarrow> storage \<times> upload_save list \<Rightarrow> storage \<times> upload_save list \<Rightarrow> bool" for storage_root where
  save_step: "\<lbrakk>i < length us; \<forall>ok. us_at (us ! i) \<noteq> Save_done ok; save_io storage_root (us ! i) fs = Inr (pt, fs')\<rbrakk>
    \<Longrightarrow> saves_step storage_root (fs, us)
          (fs', (map (follow_rename storage_root (us ! i) fs) us)[i := (us ! i)\<lparr>us_at := pt\<rparr>])"

section \<open>Alone, the operations are the upload\<close>

text \<open>Saving as \<open>save_upload\<close> does it.\<close>

definition save_whole :: "string \<Rightarrow> storage \<Rightarrow> string \<Rightarrow> byte list \<Rightarrow> (bool \<times> storage) result" where
  "save_whole storage_root fs p data =
     bind_result (write_file_atomic storage_root fs p data) (\<lambda>(ok, fs1).
       if ok then bind_result (atomic_rename_tmp storage_root fs1 p) (\<lambda>(_, fs2). Inr (True, fs2))
       else Inr (False, fs1))"

lemma save_upload_whole:
  assumes "up_received (upload_state s) = up_total_size (upload_state s)"
    and "save_whole (file_root s) (disk s) (up_relative_path (upload_state s)) (up_buffer (upload_state s)) = Inr (ok, fs')"
  shows "disk (snd (save_upload cd s)) = fs'" and "fst (save_upload cd s) = Inr ()"
  using assms by (auto simp: save_upload_def save_whole_def bind_result_Inr_iff Let_def send_error_def split: if_splits)

lemma saves_step_alone:
  assumes "\<forall>ok. us_at u \<noteq> Save_done ok" and "save_io storage_root u fs = Inr (pt, fs')"
  shows "saves_step storage_root (fs, [u]) (fs', [u\<lparr>us_at := pt\<rparr>])"
  using save_step [of 0 "[u]" storage_root fs pt fs'] assms by simp

text \<open>The sequence of the operations is the whole.\<close>

lemma save_whole_steps:
  assumes "save_whole storage_root fs p data = Inr (ok, fs')"
  shows "(saves_step storage_root)\<^sup>*\<^sup>* (fs, [save_start p data]) (fs', [(save_start p data)\<lparr>us_at := Save_done ok\<rparr>])"
proof -
  let ?u = "save_start p data" and ?S = "saves_step storage_root"
  obtain tmp b fs1 where tmp: "tmp_path_for storage_root p = Inr tmp" and e: "ensure_parent_dirs storage_root fs p = Inr (b, fs1)"
    using assms by (auto simp: save_whole_def write_file_atomic_def bind_result_Inr_iff)
  have s1: "?S (fs, [?u]) (fs1, [?u\<lparr>us_at := Save_open\<rparr>])"
    using tmp e by (intro saves_step_alone) (simp_all add: save_io_def save_start_def)
  show ?thesis
  proof (cases "open_trunc fs1 tmp")
    case None
    then have "fs' = fs1 \<and> \<not> ok" using assms tmp e by (simp add: save_whole_def write_file_atomic_def)
    moreover have "?S (fs1, [?u\<lparr>us_at := Save_open\<rparr>]) (fs1, [?u\<lparr>us_at := Save_done False\<rparr>])"
      using tmp None saves_step_alone [of "?u\<lparr>us_at := Save_open\<rparr>"] by (simp add: save_io_def save_start_def)
    ultimately show ?thesis using s1 by auto
  next
    case (Some fs2)
    let ?k = "os_key (cwd fs2) tmp"
    obtain w fs3 where w: "seek_write fs2 ?k 0 data = (w, fs3)" by fastforce
    have s2: "?S (fs1, [?u\<lparr>us_at := Save_open\<rparr>]) (fs2, [?u\<lparr>us_at := Save_write (Some ?k)\<rparr>])"
      using tmp Some saves_step_alone [of "?u\<lparr>us_at := Save_open\<rparr>"] by (simp add: save_io_def save_start_def)
    have s3: "?S (fs2, [?u\<lparr>us_at := Save_write (Some ?k)\<rparr>]) (fs3, [?u\<lparr>us_at := if w then Save_rename else Save_done False\<rparr>])"
      using w saves_step_alone [of "?u\<lparr>us_at := Save_write (Some ?k)\<rparr>"] by (simp add: save_io_def save_start_def)
    have upto: "?S\<^sup>*\<^sup>* (fs, [?u]) (fs3, [?u\<lparr>us_at := if w then Save_rename else Save_done False\<rparr>])"
      using s1 s2 s3 by (meson converse_rtranclp_into_rtranclp rtranclp.rtrancl_refl)
    show ?thesis
    proof (cases w)
      case True
      then obtain m where "atomic_rename_tmp storage_root fs3 p = Inr (m, fs')" "ok"
        using assms tmp e Some w by (auto simp: save_whole_def write_file_atomic_def bind_result_Inr_iff)
      then have "?S (fs3, [?u\<lparr>us_at := Save_rename\<rparr>]) (fs', [?u\<lparr>us_at := Save_done ok\<rparr>])"
        using saves_step_alone [of "?u\<lparr>us_at := Save_rename\<rparr>"] by (simp add: save_io_def save_start_def)
      then show ?thesis using upto True by (simp add: rtranclp.rtrancl_into_rtrancl)
    next
      case False
      then have "fs' = fs3 \<and> \<not> ok" using assms tmp e Some w by (simp add: save_whole_def write_file_atomic_def)
      then show ?thesis using upto False by simp
    qed
  qed
qed

section \<open>Together, they are not\<close>

lemma saves_step_plain:
  assumes "i < length us" and "\<forall>ok. us_at (us ! i) \<noteq> Save_done ok" and "save_io storage_root (us ! i) fs = Inr (pt, fs')"
    and "us_at (us ! i) \<noteq> Save_rename \<or> (\<forall>u \<in> set us. \<forall>k. us_at u \<noteq> Save_write (Some k))"
  shows "saves_step storage_root (fs, us) (fs', us[i := (us ! i)\<lparr>us_at := pt\<rparr>])"
proof -
  have "map (follow_rename storage_root (us ! i) fs) us = us"
    using assms(4) by (intro map_idI) (auto simp: follow_rename_def Let_def split: save_point.splits option.splits)
  then show ?thesis using save_step [OF assms(1-3)] by simp
qed

text \<open>Creating the directories and opening the staging file.\<close>

lemma open_phase:
  assumes p: "plain_path p" "CHR 0x00 \<notin> set storage_root"
    and fs: "healthy fs" "storage_wf fs" "writable_place storage_root fs p" and i: "i < length us" "us ! i = save_start p data"
  obtains fs2 where
    "(saves_step storage_root)\<^sup>*\<^sup>* (fs, us) (fs2, us[i := (save_start p data)\<lparr>us_at := Save_write (Some (temp_key storage_root fs p))\<rparr>])"
    "touches {temp_key storage_root fs p} {k. prefix k (parent_key storage_root fs p)} fs fs2"
    "file_at fs2 (temp_key storage_root fs p) = Some []"
proof -
  let ?q = "path_append storage_root p @ ''.tmp''" and ?k = "temp_key storage_root fs p"
    and ?D = "{k. prefix k (parent_key storage_root fs p)}" and ?u = "save_start p data"
  have tmp: "tmp_path_for storage_root p = Inr ?q" by (simp add: tmp_path_for_def resolve_plain [OF p(1)])
  obtain fs1 fs2 where e: "ensure_parent_dirs storage_root fs p = Inr (True, fs1)" and o: "open_trunc fs1 ?q = Some fs2"
    and t1: "touches {} ?D fs fs1" and key: "os_key (cwd fs1) ?q = ?k"
    using staging_file_opens [OF p fs] by (metis not_Some_eq)
  note t2 = touches_open_trunc [OF o, unfolded key]
  have key2: "os_key (cwd fs2) ?q = ?k" using key t2(1) [of "{}"] by (simp add: touches_def)
  have "saves_step storage_root (fs, us) (fs1, us[i := ?u\<lparr>us_at := Save_open\<rparr>])"
    using saves_step_plain [OF i(1), of storage_root fs Save_open fs1] i(2) tmp e by (simp add: save_io_def save_start_def)
  moreover have "saves_step storage_root (fs1, us[i := ?u\<lparr>us_at := Save_open\<rparr>]) (fs2, us[i := ?u\<lparr>us_at := Save_write (Some ?k)\<rparr>])"
    using saves_step_plain [of i "us[i := ?u\<lparr>us_at := Save_open\<rparr>]" storage_root fs1 "Save_write (Some ?k)" fs2] i(1) tmp o key2
    by (simp add: save_io_def save_start_def)
  ultimately have "(saves_step storage_root)\<^sup>*\<^sup>* (fs, us) (fs2, us[i := ?u\<lparr>us_at := Save_write (Some ?k)\<rparr>])" by simp
  moreover have "touches {?k} ?D fs fs2"
    using touches_trans [OF touches_mono [OF t1, of "{?k}" ?D] t2(1)] by simp
  ultimately show ?thesis using t2(2) by (rule that)
qed

lemma write_phase:
  assumes "i < length us" and "us ! i = u\<lparr>us_at := Save_write (Some k)\<rparr>" and "file_at fs k = Some c" and "length (us_data u) \<le> max_file fs"
  obtains fs' where "saves_step storage_root (fs, us) (fs', us[i := u\<lparr>us_at := Save_rename\<rparr>])"
    "touches {k} D fs fs'" "file_at fs' k = Some (overwrite c 0 (us_data u))"
proof -
  obtain ok fs' where w: "seek_write fs k 0 (us_data u) = (ok, fs')" by fastforce
  have ok: "ok" using seek_write_ok [OF assms(3), of 0 "us_data u"] assms(4) w by simp
  then have "saves_step storage_root (fs, us) (fs', us[i := u\<lparr>us_at := Save_rename\<rparr>])"
    using saves_step_plain [OF assms(1), of storage_root fs Save_rename fs'] assms(2) w by (simp add: save_io_def)
  then show ?thesis using touches_seek_write [OF w] ok assms(3) by (intro that) simp_all
qed

lemma rename_phase:
  assumes "i < length us" and "us ! i = u\<lparr>us_at := Save_rename\<rparr>" and "atomic_rename_tmp storage_root fs (us_path u) = Inr (ok, fs')"
    and "\<forall>v \<in> set us. \<forall>k. us_at v \<noteq> Save_write (Some k)"
  shows "saves_step storage_root (fs, us) (fs', us[i := u\<lparr>us_at := Save_done True\<rparr>])"
  using saves_step_plain [OF assms(1), of storage_root fs "Save_done True" fs'] assms(2-4) by (simp add: save_io_def)

text \<open>A rename that finds no staging file does nothing.\<close>

lemma rename_nothing:
  assumes p: "plain_path p" "CHR 0x00 \<notin> set storage_root"
    and "file_at fs (temp_key storage_root fs p) = None" and "file_at fs (target_key storage_root fs p) = Some c"
  shows "atomic_rename_tmp storage_root fs p = Inr (False, fs)"
proof -
  have ne: "temp_key storage_root fs p \<noteq> target_key storage_root fs p" using assms(3,4) by auto
  obtain t where d: "node_at fs (target_key storage_root fs p) = Some (File c t)"
    using assms(4) by (auto simp: file_at_def split: option.splits node.splits)
  have "node_at fs (temp_key storage_root fs p) = None \<or> node_at fs (temp_key storage_root fs p) = Some Dir"
    using assms(3) by (simp add: file_at_None_iff)
  then have "\<not> rename_allowed fs (temp_key storage_root fs p) (target_key storage_root fs p)"
    using d by (auto simp: rename_allowed_def)
  then show ?thesis
    using ne by (simp add: atomic_rename_tmp_def tmp_path_for_def resolve_plain [OF p(1)] fs_rename_def rename_key_def
        temp_key_def target_key_def lexically_normal_plain [OF p(1)])
qed

text \<open>
  C26. Uploads of one name at the same time can be mixed: both sessions open the staging file before either
  writes it, each writes its bytes from the start of the same file, and the first rename publishes it.  Both
  saves end normally and without an error message, no staging file is left, and the published file consists
  of the shorter upload followed by the rest of the longer one: a file that nobody sent.
\<close>

theorem concurrent_uploads_mix:
  assumes p: "plain_path p" "CHR 0x00 \<notin> set storage_root"
    and fs: "healthy fs" "storage_wf fs" "writable_place storage_root fs p"
    and fits: "length a \<le> max_file fs" "length b \<le> length a" and b: "b \<noteq> []"
  shows "\<exists>fs' us. (saves_step storage_root)\<^sup>*\<^sup>* (fs, [save_start p a, save_start p b]) (fs', us) \<and>
    list_all (\<lambda>u. us_at u = Save_done True) us \<and>
    file_at fs' (target_key storage_root fs p) = Some (b @ drop (length b) a) \<and>
    file_at fs' (temp_key storage_root fs p) = None"
proof -
  let ?k = "temp_key storage_root fs p" and ?t = "target_key storage_root fs p" and ?D = "{k. prefix k (parent_key storage_root fs p)}"
  let ?a = "save_start p a" and ?b = "save_start p b" and ?S = "saves_step storage_root" and ?T = "touches {?k} ?D fs"
  let ?wa = "?a\<lparr>us_at := Save_write (Some ?k)\<rparr>" and ?wb = "?b\<lparr>us_at := Save_write (Some ?k)\<rparr>"
  let ?ra = "?a\<lparr>us_at := Save_rename\<rparr>" and ?rb = "?b\<lparr>us_at := Save_rename\<rparr>"
  have place: "healthy f \<and> storage_wf f \<and> writable_place storage_root f p \<and> max_file f = max_file fs \<and>
      temp_key storage_root f p = ?k \<and> target_key storage_root f p = ?t \<and> parent_key storage_root f p = parent_key storage_root fs p"
    if "?T f" "file_at f ?k \<noteq> None" for f
    using staging_keeps_place [OF p fs(1,3) that] that(1) fs(2) by (simp add: touches_def temp_key_def target_key_def parent_key_def)
  obtain f1 where f1: "?S\<^sup>*\<^sup>* (fs, [?a, ?b]) (f1, [?wa, ?b])" "?T f1" "file_at f1 ?k = Some []"
    by (rule open_phase [OF p fs, of 0 "[?a, ?b]" a]) simp_all
  note p1 = place [OF f1(2), unfolded f1(3), simplified]
  obtain f2 where f2: "?S\<^sup>*\<^sup>* (f1, [?wa, ?b]) (f2, [?wa, ?wb])" "touches {?k} ?D f1 f2" "file_at f2 ?k = Some []"
    by (rule open_phase [of p storage_root f1 1 "[?wa, ?b]" b]) (use p p1 in simp_all)
  have t2: "?T f2" by (rule touches_trans [OF f1(2) f2(2)])
  note p2 = place [OF t2, unfolded f2(3), simplified]
  obtain f3 where f3: "?S (f2, [?wa, ?wb]) (f3, [?ra, ?wb])" "touches {?k} ?D f2 f3" "file_at f3 ?k = Some (overwrite [] 0 a)"
    by (rule write_phase [of 0 "[?wa, ?wb]" ?k ?a f2 "[]"]) (use f2(3) p2 fits in \<open>simp_all add: save_start_def\<close>)
  have t3: "?T f3" by (rule touches_trans [OF t2 f3(2)])
  note p3 = place [OF t3, unfolded f3(3), simplified]
  obtain f4 where f4: "?S (f3, [?ra, ?wb]) (f4, [?ra, ?rb])" "touches {?k} ?D f3 f4" "file_at f4 ?k = Some (overwrite a 0 b)"
    by (rule write_phase [of 1 "[?ra, ?wb]" ?k ?b f3 a]) (use f3(3) p3 fits in \<open>simp_all add: save_start_def\<close>)
  have t4: "?T f4" by (rule touches_trans [OF t3 f4(2)])
  note p4 = place [OF t4, unfolded f4(3), simplified]
  obtain f5 where mv: "atomic_rename_tmp storage_root f4 p = Inr (True, f5)"
    using atomic_rename_tmp_ok [OF p, of f4] p4 f4(3) by auto
  have ne: "?k \<noteq> ?t" using temp_key_not_target [OF p(2), of p] p(1) by (simp add: plain_path_def)
  have f5: "file_at f5 ?t = Some (overwrite a 0 b)" "file_at f5 ?k = None" "cwd f5 = cwd fs"
    using atomic_rename_tmp_effect(3) [OF mv] atomic_rename_tmp_effect(4) [OF mv, of "overwrite a 0 b"] p4 f4(3) ne t4
    by (simp_all add: touches_def)
  have s5: "?S (f4, [?ra, ?rb]) (f5, [?a\<lparr>us_at := Save_done True\<rparr>, ?rb])"
    using rename_phase [of 0 "[?ra, ?rb]" ?a storage_root f4 True f5] mv by (simp add: save_start_def)
  have "atomic_rename_tmp storage_root f5 p = Inr (False, f5)"
    using rename_nothing [OF p, of f5] f5 by (simp add: temp_key_def target_key_def)
  then have "?S (f5, [?a\<lparr>us_at := Save_done True\<rparr>, ?rb]) (f5, [?a\<lparr>us_at := Save_done True\<rparr>, ?b\<lparr>us_at := Save_done True\<rparr>])"
    using rename_phase [of 1 "[?a\<lparr>us_at := Save_done True\<rparr>, ?rb]" ?b storage_root f5 False f5] by (simp add: save_start_def)
  with f1(1) f2(1) f3(1) f4(1) s5
  have "?S\<^sup>*\<^sup>* (fs, [?a, ?b]) (f5, [?a\<lparr>us_at := Save_done True\<rparr>, ?b\<lparr>us_at := Save_done True\<rparr>])"
    by (meson rtranclp.rtrancl_into_rtrancl rtranclp_trans)
  moreover have "overwrite a 0 b = b @ drop (length b) a" using b by (simp add: overwrite_def)
  ultimately show ?thesis using f5 by (intro exI [of _ f5] exI conjI) (assumption | simp)+
qed

theorem concurrent_uploads_mix_witness:
  "\<exists>fs' us. (saves_step ''./data'')\<^sup>*\<^sup>* (demo_storage, [save_start ''sub/new'' [1, 1, 1], save_start ''sub/new'' [2]]) (fs', us) \<and>
     list_all (\<lambda>u. us_at u = Save_done True) us \<and> file_at fs' [''srv'', ''data'', ''sub'', ''new''] = Some [2, 1, 1]"
proof -
  have "drop (length [2 :: byte]) [1, 1, 1] = [1, 1 :: byte]" by simp
  with concurrent_uploads_mix [OF demo_storage_facts(1,3-6), of "[1, 1, 1]" "[2]"] demo_storage_facts(8) demo_fresh(3)
  show ?thesis by auto
qed

end
