(* ===== verification/Locked_Blocks.thy ===== *)
theory Locked_Blocks
  imports Delta_Sync
begin

text \<open>
  Blocks of one file that arrive on several connections at the same time.  \<^verbatim>\<open>handle_block_data\<close> writes a block
  between \<^verbatim>\<open>acquire_write\<close> and \<^verbatim>\<open>release_write\<close>; here this section is split at the operations on the lock
  table and on the file, and any number of threads interleave.  The lock makes each write of a block
  atomic: every complete run equals the blocks written one after the other in some order, so the blocks of
  a file give that file whatever the threads do.
\<close>

section \<open>Writing a block, operation by operation\<close>

text \<open>
  Where \<^verbatim>\<open>write_block_atomic\<close> is: before creating the directories, opening the staging file, creating it,
  opening it again, writing to the open file, or at the end with its result.
\<close>

datatype write_point = Make_dirs | Open_staging | Create_staging | Reopen_staging | Write_data key | Written bool

fun write_io :: "string \<Rightarrow> string \<Rightarrow> u64 \<Rightarrow> byte list \<Rightarrow> write_point \<Rightarrow> storage \<Rightarrow> (write_point \<times> storage) result" where
  "write_io storage_root p offset data Make_dirs fs =
     bind_result (tmp_path_for storage_root p) (\<lambda>_.
     bind_result (ensure_parent_dirs storage_root fs p) (\<lambda>(_, fs1). Inr (Open_staging, fs1)))"
| "write_io storage_root p offset data Open_staging fs =
     bind_result (tmp_path_for storage_root p) (\<lambda>tmp.
       Inr (if open_inout fs tmp then Write_data (os_key (cwd fs) tmp) else Create_staging, fs))"
| "write_io storage_root p offset data Create_staging fs =
     bind_result (tmp_path_for storage_root p) (\<lambda>tmp.
       case open_trunc fs tmp of None \<Rightarrow> Inr (Written False, fs) | Some fs1 \<Rightarrow> Inr (Reopen_staging, fs1))"
| "write_io storage_root p offset data Reopen_staging fs =
     bind_result (tmp_path_for storage_root p) (\<lambda>tmp.
       Inr (if open_inout fs tmp then Write_data (os_key (cwd fs) tmp) else Written False, fs))"
| "write_io storage_root p offset data (Write_data k) fs =
     (case seek_write fs k (sint offset) data of (ok, fs1) \<Rightarrow> Inr (Written ok, fs1))"
| "write_io storage_root p offset data (Written ok) fs = Inr (Written ok, fs)"

text \<open>The threads: each has one block to write to the file \<open>p\<close>.\<close>

datatype block_point = Block_start | Block_wait nat | Block_in nat write_point | Block_done bool

record block_job =
  bj_offset :: u64
  bj_data :: "byte list"
  bj_at :: block_point

definition block_start :: "u64 \<times> byte list \<Rightarrow> block_job" where
  "block_start b = \<lparr>bj_offset = fst b, bj_data = snd b, bj_at = Block_start\<rparr>"

definition job_block :: "block_job \<Rightarrow> u64 \<times> byte list" where
  "job_block u = (bj_offset u, bj_data u)"

type_synonym block_state = "storage \<times> FileMutex \<times> block_job list"

inductive blocks_step :: "string \<Rightarrow> string \<Rightarrow> block_state \<Rightarrow> block_state \<Rightarrow> bool" for storage_root p where
  ask: "\<lbrakk>i < length us; bj_at (us ! i) = Block_start; get_or_create p fm = (m, fm')\<rbrakk>
    \<Longrightarrow> blocks_step storage_root p (fs, fm, us) (fs, fm', us[i := (us ! i)\<lparr>bj_at := Block_wait m\<rparr>])"
| enter: "\<lbrakk>i < length us; bj_at (us ! i) = Block_wait m; lock_exclusive m fm = Some fm'\<rbrakk>
    \<Longrightarrow> blocks_step storage_root p (fs, fm, us) (fs, fm', us[i := (us ! i)\<lparr>bj_at := Block_in m Make_dirs\<rparr>])"
| work: "\<lbrakk>i < length us; bj_at (us ! i) = Block_in m pt; \<forall>ok. pt \<noteq> Written ok;
      write_io storage_root p (bj_offset (us ! i)) (bj_data (us ! i)) pt fs = Inr (pt', fs')\<rbrakk>
    \<Longrightarrow> blocks_step storage_root p (fs, fm, us) (fs', fm, us[i := (us ! i)\<lparr>bj_at := Block_in m pt'\<rparr>])"
| leave: "\<lbrakk>i < length us; bj_at (us ! i) = Block_in m (Written ok)\<rbrakk>
    \<Longrightarrow> blocks_step storage_root p (fs, fm, us) (fs, release_write p fm, us[i := (us ! i)\<lparr>bj_at := Block_done ok\<rparr>])"
| tidy: "blocks_step storage_root p (fs, fm, us) (fs, cleanup_unused fm, us)"

inductive_cases blocks_stepE: "blocks_step storage_root p (fs, fm, us) s"

section \<open>The operations together are the write\<close>

text \<open>What is left of a write: how many operations at most, and all of them as one computation.\<close>

fun points_left :: "write_point \<Rightarrow> nat" where
  "points_left Make_dirs = 5"
| "points_left Open_staging = 4"
| "points_left Create_staging = 3"
| "points_left Reopen_staging = 2"
| "points_left (Write_data k) = 1"
| "points_left (Written ok) = 0"

function write_rest :: "string \<Rightarrow> string \<Rightarrow> u64 \<Rightarrow> byte list \<Rightarrow> write_point \<Rightarrow> storage \<Rightarrow> (bool \<times> storage) result" where
  "write_rest r p offset data Make_dirs fs = write_block_atomic r fs p offset data"
| "write_rest r p offset data Open_staging fs =
     bind_result (tmp_path_for r p) (\<lambda>tmp.
       if open_inout fs tmp then Inr (seek_write fs (os_key (cwd fs) tmp) (sint offset) data)
       else write_rest r p offset data Create_staging fs)"
| "write_rest r p offset data Create_staging fs =
     bind_result (tmp_path_for r p) (\<lambda>tmp.
       case open_trunc fs tmp of None \<Rightarrow> Inr (False, fs) | Some fs1 \<Rightarrow> write_rest r p offset data Reopen_staging fs1)"
| "write_rest r p offset data Reopen_staging fs =
     bind_result (tmp_path_for r p) (\<lambda>tmp.
       if open_inout fs tmp then Inr (seek_write fs (os_key (cwd fs) tmp) (sint offset) data) else Inr (False, fs))"
| "write_rest r p offset data (Write_data k) fs = Inr (seek_write fs k (sint offset) data)"
| "write_rest r p offset data (Written ok) fs = Inr (ok, fs)"
  by pat_completeness auto

termination
  by (relation "measure (\<lambda>(r, p, offset, data, pt, fs). points_left pt)") simp_all

lemma open_trunc_cwd: "open_trunc fs p = Some fs' \<Longrightarrow> cwd fs' = cwd fs"
  using touches_open_trunc(1) [of fs p fs' "{}"] by (simp add: touches_def)

lemma write_block_rest:
  assumes "tmp_path_for r p = Inr tmp" and "ensure_parent_dirs r fs p = Inr (b, fs1)"
  shows "write_block_atomic r fs p offset data = write_rest r p offset data Open_staging fs1"
  using assms open_trunc_cwd by (auto simp: write_block_atomic_def Let_def split: option.split)

lemma write_io_rest:
  assumes "write_io r p offset data pt fs = Inr (pt', fs')"
  shows "write_rest r p offset data pt fs = write_rest r p offset data pt' fs'"
proof (cases pt)
  case Make_dirs
  then obtain tmp b where "tmp_path_for r p = Inr tmp" "ensure_parent_dirs r fs p = Inr (b, fs')" "pt' = Open_staging"
    using assms by (auto simp: bind_result_Inr_iff)
  then show ?thesis using write_block_rest Make_dirs by (simp del: write_rest.simps(2))
qed (use assms in \<open>auto simp: bind_result_Inr_iff split: if_splits option.splits prod.splits\<close>)

section \<open>The lock table sees the lock's threads\<close>

fun lock_view :: "string \<Rightarrow> block_point \<Rightarrow> thread" where
  "lock_view p (Block_wait m) = Waiting True p m"
| "lock_view p (Block_in m pt) = Writing p m"
| "lock_view p _ = Idle"

abbreviation lock_threads :: "string \<Rightarrow> block_job list \<Rightarrow> thread list" where
  "lock_threads p us \<equiv> map (\<lambda>u. lock_view p (bj_at u)) us"

lemma blocks_step_locks:
  assumes "blocks_step r p (fs, fm, us) (fs', fm', us')"
  shows "lock_step\<^sup>=\<^sup>= (fm, lock_threads p us) (fm', lock_threads p us')"
  using assms
proof (cases rule: blocks_step.cases)
  case (ask i m)
  then show ?thesis
    using start_acquire [of i "lock_threads p us" p fm m fm' True] by (simp add: map_update)
next
  case (enter i m)
  then show ?thesis using got_exclusive [of i "lock_threads p us" p m fm fm'] by (simp add: map_update)
next
  case (work i m pt pt')
  then have "(lock_threads p us)[i := Writing p m] = lock_threads p us" by (metis (no_types, lifting) list_update_id lock_view.simps(2) nth_map)
  with work show ?thesis by (simp add: map_update)
next
  case (leave i m ok)
  then show ?thesis using finish_write [of i "lock_threads p us" p m fm] by (simp add: map_update)
next
  case tidy
  then show ?thesis using clean [of fm "lock_threads p us"] by simp
qed

lemma one_inside:
  assumes inv: "lock_inv (fm, lock_threads p us)" and i: "i < length us" "bj_at (us ! i) = Block_in m pt"
    and j: "j < length us" "bj_at (us ! j) = Block_in n pt'"
  shows "i = j"
proof (rule ccontr)
  assume "i \<noteq> j"
  have "on_mutex (mutex_map fm) (Writing p m)" "on_mutex (mutex_map fm) (Writing p n)"
    using lock_invD(2) [OF inv] i j by (metis (no_types, lifting) length_map lock_view.simps(2) nth_map nth_mem)+
  then have "m = n" by auto
  then have "2 \<le> users (writes m) (lock_threads p us)"
    using users_two [of i "lock_threads p us" j "writes m"] i j \<open>i \<noteq> j\<close> by simp
  then show False using lock_invD(6) [OF inv, of m] by (simp add: of_bool_def split: if_splits)
qed

section \<open>Every run is serial\<close>

text \<open>The reference: the blocks written one after the other, with the results of the writes.\<close>

fun write_serially :: "string \<Rightarrow> string \<Rightarrow> storage \<Rightarrow> (u64 \<times> byte list) list \<Rightarrow> (bool list \<times> storage) result" where
  "write_serially r p fs [] = Inr ([], fs)"
| "write_serially r p fs ((offset, data) # blocks) =
     bind_result (write_block_atomic r fs p offset data) (\<lambda>(ok, fs1).
     bind_result (write_serially r p fs1 blocks) (\<lambda>(oks, fs2). Inr (ok # oks, fs2)))"

lemma write_serially_snoc:
  assumes "write_serially r p fs blocks = Inr (oks, fs1)" and "write_block_atomic r fs1 p offset data = Inr (ok, fs2)"
  shows "write_serially r p fs (blocks @ [(offset, data)]) = Inr (oks @ [ok], fs2)"
  using assms
proof (induction blocks arbitrary: fs oks)
  case (Cons b blocks)
  then show ?case by (cases b) (auto simp: bind_result_Inr_iff)
qed simp

definition job_ok :: "block_job \<Rightarrow> bool option" where
  "job_ok u = (case bj_at u of Block_done ok \<Rightarrow> Some ok | _ \<Rightarrow> None)"

text \<open>
  The finished threads, in the order in which they left their sections, give \<open>fs1\<close>; a thread inside its
  section is on its way from \<open>fs1\<close>.
\<close>

definition finished_upto :: "string \<Rightarrow> string \<Rightarrow> storage \<Rightarrow> block_job list \<Rightarrow> nat list \<Rightarrow> storage \<Rightarrow> bool" where
  "finished_upto r p fs0 us order fs1 \<longleftrightarrow> distinct order \<and> set order = {i. i < length us \<and> job_ok (us ! i) \<noteq> None} \<and>
     write_serially r p fs0 (map (\<lambda>i. job_block (us ! i)) order) = Inr (map (\<lambda>i. the (job_ok (us ! i))) order, fs1)"

definition under_way :: "string \<Rightarrow> string \<Rightarrow> storage \<Rightarrow> block_job list \<Rightarrow> storage \<Rightarrow> bool" where
  "under_way r p fs us fs1 \<longleftrightarrow>
     (\<forall>u \<in> set us. \<forall>m pt. bj_at u = Block_in m pt \<longrightarrow>
        write_rest r p (bj_offset u) (bj_data u) pt fs = write_block_atomic r fs1 p (bj_offset u) (bj_data u)) \<and>
     ((\<forall>u \<in> set us. \<forall>m pt. bj_at u \<noteq> Block_in m pt) \<longrightarrow> fs = fs1)"

definition blocks_inv :: "string \<Rightarrow> string \<Rightarrow> storage \<Rightarrow> (u64 \<times> byte list) list \<Rightarrow> block_state \<Rightarrow> bool" where
  "blocks_inv r p fs0 blocks = (\<lambda>(fs, fm, us).
     lock_inv (fm, lock_threads p us) \<and> map job_block us = blocks \<and>
     (\<exists>order fs1. finished_upto r p fs0 us order fs1 \<and> under_way r p fs us fs1))"

lemma map_nth_update: "i \<notin> set ks \<Longrightarrow> map (\<lambda>k. f (xs[i := x] ! k)) ks = map (\<lambda>k. f (xs ! k)) ks"
  by (induction ks) auto

lemma finished_upto_unfinished:
  assumes fin: "finished_upto r p fs0 us order fs1" and i: "i < length us" "job_ok (us ! i) = None" "job_ok u = None"
  shows "finished_upto r p fs0 (us[i := u]) order fs1"
proof -
  have "i \<notin> set order" using fin i by (auto simp: finished_upto_def)
  note same = map_nth_update [OF this, of job_block us u] map_nth_update [OF this, of "\<lambda>v. the (job_ok v)" us u]
  have "{k. k < length (us[i := u]) \<and> job_ok (us[i := u] ! k) \<noteq> None} = {k. k < length us \<and> job_ok (us ! k) \<noteq> None}"
    using i by (auto simp: nth_list_update)
  then show ?thesis using fin unfolding finished_upto_def same by simp
qed

lemma finished_upto_leave:
  assumes fin: "finished_upto r p fs0 us order fs1" and i: "i < length us" "job_ok (us ! i) = None"
    and u: "job_ok u = Some ok" "job_block u = job_block (us ! i)"
    and w: "write_block_atomic r fs1 p (bj_offset (us ! i)) (bj_data (us ! i)) = Inr (ok, fs)"
  shows "finished_upto r p fs0 (us[i := u]) (order @ [i]) fs"
proof -
  have out: "i \<notin> set order" using fin i by (auto simp: finished_upto_def)
  note same = map_nth_update [OF this, of job_block us u] map_nth_update [OF this, of "\<lambda>v. the (job_ok v)" us u]
  have "write_serially r p fs0 (map (\<lambda>k. job_block (us ! k)) order @ [job_block (us ! i)]) =
      Inr (map (\<lambda>k. the (job_ok (us ! k))) order @ [ok], fs)"
    unfolding job_block_def [of "us ! i"] by (rule write_serially_snoc [OF _ w]) (use fin in \<open>simp add: finished_upto_def\<close>)
  moreover have "{k. k < length (us[i := u]) \<and> job_ok (us[i := u] ! k) \<noteq> None} =
      insert i {k. k < length us \<and> job_ok (us ! k) \<noteq> None}"
    using i u by (auto simp: nth_list_update)
  ultimately show ?thesis using fin i(1) u out unfolding finished_upto_def map_append same by simp
qed

text \<open>Replacing a job when nobody else is inside.\<close>

lemma under_way_alone:
  assumes "i < length us" and "\<And>j m pt. j < length us \<Longrightarrow> j \<noteq> i \<Longrightarrow> bj_at (us ! j) \<noteq> Block_in m pt"
    and "\<And>m pt. bj_at u = Block_in m pt \<Longrightarrow>
      write_rest r p (bj_offset u) (bj_data u) pt fs = write_block_atomic r fs1 p (bj_offset u) (bj_data u)"
    and "\<forall>m pt. bj_at u \<noteq> Block_in m pt \<Longrightarrow> fs = fs1"
  shows "under_way r p fs (us[i := u]) fs1"
proof -
  have "v = u \<or> (\<forall>m pt. bj_at v \<noteq> Block_in m pt)" if "v \<in> set (us[i := u])" for v
    using that assms(1,2) by (auto simp: in_set_conv_nth nth_list_update split: if_splits)
  moreover have "u \<in> set (us[i := u])" using assms(1) by (simp add: set_update_memI)
  ultimately show ?thesis using assms(3,4) unfolding under_way_def by metis
qed

lemma under_way_outside:
  assumes "under_way r p fs us fs1" and "i < length us"
    and "\<And>m pt. bj_at (us ! i) \<noteq> Block_in m pt" and "\<And>m pt. bj_at u \<noteq> Block_in m pt"
  shows "under_way r p fs (us[i := u]) fs1"
proof -
  have "{v \<in> set (us[i := u]). \<exists>m pt. bj_at v = Block_in m pt} = {v \<in> set us. \<exists>m pt. bj_at v = Block_in m pt}"
    using assms(2-4) by (auto simp: in_set_conv_nth nth_list_update) metis+
  then show ?thesis using assms(1) unfolding under_way_def by blast
qed

lemma blocks_inv_step:
  assumes inv: "blocks_inv r p fs0 blocks (fs, fm, us)" and st: "blocks_step r p (fs, fm, us) (fs', fm', us')"
  shows "blocks_inv r p fs0 blocks (fs', fm', us')"
proof -
  obtain order fs1 where locks: "lock_inv (fm, lock_threads p us)" and blocks: "map job_block us = blocks"
    and fin: "finished_upto r p fs0 us order fs1" and way: "under_way r p fs us fs1"
    using inv by (auto simp: blocks_inv_def)
  have locks': "lock_inv (fm', lock_threads p us')"
    using blocks_step_locks [OF st] locks lock_inv_step by auto
  note one = one_inside [OF locks] and one' = one_inside [OF locks']
  have keep: "map job_block (us[i := u]) = blocks" if "i < length us" "job_block u = job_block (us ! i)" for i u
    using blocks that by (metis list_update_id map_update nth_map)
  from st have "map job_block us' = blocks \<and> (\<exists>order fs1. finished_upto r p fs0 us' order fs1 \<and> under_way r p fs' us' fs1)"
  proof (cases rule: blocks_step.cases)
    case (ask i m)
    let ?u = "(us ! i)\<lparr>bj_at := Block_wait m\<rparr>"
    have "under_way r p fs (us[i := ?u]) fs1" by (rule under_way_outside [OF way]) (use ask in simp_all)
    moreover have "finished_upto r p fs0 (us[i := ?u]) order fs1"
      by (rule finished_upto_unfinished [OF fin]) (use ask in \<open>simp_all add: job_ok_def\<close>)
    ultimately show ?thesis using ask(1-3) keep [OF ask(3), of ?u] by (auto simp: job_block_def)
  next
    case (enter i m)
    have others: "bj_at (us ! j) \<noteq> Block_in n pt" if "j < length us" "j \<noteq> i" for j n pt
      using one' [of i m Make_dirs j n pt] that enter by auto
    have "bj_at u \<noteq> Block_in n pt" if "u \<in> set us" for u n pt
      using others enter(3,4) that by (metis block_point.distinct(7) in_set_conv_nth)
    then have "fs = fs1" using way by (simp add: under_way_def)
    then have "under_way r p fs' us' fs1"
      unfolding enter(1,2) using others by (intro under_way_alone enter(3)) auto
    moreover have "finished_upto r p fs0 us' order fs1"
      unfolding enter(2) by (rule finished_upto_unfinished [OF fin]) (use enter in \<open>simp_all add: job_ok_def\<close>)
    moreover have "map job_block us' = blocks" unfolding enter(2) by (rule keep [OF enter(3)]) (simp add: job_block_def)
    ultimately show ?thesis by blast
  next
    case (work i m pt pt')
    have others: "bj_at (us ! j) \<noteq> Block_in n pt" if "j < length us" "j \<noteq> i" for j n pt
      using one that work(3,4) by blast
    have "write_rest r p (bj_offset (us ! i)) (bj_data (us ! i)) pt fs = write_block_atomic r fs1 p (bj_offset (us ! i)) (bj_data (us ! i))"
      using way work(3,4) by (simp add: under_way_def)
    with write_io_rest [OF work(6)] have "under_way r p fs' us' fs1"
      unfolding work(2) using others by (intro under_way_alone work(3)) auto
    moreover have "finished_upto r p fs0 us' order fs1"
      unfolding work(2) by (rule finished_upto_unfinished [OF fin]) (use work in \<open>simp_all add: job_ok_def\<close>)
    moreover have "map job_block us' = blocks" unfolding work(2) by (rule keep [OF work(3)]) (simp add: job_block_def)
    ultimately show ?thesis by blast
  next
    case (leave i m ok)
    have others: "bj_at (us ! j) \<noteq> Block_in n pt" if "j < length us" "j \<noteq> i" for j n pt
      using one that leave(4,5) by blast
    have "write_rest r p (bj_offset (us ! i)) (bj_data (us ! i)) (Written ok) fs = write_block_atomic r fs1 p (bj_offset (us ! i)) (bj_data (us ! i))"
      using way leave(4,5) by (simp add: under_way_def del: write_rest.simps)
    then have "finished_upto r p fs0 us' (order @ [i]) fs"
      unfolding leave(3) using leave(5) by (intro finished_upto_leave [OF fin leave(4), of _ ok]) (simp_all add: job_ok_def job_block_def)
    moreover have "under_way r p fs' us' fs"
      unfolding leave(1,3) using others by (intro under_way_alone leave(4)) auto
    ultimately show ?thesis using leave keep [of i] by (auto simp: job_block_def)
  next
    case tidy
    then show ?thesis using blocks fin way by blast
  qed
  with locks' show ?thesis by (simp add: blocks_inv_def)
qed

lemma blocks_inv_start: "blocks_inv r p fs blocks (fs, FileMutex_init, map block_start blocks)"
proof -
  have "lock_start (FileMutex_init, lock_threads p (map block_start blocks))"
    by (simp add: lock_start_def list_all_iff block_start_def)
  then have "lock_inv (FileMutex_init, lock_threads p (map block_start blocks))" by (rule lock_inv_start)
  moreover have "finished_upto r p fs (map block_start blocks) [] fs" by (simp add: finished_upto_def job_ok_def block_start_def)
  moreover have "under_way r p fs (map block_start blocks) fs" by (simp add: under_way_def block_start_def)
  ultimately show ?thesis by (auto simp: blocks_inv_def job_block_def block_start_def comp_def)
qed

interpretation locked_blocks: transition_system "\<lambda>s. s = (fs0, FileMutex_init, map block_start blocks)"
    "blocks_step r p" "blocks_inv r p fs0 blocks" for r p fs0 blocks
proof (unfold_locales, goal_cases)
  case (1 s)
  then show ?case by (simp add: blocks_inv_start)
next
  case (2 s t)
  then show ?case using blocks_inv_step by (cases s; cases t) blast
qed

section \<open>No thread waits for ever\<close>

fun work_left :: "block_point \<Rightarrow> nat" where
  "work_left Block_start = 8"
| "work_left (Block_wait m) = 7"
| "work_left (Block_in m pt) = Suc (points_left pt)"
| "work_left (Block_done ok) = 0"

definition jobs_left :: "block_job list \<Rightarrow> nat" where
  "jobs_left us = sum_list (map (\<lambda>u. work_left (bj_at u)) us)"

lemma jobs_left_update:
  assumes "i < length us" and "work_left (bj_at u) < work_left (bj_at (us ! i))"
  shows "jobs_left (us[i := u]) < jobs_left us"
proof -
  have "work_left (bj_at (us ! i)) \<le> jobs_left us"
    unfolding jobs_left_def using elem_le_sum_list [of i "map (\<lambda>u. work_left (bj_at u)) us"] assms(1) by simp
  then show ?thesis
    using assms sum_list_update [of i "map (\<lambda>u. work_left (bj_at u)) us" "work_left (bj_at u)"]
    by (simp add: jobs_left_def map_update)
qed

lemma write_io_progress:
  assumes "resolve_path r p = Inr q" and "\<forall>ok. pt \<noteq> Written ok"
  obtains pt' fs' where "write_io r p offset data pt fs = Inr (pt', fs')" "points_left pt' < points_left pt"
proof (cases pt)
  case Make_dirs
  obtain b fs1 where "ensure_parent_dirs r fs p = Inr (b, fs1)"
    using assms(1) by (cases "parent_path q = []"; cases "create_directories fs (parent_path q)") (simp_all add: ensure_parent_dirs_def)
  then show ?thesis using that [of Open_staging fs1] assms(1) Make_dirs by (simp add: tmp_path_for_def)
next
  case Create_staging
  then show ?thesis
    using that assms(1) by (cases "open_trunc fs (q @ ''.tmp'')") (simp_all add: tmp_path_for_def)
next
  case (Write_data k)
  then show ?thesis using that by (cases "seek_write fs k (sint offset) data") simp
qed (use that assms in \<open>auto simp: tmp_path_for_def\<close>)

lemma blocks_progress:
  assumes inv: "blocks_inv r p fs0 blocks (fs, fm, us)" and q: "resolve_path r p = Inr q"
    and open_job: "\<not> list_all (\<lambda>u. job_ok u \<noteq> None) us"
  shows "\<exists>fs' fm' us'. blocks_step r p (fs, fm, us) (fs', fm', us') \<and> jobs_left us' < jobs_left us"
proof (cases "\<exists>i < length us. \<exists>m pt. bj_at (us ! i) = Block_in m pt")
  case True
  then obtain i m pt where i: "i < length us" "bj_at (us ! i) = Block_in m pt" by blast
  show ?thesis
  proof (cases "\<exists>ok. pt = Written ok")
    case True
    then obtain ok where "pt = Written ok" by blast
    then show ?thesis using leave [of i us m ok r p fs fm] i jobs_left_update [OF i(1)] by fastforce
  next
    case False
    then have "\<forall>ok. pt \<noteq> Written ok" by blast
    from write_io_progress [OF q this, of "bj_offset (us ! i)" "bj_data (us ! i)" fs] obtain pt' fs'
      where w: "write_io r p (bj_offset (us ! i)) (bj_data (us ! i)) pt fs = Inr (pt', fs')" "points_left pt' < points_left pt" by blast
    show ?thesis
      using work [OF i _ w(1)] False jobs_left_update [OF i(1), of "(us ! i)\<lparr>bj_at := Block_in m pt'\<rparr>"] w(2) i(2) by fastforce
  qed
next
  case outside: False
  have locks: "lock_inv (fm, lock_threads p us)" using inv by (simp add: blocks_inv_def)
  obtain i where i: "i < length us" "job_ok (us ! i) = None" using open_job by (auto simp: list_all_length)
  then consider (new) "bj_at (us ! i) = Block_start" | (wait) m where "bj_at (us ! i) = Block_wait m"
    using outside by (cases "bj_at (us ! i)") (auto simp: job_ok_def)
  then show ?thesis
  proof cases
    case new
    obtain m fm' where "get_or_create p fm = (m, fm')" by fastforce
    from ask [OF i(1) new this] jobs_left_update [OF i(1), of "(us ! i)\<lparr>bj_at := Block_wait m\<rparr>"] new show ?thesis by fastforce
  next
    case wait
    have "\<not> reads m t \<and> \<not> writes m t" if t: "t \<in> set (lock_threads p us)" for t
    proof -
      obtain u where u: "u \<in> set us" "t = lock_view p (bj_at u)" using t by auto
      have "bj_at u \<noteq> Block_in n pt" for n pt using outside u(1) by (metis in_set_conv_nth)
      then show ?thesis using u(2) by (cases "bj_at u") auto
    qed
    then have "users (reads m) (lock_threads p us) = 0" "users (writes m) (lock_threads p us) = 0" unfolding users_zero by blast+
    then have "readers (objects fm m) = 0" "\<not> writer (objects fm m)" using lock_invD(5,6) [OF locks, of m] by simp_all
    then obtain fm' where "lock_exclusive m fm = Some fm'" by (simp add: lock_exclusive_def)
    from enter [OF i(1) wait this] jobs_left_update [OF i(1), of "(us ! i)\<lparr>bj_at := Block_in m Make_dirs\<rparr>"] wait show ?thesis by fastforce
  qed
qed

lemma blocks_complete:
  assumes "blocks_inv r p fs0 blocks (fs, fm, us)" and q: "resolve_path r p = Inr q"
  shows "\<exists>fs' fm' us'. (blocks_step r p)\<^sup>*\<^sup>* (fs, fm, us) (fs', fm', us') \<and> list_all (\<lambda>u. job_ok u \<noteq> None) us'"
  using assms(1)
proof (induction "jobs_left us" arbitrary: fs fm us rule: less_induct)
  case less
  show ?case
  proof (cases "list_all (\<lambda>u. job_ok u \<noteq> None) us")
    case False
    from blocks_progress [OF less.prems q False] obtain fs1 fm1 us1
      where st: "blocks_step r p (fs, fm, us) (fs1, fm1, us1)" "jobs_left us1 < jobs_left us" by blast
    from less.hyps [OF st(2) blocks_inv_step [OF less.prems st(1)]] st(1) show ?thesis
      by (meson converse_rtranclp_into_rtranclp)
  qed blast
qed

section \<open>Claims about concurrent blocks\<close>

lemma finished_all:
  assumes "blocks_inv r p fs0 blocks (fs, fm, us)" and "list_all (\<lambda>u. job_ok u \<noteq> None) us"
  obtains order where "distinct order" "set order = {..<length blocks}"
    "write_serially r p fs0 (map (\<lambda>i. blocks ! i) order) = Inr (map (\<lambda>i. the (job_ok (us ! i))) order, fs)"
proof -
  obtain order fs1 where blocks: "map job_block us = blocks"
    and fin: "finished_upto r p fs0 us order fs1" and way: "under_way r p fs us fs1"
    using assms(1) by (auto simp: blocks_inv_def)
  have "fs = fs1"
    using way assms(2) by (auto simp: under_way_def list_all_iff job_ok_def)
  moreover have order: "set order = {..<length blocks}"
    using fin assms(2) blocks [symmetric] by (auto simp: finished_upto_def list_all_length)
  moreover have same: "map (\<lambda>i. blocks ! i) order = map (\<lambda>i. job_block (us ! i)) order"
    unfolding blocks [symmetric] using order blocks [symmetric] by (intro map_cong) simp_all
  ultimately show ?thesis using fin by (intro that [of order]) (simp_all only: same finished_upto_def)
qed

text \<open>
  C18. The write lock makes block writes atomic: any number of threads write blocks of one file, each
  between acquiring and releasing the lock of the path, with their operations on the lock table and on the
  file interleaved in any way.  From every state they can all finish, and once they have, the storage and
  the results are those of writing the blocks one after the other in some order.
\<close>

theorem concurrent_blocks_serial:
  assumes "resolve_path storage_root p = Inr q"
    and "(blocks_step storage_root p)\<^sup>*\<^sup>* (fs, FileMutex_init, map block_start blocks) (fs', fm', us)"
  shows "(\<exists>fs2 fm2 us2. (blocks_step storage_root p)\<^sup>*\<^sup>* (fs', fm', us) (fs2, fm2, us2) \<and> list_all (\<lambda>u. job_ok u \<noteq> None) us2) \<and>
    (list_all (\<lambda>u. job_ok u \<noteq> None) us \<longrightarrow> (\<exists>order. distinct order \<and> set order = {..<length blocks} \<and>
      write_serially storage_root p fs (map (\<lambda>i. blocks ! i) order) = Inr (map (\<lambda>i. the (job_ok (us ! i))) order, fs')))"
proof -
  have inv: "blocks_inv storage_root p fs blocks (fs', fm', us)"
    using locked_blocks.reachable_invariant [OF refl assms(2)] .
  from blocks_complete [OF inv assms(1)] finished_all [OF inv] show ?thesis by metis
qed

theorem concurrent_blocks_serial_witness:
  "\<exists>fs fm us order. (blocks_step ''./data'' ''sub/new'')\<^sup>*\<^sup>* (demo_storage, FileMutex_init, map block_start [(0, [1, 2]), (2, [3])]) (fs, fm, us) \<and>
     distinct order \<and> set order = {..<2} \<and>
     write_serially ''./data'' ''sub/new'' demo_storage (map (\<lambda>i. [(0, [1, 2]), (2, [3])] ! i) order) = Inr (map (\<lambda>i. the (job_ok (us ! i))) order, fs)"
proof -
  let ?S = "blocks_step ''./data'' ''sub/new''" and ?b = "[(0, [1, 2]), (2, [3])] :: (u64 \<times> byte list) list"
  have q: "resolve_path ''./data'' ''sub/new'' = Inr (path_append ''./data'' ''sub/new'')"
    by (rule resolve_plain [OF demo_storage_facts(1)])
  obtain fs fm us where run: "?S\<^sup>*\<^sup>* (demo_storage, FileMutex_init, map block_start ?b) (fs, fm, us)" "list_all (\<lambda>u. job_ok u \<noteq> None) us"
    using concurrent_blocks_serial [OF q rtranclp.rtrancl_refl] by blast
  with concurrent_blocks_serial [OF q run(1)] show ?thesis by (auto simp: numeral_2_eq_2)
qed

text \<open>A sequence of blocks that are all staged.\<close>

lemma stage_all_serial:
  assumes "stage_all (\<lambda>fs (offset, data). write_block_atomic r fs p offset data) fs blocks = Inr (True, fs')"
  shows "write_serially r p fs blocks = Inr (replicate (length blocks) True, fs')"
  using assms
proof (induction blocks arbitrary: fs)
  case (Cons b blocks)
  then show ?case by (cases b) (auto simp: bind_result_Inr_iff split: if_splits)
qed simp

text \<open>
  C19. Reassembly under concurrency: if there is no staging file yet, the blocks of a file (a block may even
  come twice), written by threads of their own in any interleaving, are all written, and when all threads
  are done the rename publishes exactly that file.
\<close>

theorem concurrent_blocks_reassemble:
  assumes p: "plain_path p" "CHR 0x00 \<notin> set storage_root"
    and fs: "healthy fs" "storage_wf fs" "writable_place storage_root fs p"
    and fresh: "node_at fs (temp_key storage_root fs p) = None"
    and bs: "0 < bs" and content: "content \<noteq> []" "length content < 2 ^ 63" "length content \<le> max_file fs"
    and all: "set ids = {..<block_count bs (length content)}"
    and run: "(blocks_step storage_root p)\<^sup>*\<^sup>* (fs, FileMutex_init, map (\<lambda>i. block_start (block_of bs content i)) ids) (fs', fm', us)"
      "list_all (\<lambda>u. job_ok u \<noteq> None) us"
  shows "list_all (\<lambda>u. job_ok u = Some True) us \<and> (\<exists>fs2. atomic_rename_tmp storage_root fs' p = Inr (True, fs2) \<and>
    file_at fs2 (target_key storage_root fs p) = Some content)"
proof -
  let ?blocks = "map (block_of bs content) ids"
  have run': "(blocks_step storage_root p)\<^sup>*\<^sup>* (fs, FileMutex_init, map block_start ?blocks) (fs', fm', us)"
    using run(1) by (simp add: comp_def)
  have inv: "blocks_inv storage_root p fs ?blocks (fs', fm', us)"
    using locked_blocks.reachable_invariant [OF refl run'] .
  have len: "length us = length ids" using inv by (auto simp: blocks_inv_def dest: arg_cong [of _ _ length])
  obtain order where order: "set order = {..<length ids}"
    and ser: "write_serially storage_root p fs (map (\<lambda>i. ?blocks ! i) order) = Inr (map (\<lambda>i. the (job_ok (us ! i))) order, fs')"
    by (rule finished_all [OF inv run(2)]) simp
  let ?ids = "map (\<lambda>i. ids ! i) order"
  have "set ?ids = {..<block_count bs (length content)}"
    using order all by (metis atLeast0LessThan image_set map_nth set_upt)
  from blocks_reassemble [OF p fs fresh bs content this] obtain fs1 fs2
    where st: "stage_all (\<lambda>fs (offset, data). write_block_atomic storage_root fs p offset data) fs (map (block_of bs content) ?ids) = Inr (True, fs1)"
      and mv: "atomic_rename_tmp storage_root fs1 p = Inr (True, fs2)" "file_at fs2 (target_key storage_root fs p) = Some content"
    by blast
  have same: "map (block_of bs content) ?ids = map (\<lambda>i. ?blocks ! i) order" using order by auto
  have "fs1 = fs'" "map (\<lambda>i. the (job_ok (us ! i))) order = replicate (length order) True"
    using stage_all_serial [OF st] unfolding same ser by simp_all
  then have "the (job_ok (us ! i))" if "i < length us" for i
    using order len that by (auto simp: map_replicate_trivial dest!: arg_cong [of _ _ set] split: if_splits)
  then have "list_all (\<lambda>u. job_ok u = Some True) us" using run(2) unfolding list_all_length by (metis (full_types) option.exhaust_sel)
  with mv \<open>fs1 = fs'\<close> show ?thesis by blast
qed

theorem concurrent_blocks_reassemble_witness:
  "\<exists>fs fm us fs2. (blocks_step ''./data'' ''sub/new'')\<^sup>*\<^sup>*
       (demo_storage, FileMutex_init, map (\<lambda>i. block_start (block_of 2 [1, 2, 3] i)) [1, 0]) (fs, fm, us) \<and>
     atomic_rename_tmp ''./data'' fs ''sub/new'' = Inr (True, fs2) \<and>
     file_at fs2 [''srv'', ''data'', ''sub'', ''new''] = Some [1, 2, 3]"
proof -
  let ?S = "blocks_step ''./data'' ''sub/new''" and ?b = "map (block_of 2 [1, 2, 3]) [1, 0]"
  have q: "resolve_path ''./data'' ''sub/new'' = Inr (path_append ''./data'' ''sub/new'')"
    by (rule resolve_plain [OF demo_storage_facts(1)])
  obtain fs fm us where "?S\<^sup>*\<^sup>* (demo_storage, FileMutex_init, map block_start ?b) (fs, fm, us)" and fin: "list_all (\<lambda>u. job_ok u \<noteq> None) us"
    using blocks_complete [OF blocks_inv_start q] by blast
  then have run: "?S\<^sup>*\<^sup>* (demo_storage, FileMutex_init, map (\<lambda>i. block_start (block_of 2 [1, 2, 3] i)) [1, 0]) (fs, fm, us)" by simp
  have facts: "node_at demo_storage (temp_key ''./data'' demo_storage ''sub/new'') = None"
    "length [1, 2, 3 :: byte] \<le> max_file demo_storage"
    "set [1, 0 :: nat] = {..<block_count 2 (length [1, 2, 3 :: byte])}"
    "target_key ''./data'' demo_storage ''sub/new'' = [''srv'', ''data'', ''sub'', ''new'']"
    by code_simp+
  have "0 < (2 :: nat)" "[1, 2, 3 :: byte] \<noteq> []" "length [1, 2, 3 :: byte] < 2 ^ 63" by simp_all
  from concurrent_blocks_reassemble [OF demo_storage_facts(1,3-6) facts(1) this facts(2,3) run fin] run
  show ?thesis unfolding facts(4) by blast
qed

end
