(* ===== verification/Spec2Isabelle.thy ===== *)
theory Spec2Isabelle
  imports Main_Program Client_Server Upload_Race Locked_Blocks
begin

text \<open>
  A verification of AdaptiveSync: the file server, the C++ program under \<^verbatim>\<open>src/server\<close>, and the client library,
  the Rust crate under \<^verbatim>\<open>src/client\<close>.

  \<^bold>\<open>The program.\<close>  \<^verbatim>\<open>main\<close> reads the command line and runs \<^verbatim>\<open>AdaptiveSyncServer\<close>, which listens on a TCP port
  and starts one worker thread per connection.  A worker runs a \<^verbatim>\<open>Session\<close>: a loop that reads frames
  (\<^verbatim>\<open>wire_protocol.h\<close>) and calls one handler per message type.  The handlers ask the \<^verbatim>\<open>Negotiator\<close> which
  kind of transfer a file needs, stream files with the \<^verbatim>\<open>ZeroCopySender\<close>, collect uploads, or synchronise
  blocks with the \<^verbatim>\<open>DeltaSyncHandler\<close>.  All of them work on one storage directory through the \<^verbatim>\<open>FileManager\<close>
  (path resolution, staging files, rename, SHA-256) and, for blocks, under the per-path reader-writer
  locks of the \<^verbatim>\<open>FileMutex\<close>.  A client is a \<^verbatim>\<open>TcpClient\<close>: it connects, negotiates, downloads, uploads and sends blocks
  with one call each, or decides between them with \<^verbatim>\<open>sync_file\<close>; its local files are read and written through
  \<^verbatim>\<open>FileOps\<close> and the \<^verbatim>\<open>DeltaSyncEngine\<close>.

  \<^bold>\<open>The theories, in the order of their imports.\<close>
    \<^item> \<^verbatim>\<open>Prelude\<close>: machine integers, results (\<open>Inl\<close> is the exception that leaves a call), allocation,
      little-endian memory, the locale of transition systems with an invariant.
    \<^item> \<^verbatim>\<open>Wire_Protocol\<close> (\<^verbatim>\<open>wire_protocol.h\<close>): byte order, frames, \<^verbatim>\<open>read_exact\<close> and \<^verbatim>\<open>write_exact\<close> with their
      narrowing casts, \<^verbatim>\<open>read_frame\<close>, \<^verbatim>\<open>write_frame\<close>.  A socket is the script of the kernel's answers; after
      the script the peer has closed the connection, unless it stays connected and falls silent (\<open>Recv_silent\<close>).
      Frames survive any fragmentation; a raw frame of 4 GiB or more is never read.
    \<^item> \<^verbatim>\<open>Checksums\<close> (the hash code of \<^verbatim>\<open>file_manager.cpp\<close> and \<^verbatim>\<open>delta_sync_handler.cpp\<close>): both SHA-256
      routines equal an independent statement of FIPS 180-4 whose constants are computed from primes;
      Adler-32 equals the sums of RFC 1950.
    \<^item> \<^verbatim>\<open>Paths\<close>: what the sources use of \<^verbatim>\<open>std::filesystem::path\<close> (append, normal form, parent, relative),
      and where a path leads: a walk over its names, the reference for path resolution.
    \<^item> \<^verbatim>\<open>Storage\<close>: a POSIX file tree with permissions, a size limit and clocks, and the calls the sources
      make on it (open, seek and write, create directories, rename).
    \<^item> \<^verbatim>\<open>File_Manager\<close> (\<^verbatim>\<open>file_manager.h\<close>, \<^verbatim>\<open>file_manager.cpp\<close>): every operation of the class.  The locale
      \<open>staging_store\<close> is the contract of stage and rename, interpreted for whole files and for blocks:
      containment in the root, publication, atomicity, reassembly of blocks, reads and listings.
    \<^item> \<^verbatim>\<open>File_Mutex\<close> (\<^verbatim>\<open>file_mutex.h\<close>, \<^verbatim>\<open>file_mutex.cpp\<close>): the lock table and the threads that use it as a
      transition system: mutual exclusion, exact counts, progress.
    \<^item> \<^verbatim>\<open>Messages\<close>: the messages of \<^verbatim>\<open>adaptivesync.proto\<close> and the protobuf codec as a parameter.
    \<^item> \<^verbatim>\<open>Negotiator\<close>, \<^verbatim>\<open>Zero_Copy\<close>, \<^verbatim>\<open>Delta_Sync\<close> (the headers and sources of those names): the decision
      table; streaming as built on Linux (\<^verbatim>\<open>sendfile\<close>) and on other POSIX systems (the portable loop), which
      put the same bytes on the wire; block requests and block data.
    \<^item> \<^verbatim>\<open>Locked_Blocks\<close> (\<^verbatim>\<open>handle_block_data\<close> between acquire and release, \<^verbatim>\<open>write_block_atomic\<close>): block writes of
      any number of threads, interleaved operation by operation on the lock table and the file, equal a
      serial order of the writes; all threads can always finish; the blocks of a file give that file.
    \<^item> \<^verbatim>\<open>Session\<close> (\<^verbatim>\<open>session.h\<close>, \<^verbatim>\<open>session.cpp\<close>): all handlers and the event loop; the invariant between
      messages, termination, malformed input, uploads.
    \<^item> \<^verbatim>\<open>Session_Storage\<close>: the abstract store, a map from names to contents that changes by staging and
      publishing; every message refines steps on the one path it names.  The relation \<open>serves\<close> lists the permitted
      outcomes of a request: nothing, a staging file written, an upload of the announced length published, staged
      bytes published with the block of the request in them, each under names inside the storage root.
    \<^item> \<^verbatim>\<open>Session_Output\<close>: what a session sends is a sequence of complete items that a client can decode,
      except for a file that cannot be opened.
    \<^item> \<^verbatim>\<open>Session_Delta\<close>: block transfers through the event loop, with the answers that reach the client.
    \<^item> \<^verbatim>\<open>Upload_Race\<close>: the saving of an upload operation by operation.  Alone it is \<open>save_upload\<close>; since it
      takes no lock, two of them can publish a mixture.
    \<^item> \<^verbatim>\<open>Server\<close> (\<^verbatim>\<open>server.h\<close>, \<^verbatim>\<open>server.cpp\<close>): constructor, accept loops, failure to start a thread, signal
      handler, shutdown, destructor, worker threads interleaving message by message; the invariant of the
      whole server, the permitted outcome of every step on the stored files, and the end of the destructor, which
      waits for its clients to leave.
    \<^item> \<^verbatim>\<open>Main_Program\<close> (\<^verbatim>\<open>main.cpp\<close>): the command line, and \<^verbatim>\<open>main\<close> from its arguments to the end of the process.
    \<^item> \<^verbatim>\<open>Client_Wire\<close> (\<^verbatim>\<open>wire.rs\<close>, \<^verbatim>\<open>lib.rs\<close>): the client's errors, its stream and its frames; each side reads what the
      other side writes.
    \<^item> \<^verbatim>\<open>Client_Files\<close> (\<^verbatim>\<open>hashing.rs\<close>, \<^verbatim>\<open>file_ops.rs\<close>) and \<^verbatim>\<open>Client_Delta\<close> (\<^verbatim>\<open>delta_sync.rs\<close>): the client's files on the file tree of
      \<^verbatim>\<open>Storage\<close>, whole and by blocks; signatures and requested blocks are those of the file's contents.
    \<^item> \<^verbatim>\<open>Client\<close> (\<^verbatim>\<open>tcp_client.rs\<close>): every operation of \<^verbatim>\<open>TcpClient\<close>, with what each call writes and returns.
    \<^item> \<^verbatim>\<open>Client_Server\<close>: a client and a session talking to each other (\<open>exchange\<close>): the handshake, a block transfer that
      makes the server's file the client's, and the outcomes of \<^verbatim>\<open>sync_file\<close> for a file that is unchanged, new,
      missing or modified.  A new file cannot be synchronised, and a modified one loses its unchanged blocks.
    \<^item> this theory: the round trip of a file from one client over the server to another client.

  \<^bold>\<open>Interfaces.\<close>  Contracts are locales, interpreted on the definitions of the component that provides
  them: \<open>wire_field\<close> (integers on the wire), \<open>hex_digest\<close> (both SHA-256 routines), \<open>staging_store\<close> (whole files
  and blocks), \<open>lock_section\<close> (read and write locks), \<open>transition_system\<close> (the threads at the lock table, the
  block writers, a session, the server).

  \<^bold>\<open>State and effects.\<close>  A class is a record with the fields of the class; an operation takes and returns
  it.  Objects shared by reference (storage, lock table) are passed in and out.  An exception is \<open>Inl\<close> of
  the type \<open>stop\<close>; a lock that is not free is \<open>Waits_for_lock\<close>, and a read from a peer that stays connected and
  says nothing is \<open>Waits_for_peer\<close>: the call is still waiting.  Machine integers keep their width, and
  every narrowing cast of the sources is written out.  Definitions are executable.

  \<^bold>\<open>Loops.\<close>  The socket loops, the upload loop and the accept loops recurse over the scripts of the kernel
  and end with them.  The \<^verbatim>\<open>sendfile\<close> loop and the event loop are partial functions whose value \<open>None\<close> is a
  call that never returns; that they return is proved (\<open>send_file_linux_loop_returns\<close>, \<open>run_returns\<close>; and
  \<open>destroy_returns\<close> when no client falls silent, while \<open>destroy_idle\<close> shows the destructor waiting for one that does), as is the case in which \<^verbatim>\<open>sendfile\<close> spins for ever on a file that became shorter.
  \<^verbatim>\<open>main\<close> does not return while its accept loop waits or its destructor waits for a client, which is \<open>None\<close> as well.  There is no fuel.

  \<^bold>\<open>Assumptions.\<close>  The host is 64-bit little-endian Linux with glibc and libstdc++.  The protobuf runtime
  and the generated classes are the parameter \<open>codec\<close>; nothing is assumed of it except, where a claim says
  so, that a message fits a frame and that the other side decodes it (\<open>server_decodes\<close>, \<open>client_decodes\<close>).  The
  crates of the client (\<^verbatim>\<open>sha2\<close>, \<^verbatim>\<open>hex\<close>, the types \<^verbatim>\<open>prost\<close> generates) are the parameter \<open>crates\<close>.  The client's stream is the bytes
  that arrive until the connection ends, the bytes written, and how many more it takes; Rust's integers wrap as
  in the release profile, and memory may be refused for buffers whose size the peer or a file chooses.  In \<^verbatim>\<open>Server\<close> a session handles one message as one step,
  an upload with the reading of its data included; a thread that cannot be started ends the accept loop and is not a step.  The
  claims about a client and a session (\<open>exchange\<close>) relate the whole byte streams of both directions; that neither side waits for
  bytes which the other sends only later is not part of them.  Contention for
  the lock table is the subject of \<^verbatim>\<open>File_Mutex\<close>; what may happen inside a message is that of \<^verbatim>\<open>Locked_Blocks\<close>
  for block writes, which the lock makes atomic, and of \<^verbatim>\<open>Upload_Race\<close> for uploads, which are not.

  \<^bold>\<open>Not modelled.\<close>  Console output, which includes all of \<^verbatim>\<open>print_banner\<close> and \<^verbatim>\<open>print_usage\<close>; the branches
  compiled only on Windows (the \<^verbatim>\<open>TransmitFile\<close> code does not compile there, since it uses a variable that
  is not declared; Winsock start-up); socket options; the signal \<^verbatim>\<open>SIGPIPE\<close>, which the sources do not ignore and with which
  a write to a connection that the peer has closed ends the process: here such a write fails with an error code; the closing of a client's socket when its session
  ends, for nothing reads or writes it afterwards; rounding of the transfer rate to \<^verbatim>\<open>float\<close>.  Of the client:
  \<^verbatim>\<open>list_files\<close>, which is the crate \<^verbatim>\<open>walkdir\<close> and which no operation calls, and the log.  The user interfaces and the
  benchmarks are other programs.
\<close>

section \<open>Properties that span components\<close>

text \<open>
  C1. End to end, between two clients and the server: when one client uploads a file of at least one byte and
  less than 4 GiB, the upload succeeds, and from then on any client that downloads the name over any session on the same storage gets the same bytes.  The
  session of the first client reads exactly what its call writes, the call returns the digest of the file, and the
  server's file is the client's.  The session of the second client answers with the header and the bytes, the
  call checks the digest against the header and returns it, and the file appears in the second client's directory;
  nothing else changes there, except that a file with the name of the temporary file is gone.
\<close>

theorem file_roundtrip:
  assumes s: "session_open s" and cd: "codec_small n cd" and has: "client_has cr a p content info"
    and content: "content \<noteq> []" "length content < 2 ^ 32" "length content \<le> cgrant"
    and room: "accepts_upload s grant p content"
    and stream: "rx_bytes (rx (client_fd s)) = upload_bytes cr info content @ rest"
    and sha: "\<And>d. sha2_hex cr d = to_hex (fips_sha256 d)"
    and msgs: "server_decodes (enc_ZeroCopyUploadRequest cr) (parse_ZeroCopyUploadRequest cd) grant (upload_request info)"
      "client_decodes (ser_ZeroCopyUploadAck cd) (dec_ZeroCopyUploadAck cr) cgrant \<lparr>ua_status = STATUS_OK, ua_error_message = [], ua_offset = 0\<rparr>"
      "server_decodes (enc_ZeroCopyDownloadRequest cr) (parse_ZeroCopyDownloadRequest cd) grant \<lparr>dr_relative_path = p, dr_offset = 0\<rparr>"
      "client_decodes (ser_ZeroCopyDownloadHeader cd) (dec_ZeroCopyDownloadHeader cr) cgrant (header_message p content)"
  shows "\<exists>s'. exchange cd grant s s' (upload_file cr cgrant p) a (Inr (to_hex (fips_sha256 content))) a \<and>
    file_at (disk s') (target_key (file_root s) (disk s) p) = Some content \<and>
    (\<forall>t b rest2. session_open t \<and> disk t = disk s' \<and> file_root t = file_root s \<and> rx_bytes (rx (client_fd t)) = download_bytes cr p @ rest2 \<and>
        client_place (tc_file_ops b) (local_disk b) p \<and> length content \<le> max_file (local_disk b) \<longrightarrow>
      (\<exists>t' b'. exchange cd grant t t' (download_file cr cgrant p) b (Inr (to_hex (fips_sha256 content))) b' \<and> disk t' = disk t \<and>
        (\<forall>k. file_at (local_disk b') k = (if k = target_key (sync_root (tc_file_ops b)) (local_disk b) p then Some content
           else if k = client_temp_key (sync_root (tc_file_ops b)) (local_disk b) p then None else file_at (local_disk b) k))))"
proof -
  obtain s' where s': "exchange cd grant s s' (upload_file cr cgrant p) a (Inr (sha2_hex cr content)) a"
    "cwd (disk s') = cwd (disk s)" "no_read (disk s') = []"
    "file_at (disk s') (target_key (file_root s) (disk s) p) = Some content"
    by (rule exchange_upload [OF s cd stream has msgs(1,2) room content(1,2)]) auto
  have root: "CHR 0x00 \<notin> set (file_root s)" and len: "length content < 2 ^ 63" using room content(2) by (auto simp: accepts_upload_def)
  have stored: "file_at (disk s') (target_key (file_root s) (disk s') p) = Some content" using s'(2,4) by (simp add: target_key_def)
  have "\<exists>t' b'. exchange cd grant t t' (download_file cr cgrant p) b (Inr (to_hex (fips_sha256 content))) b' \<and> disk t' = disk t \<and>
        (\<forall>k. file_at (local_disk b') k = (if k = target_key (sync_root (tc_file_ops b)) (local_disk b) p then Some content
           else if k = client_temp_key (sync_root (tc_file_ops b)) (local_disk b) p then None else file_at (local_disk b) k))"
    if "session_open t" "disk t = disk s'" "file_root t = file_root s" "rx_bytes (rx (client_fd t)) = download_bytes cr p @ rest2"
      "client_place (tc_file_ops b) (local_disk b) p" "length content \<le> max_file (local_disk b)" for t b rest2
  proof -
    have "CHR 0x00 \<notin> set (file_root t)" "file_at (disk t) (target_key (file_root t) (disk t) p) = Some content" "no_read (disk t) = []"
      using that(2,3) root stored s'(3) by simp_all
    from exchange_download [OF that(1,4) msgs(3,4) sha this content(1) len content(3) that(5,6)] show ?thesis by blast
  qed
  with s'(1) [unfolded sha] s'(4) show ?thesis by blast
qed

text \<open>The client of the examples uploads the file of three bytes; a second client has an empty directory.\<close>

definition transfer_info :: LocalFileInfo where
  "transfer_info = \<lparr>li_relative_path = ''sub/new'', li_file_size = 3, li_last_modified_ns = word_of_int (100 + FILE_CLOCK_EPOCH),
     li_sha256_hash = to_hex (fips_sha256 [5, 6, 7])\<rparr>"

definition transfer_codec :: codec where
  "transfer_codec = demo_codec\<lparr>parse_ZeroCopyUploadRequest := (\<lambda>_ _. Some (upload_request transfer_info)),
     parse_ZeroCopyDownloadRequest := (\<lambda>_ _. Some \<lparr>dr_relative_path = ''sub/new'', dr_offset = 0\<rparr>)\<rparr>"

definition transfer_crates :: crates where
  "transfer_crates = demo_crates\<lparr>
     dec_ZeroCopyUploadAck := (\<lambda>_. Some \<lparr>ua_status = STATUS_OK, ua_error_message = [], ua_offset = 0\<rparr>),
     dec_ZeroCopyDownloadHeader := (\<lambda>_. Some (header_message ''sub/new'' [5, 6, 7]))\<rparr>"

theorem file_roundtrip_witness:
  "\<exists>s' t' b'. exchange transfer_codec 64 (demo_session [Recv_data (upload_bytes transfer_crates transfer_info [5, 6, 7])]) s'
      (upload_file transfer_crates 64 ''sub/new'') (demo_client 65536 (laptop [] [5, 6, 7])) (Inr (to_hex (fips_sha256 [5, 6, 7]))) (demo_client 65536 (laptop [] [5, 6, 7])) \<and>
    exchange transfer_codec 64 ((demo_session [Recv_data (download_bytes transfer_crates ''sub/new'')])\<lparr>disk := disk s'\<rparr>) t'
      (download_file transfer_crates 64 ''sub/new'') (demo_client 65536 demo_storage) (Inr (to_hex (fips_sha256 [5, 6, 7]))) b' \<and>
    file_at (local_disk b') [''srv'', ''data'', ''sub'', ''new''] = Some [5, 6, 7]"
proof -
  let ?p = "''sub/new''" and ?x = "[5, 6, 7] :: byte list" and ?cr = transfer_crates and ?cd = transfer_codec
  let ?a = "demo_client 65536 (laptop [] ?x)" and ?b = "demo_client 65536 demo_storage"
  let ?s = "demo_session [Recv_data (upload_bytes ?cr transfer_info ?x)]"
  have ops: "tc_file_ops ?a = \<lparr>sync_root = ''./data'', fo_block_size = 65536\<rparr>" "tc_file_ops ?b = \<lparr>sync_root = ''./data'', fo_block_size = 65536\<rparr>"
    by (simp_all add: demo_client_def TcpClient_new_def)
  have sha: "sha2_hex ?cr d = to_hex (fips_sha256 d)" for d by (simp add: transfer_crates_def demo_sha)
  have readable: "block_readable 64 \<lparr>sync_root = ''./data'', fo_block_size = 2\<rparr> (laptop [] ?x) ?p ?x" by (rule laptop_readable) simp_all
  have node: "os_node (laptop [] ?x) (path_append ''./data'' ?p) = Some (File ?x 100)" "no_read (laptop [] ?x) = []"
    "CHR 0x00 \<notin> set (path_append ''./data'' ?p)"
    by code_simp+
  have "client_get_file_info ?cr (tc_file_ops ?a) ?p (local_disk ?a) = Inr transfer_info"
    using node by (simp add: ops client_get_file_info_def client_file_size_def client_last_modified_ns_def client_sha256_def sha256_file_def
        rs_metadata_def rs_open_def open_in_def client_resolve_path_def hash_pieces_eq sha transfer_info_def FILE_CLOCK_EPOCH_def)
  with readable have has: "client_has ?cr ?a ?p ?x transfer_info" by (simp add: client_has_def block_readable_def)
  have small: "codec_small 1 ?cd" using demo_codec_small by (simp add: codec_small_def transfer_codec_def)
  have room: "accepts_upload ?s 64 ?p ?x" using demo_storage_facts by (simp add: accepts_upload_def vector_max_size_def)
  have stream: "rx_bytes (rx (client_fd ?s)) = upload_bytes ?cr transfer_info ?x @ []" by (simp add: upload_bytes_def)
  have msgs: "server_decodes (enc_ZeroCopyUploadRequest ?cr) (parse_ZeroCopyUploadRequest ?cd) 64 (upload_request transfer_info)"
      "client_decodes (ser_ZeroCopyUploadAck ?cd) (dec_ZeroCopyUploadAck ?cr) 64 \<lparr>ua_status = STATUS_OK, ua_error_message = [], ua_offset = 0\<rparr>"
      "server_decodes (enc_ZeroCopyDownloadRequest ?cr) (parse_ZeroCopyDownloadRequest ?cd) 64 \<lparr>dr_relative_path = ?p, dr_offset = 0\<rparr>"
      "client_decodes (ser_ZeroCopyDownloadHeader ?cd) (dec_ZeroCopyDownloadHeader ?cr) 64 (header_message ?p ?x)"
    by (simp_all add: server_decodes_def client_decodes_def transfer_codec_def transfer_crates_def)
  obtain s' where s': "exchange ?cd 64 ?s s' (upload_file ?cr 64 ?p) ?a (Inr (to_hex (fips_sha256 ?x))) ?a"
    and later: "\<forall>t b rest2. session_open t \<and> disk t = disk s' \<and> file_root t = file_root ?s \<and> rx_bytes (rx (client_fd t)) = download_bytes ?cr ?p @ rest2 \<and>
        client_place (tc_file_ops b) (local_disk b) ?p \<and> length ?x \<le> max_file (local_disk b) \<longrightarrow>
      (\<exists>t' b'. exchange ?cd 64 t t' (download_file ?cr 64 ?p) b (Inr (to_hex (fips_sha256 ?x))) b' \<and> disk t' = disk t \<and>
        (\<forall>k. file_at (local_disk b') k = (if k = target_key (sync_root (tc_file_ops b)) (local_disk b) ?p then Some ?x
           else if k = client_temp_key (sync_root (tc_file_ops b)) (local_disk b) ?p then None else file_at (local_disk b) k)))"
    using file_roundtrip [OF demo_open(1) small has _ _ _ room stream sha msgs] by auto
  let ?t = "(demo_session [Recv_data (download_bytes ?cr ?p)])\<lparr>disk := disk s'\<rparr>"
  have place: "client_place (tc_file_ops ?b) (local_disk ?b) ?p" unfolding ops demo_client_simps by code_simp
  have "session_open ?t" "disk ?t = disk s'" "file_root ?t = file_root ?s" "rx_bytes (rx (client_fd ?t)) = download_bytes ?cr ?p @ []"
    "length ?x \<le> max_file (local_disk ?b)"
    using demo_open(1) demo_storage_facts(8) by (simp_all add: session_open_def download_bytes_def)
  with later place obtain t' b' where "exchange ?cd 64 ?t t' (download_file ?cr 64 ?p) ?b (Inr (to_hex (fips_sha256 ?x))) b'"
    "\<forall>k. file_at (local_disk b') k = (if k = target_key (sync_root (tc_file_ops ?b)) (local_disk ?b) ?p then Some ?x
           else if k = client_temp_key (sync_root (tc_file_ops ?b)) (local_disk ?b) ?p then None else file_at (local_disk ?b) k)"
    by blast
  moreover from this(2) have "file_at (local_disk b') [''srv'', ''data'', ''sub'', ''new''] = Some ?x" using demo_fresh(3) by simp
  ultimately show ?thesis using s' by blast
qed

end
